(* ===== verification/Caos_Prelude.thy ===== *)
theory Caos_Prelude
  imports Main "HOL-Library.Word"
begin

text \<open>
  Shared vocabulary of the development: the kernel's integer types
  (\<^verbatim>\<open>include/types.h\<close>), the result of running kernel code, checked access to
  C arrays, the record of \<^verbatim>\<open>caos_printf\<close> calls, and the generic facts about lists
  and words that the component theories use.
\<close>

unbundle bit_operations_syntax

named_theorems outcome_simps \<open>evaluation of the outcome combinators\<close>
named_theorems kconst \<open>definitions of the kernel's numeric constants\<close>

subsection \<open>Integer types\<close>

type_synonym u8 = "8 word"
type_synonym u16 = "16 word"
type_synonym u32 = "32 word"
type_synonym u64 = "64 word"

subsection \<open>Results of kernel code\<close>

text \<open>
  Kernel code returns (\<open>Done\<close>), spins for ever in \<^verbatim>\<open>halt()\<close> or in a loop that never
  ends (\<open>Halt\<close>), or goes wrong (\<open>Fault\<close>): it touches memory outside the object it accesses, past a
  C array or through a null pointer, or executes an instruction that the processor refuses.
\<close>

datatype 'a outcome = Done 'a | Halt | Fault

primrec obind :: "'a outcome \<Rightarrow> ('a \<Rightarrow> 'b outcome) \<Rightarrow> 'b outcome" where
  "obind (Done x) f = f x"
| "obind Halt f = Halt"
| "obind Fault f = Fault"

text \<open>A loop that may never end is an option; not ending is spinning for ever.\<close>

primrec spin :: "'a outcome option \<Rightarrow> 'a outcome" where
  "spin None = Halt"
| "spin (Some r) = r"

text \<open>Reading and writing an element of a C array.\<close>

definition aget :: "'a list \<Rightarrow> nat \<Rightarrow> 'a outcome" where
  "aget xs i = (if i < length xs then Done (xs ! i) else Fault)"

definition aput :: "'a list \<Rightarrow> nat \<Rightarrow> 'a \<Rightarrow> 'a list outcome" where
  "aput xs i v = (if i < length xs then Done (xs[i := v]) else Fault)"

subsection \<open>Console output\<close>

text \<open>
  A call of \<^verbatim>\<open>caos_printf\<close>: its format and the arguments of the variable list.
  Components other than the console keep the calls they make in a log, newest last.
\<close>

datatype printf_arg = ArgInt u64 | ArgStr string

type_synonym printk = "string \<times> printf_arg list"

subsection \<open>Facts about outcomes\<close>

lemma obind_eq_Done_iff [simp]:
  "obind m f = Done y \<longleftrightarrow> (\<exists>x. m = Done x \<and> f x = Done y)"
  by (cases m) auto

lemma obind_split:
  "P (obind m f) \<longleftrightarrow>
     (\<forall>x. m = Done x \<longrightarrow> P (f x)) \<and> (m = Halt \<longrightarrow> P Halt) \<and> (m = Fault \<longrightarrow> P Fault)"
  by (cases m) auto

lemma obind_assoc: "obind (obind m f) g = obind m (\<lambda>x. obind (f x) g)"
  by (cases m) auto

lemma obind_cong [fundef_cong]:
  "m = m' \<Longrightarrow> (\<And>x. m' = Done x \<Longrightarrow> f x = f' x) \<Longrightarrow> obind m f = obind m' f'"
  by (cases m') auto

lemma spin_eq_Done_iff [simp]: "spin r = Done y \<longleftrightarrow> r = Some (Done y)"
  by (cases r) auto

lemma aget_Done_iff [simp]: "aget xs i = Done x \<longleftrightarrow> i < length xs \<and> x = xs ! i"
  by (auto simp: aget_def)

lemma aput_Done_iff [simp]: "aput xs i v = Done ys \<longleftrightarrow> i < length xs \<and> ys = xs[i := v]"
  by (auto simp: aput_def)

lemma aget_in [outcome_simps]: "i < length xs \<Longrightarrow> aget xs i = Done (xs ! i)"
  by (simp add: aget_def)

lemma aget_out [outcome_simps]: "length xs \<le> i \<Longrightarrow> aget xs i = Fault"
  by (simp add: aget_def)

lemma aput_in [outcome_simps]: "i < length xs \<Longrightarrow> aput xs i v = Done (xs[i := v])"
  by (simp add: aput_def)

lemma aput_out [outcome_simps]: "length xs \<le> i \<Longrightarrow> aput xs i v = Fault"
  by (simp add: aput_def)

subsection \<open>Facts about 64-bit words\<close>

lemma unat_u64_less [simp]: "unat (x::u64) < 18446744073709551616"
  using unsigned_less [of x] by simp

lemma unat_add_u64:
  "unat a + unat b < 2 ^ 64 \<Longrightarrow> unat (a + b :: u64) = unat a + unat b"
  by (simp add: unat_word_ariths)

lemma unat_sub_u64: "b \<le> a \<Longrightarrow> unat (a - b :: u64) = unat a - unat b"
  by (rule unat_sub)

lemma unat_mult_u64:
  "unat a * unat b < 2 ^ 64 \<Longrightarrow> unat (a * b :: u64) = unat a * unat b"
  by (simp add: unat_word_ariths)

lemma unat_of_nat_u64 [simp]: "n < 2 ^ 64 \<Longrightarrow> unat (of_nat n :: u64) = n"
  by (simp add: unat_of_nat)

lemma unat_push_bit_u64:
  "unat a * 2 ^ n < 2 ^ 64 \<Longrightarrow> unat (push_bit n a :: u64) = unat a * 2 ^ n"
proof (cases "a = 0 \<or> n = 0")
  case True
  then show ?thesis by auto
next
  case False
  assume *: "unat a * 2 ^ n < 2 ^ 64"
  have "(2::nat) ^ n \<le> unat a * 2 ^ n" using False by (simp add: Suc_le_eq unat_gt_0)
  then have "(2::nat) ^ n < 2 ^ 64" using * by (rule order_le_less_trans)
  then have "unat (of_nat (2 ^ n) :: u64) = 2 ^ n" by (rule unat_of_nat_u64)
  then have "unat (2 ^ n :: u64) = 2 ^ n" by simp
  then show ?thesis using * by (simp add: push_bit_eq_mult unat_word_ariths)
qed

lemma scast_small: "unat (w::u32) < 2 ^ 31 \<Longrightarrow> unat (scast w :: u64) = unat w"
proof -
  assume w: "unat w < 2 ^ 31"
  then have "\<not> bit w 31"
    by (metis bit_iff_odd_drop_bit drop_bit_eq_div div_less even_zero unat_drop_bit_eq
        unsigned_eq_0_iff)
  then have "\<not> bit w n" if "31 \<le> n" for n
    using that bit_imp_le_length [of w n] by (cases "n = 31") auto
  then have "(scast w :: u64) = ucast w"
    by (intro bit_word_eqI) (auto simp: bit_simps min_def)
  then show ?thesis using w by (simp add: unsigned_ucast_eq take_bit_nat_eq_self)
qed

lemma unat_clear_low:
  fixes y :: u64
  shows "unat (y AND NOT (mask n)) = unat y div 2 ^ n * 2 ^ n"
proof -
  have "y AND NOT (mask n) = push_bit n (drop_bit n y)"
    by (rule bit_word_eqI) (auto simp: bit_simps)
  moreover have "unat (drop_bit n y) * 2 ^ n = unat y div 2 ^ n * 2 ^ n"
    by (simp add: unat_drop_bit_eq drop_bit_eq_div [of n "unat y"])
  moreover have "unat y div 2 ^ n * 2 ^ n < 2 ^ 64"
    using order_le_less_trans [OF div_times_less_eq_dividend unat_u64_less [of y]] by simp
  ultimately show ?thesis using unat_push_bit_u64 [of "drop_bit n y" n] by simp
qed

lemma unat_align_up:
  fixes x :: u64
  assumes "unat x + 2 ^ n - 1 < 2 ^ 64"
  shows "unat (if x AND mask n \<noteq> 0 then (x + mask n) AND NOT (mask n) else x) =
    (unat x + 2 ^ n - 1) div 2 ^ n * 2 ^ n"
proof (cases "x AND mask n = 0")
  case True
  then have "unat x mod 2 ^ n = 0"
    by (metis take_bit_eq_mask take_bit_eq_mod unsigned_take_bit_eq unsigned_0)
  then obtain k where k: "unat x = 2 ^ n * k" by (auto simp: mod_eq_0_iff_dvd)
  obtain q where "(2::nat) ^ n = Suc q" using not0_implies_Suc [of "2 ^ n"] by auto
  then have "(2 ^ n * k + 2 ^ n - 1) div 2 ^ n = k"
    by (intro div_nat_eqI) simp_all
  then show ?thesis using True k by (simp add: mult.commute)
next
  case False
  have "2 ^ n - 1 < (2::nat) ^ 64" using assms by linarith
  then have "unat (mask n :: u64) = 2 ^ n - 1"
    using unat_of_nat_u64 [of "mask n"] by (simp add: mask_eq_exp_minus_1)
  then have "unat (x + mask n) = unat x + 2 ^ n - 1"
    using assms by (subst unat_add_u64) simp_all
  then show ?thesis using False by (simp add: unat_clear_low)
qed

end
