(* ===== verification/Bitops.thy ===== *)
theory Bitops
  imports Caos_Prelude
begin

text \<open>
  \<^verbatim>\<open>include/bitops.h\<close>, \<^verbatim>\<open>include/atomic.h\<close> and the page-flag macros of
  \<^verbatim>\<open>include/page-flags.h\<close>. The inline assembly is read as the instruction it names:
  \<^verbatim>\<open>bts/btr/btc/bt\<close> with a memory operand address bit \<open>nr\<close> of the bit string that starts
  at the operand, so a bitmap of several words is one operand; \<^verbatim>\<open>bsf\<close> and \<^verbatim>\<open>bsr\<close> scan for
  the lowest and the highest set bit; the \<^verbatim>\<open>lock\<close>ed arithmetic is one step on the counter.
\<close>

subsection \<open>Single bits in a bitmap\<close>

text \<open>
  The word of the bit string that holds bit \<open>nr\<close>. A negative \<open>nr\<close> lies before the bitmap;
  read unsigned it is at least \<open>2 ^ 63\<close>, past the end of any array.
\<close>

definition bit_word :: "u64 \<Rightarrow> u64 list \<Rightarrow> nat outcome" where
  "bit_word nr m =
     (if unat nr div 64 < length m then Done (unat nr div 64) else Fault)"

definition on_bit :: "(nat \<Rightarrow> u64 \<Rightarrow> u64) \<Rightarrow> u64 \<Rightarrow> u64 list \<Rightarrow> u64 list outcome" where
  "on_bit f nr m = obind (bit_word nr m) (\<lambda>i. Done (m[i := f (unat nr mod 64) (m ! i)]))"

definition set_bit_m :: "u64 \<Rightarrow> u64 list \<Rightarrow> u64 list outcome" where
  "set_bit_m nr m = on_bit Bit_Operations.set_bit nr m"

definition clear_bit :: "u64 \<Rightarrow> u64 list \<Rightarrow> u64 list outcome" where
  "clear_bit nr m = on_bit unset_bit nr m"

definition change_bit :: "u64 \<Rightarrow> u64 list \<Rightarrow> u64 list outcome" where
  "change_bit nr m = on_bit flip_bit nr m"

text \<open>
  \<^verbatim>\<open>lock; btq\<close> and \<^verbatim>\<open>sbbq %0,%0\<close>: all ones when the bit is set, otherwise 0. \<^verbatim>\<open>bt\<close> only reads, and
  the manuals of the processor allow the lock prefix only on instructions that write memory: on a
  processor that follows them the instruction raises the invalid-opcode exception. The emulator
  the project's scripts start ignored the prefix. The parameter \<open>lb\<close> says whether the processor
  executes \<^verbatim>\<open>bt\<close> with the prefix.
\<close>

definition test_bit_m :: "bool \<Rightarrow> u64 \<Rightarrow> u64 list \<Rightarrow> u64 outcome" where
  "test_bit_m lb nr m =
     (if lb then obind (bit_word nr m) (\<lambda>i. Done (if bit (m ! i) (unat nr mod 64) then - 1 else 0))
      else Fault)"

subsection \<open>Scans\<close>

function bsf_from :: "u64 \<Rightarrow> nat \<Rightarrow> nat" where
  "bsf_from w i = (if i < 64 \<and> \<not> bit w i then bsf_from w (Suc i) else i)"
  by pat_completeness auto
termination by (relation "measure (\<lambda>(w, i). 64 - i)") auto

definition bsfq :: "u64 \<Rightarrow> u64" where
  "bsfq w = of_nat (bsf_from w 0)"

fun bsr_from :: "u64 \<Rightarrow> nat \<Rightarrow> nat" where
  "bsr_from w 0 = 0"
| "bsr_from w (Suc i) = (if bit w (Suc i) then Suc i else bsr_from w i)"

definition bsrq :: "u64 \<Rightarrow> u64" where
  "bsrq w = of_nat (bsr_from w 63)"

definition ffz :: "u64 \<Rightarrow> u64" where
  "ffz word = (if word = 0 - 1 then 0 - 1 else bsfq (NOT word))"

definition ffs_word :: "u64 \<Rightarrow> u64" where
  "ffs_word word = (if word = 0 then 0 else bsfq word)"

definition fls_word :: "u64 \<Rightarrow> u64" where
  "fls_word word = bsrq word"

definition fls64 :: "u64 \<Rightarrow> u64" where
  "fls64 x = (if x = 0 then 0 else fls_word x + 1)"

subsection \<open>Atomic counters\<close>

record atomic_t = counter :: u64

definition atomic_read :: "atomic_t \<Rightarrow> u64" where
  "atomic_read v = counter v"

definition atomic_set :: "u64 \<Rightarrow> atomic_t \<Rightarrow> atomic_t" where
  "atomic_set i v = v\<lparr>counter := i\<rparr>"

definition atomic_add :: "u64 \<Rightarrow> atomic_t \<Rightarrow> atomic_t" where
  "atomic_add i v = v\<lparr>counter := counter v + i\<rparr>"

definition atomic_sub :: "u64 \<Rightarrow> atomic_t \<Rightarrow> atomic_t" where
  "atomic_sub i v = v\<lparr>counter := counter v - i\<rparr>"

definition atomic_sub_and_test :: "u64 \<Rightarrow> atomic_t \<Rightarrow> bool \<times> atomic_t" where
  "atomic_sub_and_test i v =
     (let v' = v\<lparr>counter := counter v - i\<rparr> in (counter v' = 0, v'))"

definition atomic_inc :: "atomic_t \<Rightarrow> atomic_t" where
  "atomic_inc v = v\<lparr>counter := counter v + 1\<rparr>"

definition atomic_dec :: "atomic_t \<Rightarrow> atomic_t" where
  "atomic_dec v = v\<lparr>counter := counter v - 1\<rparr>"

definition atomic_dec_and_test :: "atomic_t \<Rightarrow> bool \<times> atomic_t" where
  "atomic_dec_and_test v = (let v' = v\<lparr>counter := counter v - 1\<rparr> in (counter v' = 0, v'))"

definition atomic_inc_and_test :: "atomic_t \<Rightarrow> bool \<times> atomic_t" where
  "atomic_inc_and_test v = (let v' = v\<lparr>counter := counter v + 1\<rparr> in (counter v' = 0, v'))"

text \<open>\<^verbatim>\<open>xaddq\<close> leaves the old value in the register and the sum in memory.\<close>

definition atomic_add_return :: "u64 \<Rightarrow> atomic_t \<Rightarrow> u64 \<times> atomic_t" where
  "atomic_add_return i v =
     (let saved = i; old = counter v; v' = v\<lparr>counter := old + i\<rparr> in (old + saved, v'))"

definition atomic_sub_return :: "u64 \<Rightarrow> atomic_t \<Rightarrow> u64 \<times> atomic_t" where
  "atomic_sub_return i v = atomic_add_return (- i) v"

text \<open>\<^verbatim>\<open>cmpxchgq\<close>: stores \<open>new\<close> when the memory equals \<open>old\<close>; the old memory is returned.\<close>

definition atomic_cmpxchg :: "u64 \<Rightarrow> u64 \<Rightarrow> u64 \<Rightarrow> u64 \<times> u64" where
  "atomic_cmpxchg mem old new = (mem, if mem = old then new else mem)"

subsection \<open>Page flags\<close>

definition PG_slab :: nat where "PG_slab = 7"

definition SetPageSlab :: "u64 \<Rightarrow> u64" where
  "SetPageSlab flags = Bit_Operations.set_bit PG_slab flags"

definition ClearPageSlab :: "u64 \<Rightarrow> u64" where
  "ClearPageSlab flags = unset_bit PG_slab flags"

definition PageSlab :: "bool \<Rightarrow> u64 \<Rightarrow> u64 outcome" where
  "PageSlab lb flags = test_bit_m lb (of_nat PG_slab) [flags]"

subsection \<open>Lemmas: bits\<close>

declare bsf_from.simps [simp del]

definition bitmap_bit :: "u64 list \<Rightarrow> nat \<Rightarrow> bool" where
  "bitmap_bit m n \<longleftrightarrow> n < 64 * length m \<and> bit (m ! (n div 64)) (n mod 64)"

lemma bit_word_in: "unat nr < 64 * length m \<Longrightarrow> bit_word nr m = Done (unat nr div 64)"
  by (simp add: bit_word_def less_mult_imp_div_less mult.commute)

lemma bit_word_out: "64 * length m \<le> unat nr \<Longrightarrow> bit_word nr m = Fault"
  by (simp add: bit_word_def div_less_iff_less_mult not_less mult.commute
      less_eq_div_iff_mult_less_eq)

lemma on_bit_other:
  assumes "on_bit f nr m = Done m'" and "n \<noteq> unat nr"
    and f: "\<And>i j w. j \<noteq> i \<Longrightarrow> bit (f i w) j = bit w j"
  shows "bitmap_bit m' n = bitmap_bit m n"
proof -
  have m': "m' = m[unat nr div 64 := f (unat nr mod 64) (m ! (unat nr div 64))]"
    using assms(1) by (auto simp: on_bit_def bit_word_def split: if_splits)
  show ?thesis
  proof (cases "n div 64 = unat nr div 64")
    case True
    then have "n mod 64 \<noteq> unat nr mod 64" using assms(2) by (metis mult_div_mod_eq)
    then show ?thesis using True f by (auto simp: bitmap_bit_def m' nth_list_update)
  next
    case False
    then show ?thesis by (simp add: bitmap_bit_def m')
  qed
qed

lemma on_bit_same:
  assumes "on_bit f nr m = Done m'" and f: "\<And>i w. i < 64 \<Longrightarrow> bit (f i w) i = g (bit w i)"
  shows "bitmap_bit m' (unat nr) = g (bitmap_bit m (unat nr))"
proof -
  have i: "unat nr div 64 < length m"
    and m': "m' = m[unat nr div 64 := f (unat nr mod 64) (m ! (unat nr div 64))]"
    using assms(1) by (auto simp: on_bit_def bit_word_def split: if_splits)
  have "unat nr < 64 * length m" using i by (simp add: div_less_iff_less_mult mult.commute)
  then show ?thesis using i f by (simp add: bitmap_bit_def m')
qed

lemma set_bit_m_in:
  "unat nr < 64 * length m \<Longrightarrow> \<exists>m'. set_bit_m nr m = Done m' \<and> length m' = length m"
  by (simp add: set_bit_m_def on_bit_def bit_word_in)

lemma bitmap_bit_set:
  assumes "set_bit_m nr m = Done m'"
  shows "bitmap_bit m' n \<longleftrightarrow> n = unat nr \<or> bitmap_bit m n"
  using assms on_bit_same [of Bit_Operations.set_bit nr m m' "\<lambda>_. True"]
    on_bit_other [of Bit_Operations.set_bit nr m m' n]
  by (cases "n = unat nr") (auto simp: set_bit_m_def bit_set_bit_iff)

lemma bitmap_bit_clear:
  assumes "clear_bit nr m = Done m'"
  shows "bitmap_bit m' n \<longleftrightarrow> n \<noteq> unat nr \<and> bitmap_bit m n"
  using assms on_bit_same [of unset_bit nr m m' "\<lambda>_. False"]
    on_bit_other [of unset_bit nr m m' n]
  by (cases "n = unat nr") (auto simp: clear_bit_def bit_unset_bit_iff)

lemma test_bit_m_nonzero:
  "test_bit_m lb nr m = Done r \<Longrightarrow> lb \<and> (r \<noteq> 0 \<longleftrightarrow> bitmap_bit m (unat nr))"
  by (auto simp: test_bit_m_def bit_word_def bitmap_bit_def div_less_iff_less_mult mult.commute
      split: if_splits)

subsection \<open>Lemmas: scans\<close>

lemma bsf_from_spec:
  "i \<le> 64 \<Longrightarrow> bsf_from w i \<le> 64 \<and> i \<le> bsf_from w i \<and>
     (\<forall>j. i \<le> j \<longrightarrow> j < bsf_from w i \<longrightarrow> \<not> bit w j) \<and> (bsf_from w i < 64 \<longrightarrow> bit w (bsf_from w i))"
proof (induction w i rule: bsf_from.induct)
  case (1 w i)
  show ?case
  proof (cases "i < 64 \<and> \<not> bit w i")
    case True
    then have eq: "bsf_from w i = bsf_from w (Suc i)" by (simp add: bsf_from.simps [of w i])
    have "\<not> bit w j" if "i \<le> j" "j < bsf_from w (Suc i)" for j
      using that True "1.IH" by (cases "j = i") (auto simp: Suc_le_eq)
    then show ?thesis using True "1.IH" unfolding eq by auto
  next
    case False
    then show ?thesis using "1.prems" by (auto simp: bsf_from.simps [of w i])
  qed
qed

lemma bsr_from_spec:
  "bsr_from w i \<le> i \<and> (\<forall>j. bsr_from w i < j \<longrightarrow> j \<le> i \<longrightarrow> \<not> bit w j) \<and>
     ((\<exists>j\<le>i. bit w j) \<longrightarrow> bit w (bsr_from w i))"
  by (induction i) (auto simp: le_Suc_eq)

lemma word_nonzero_bit: "(w::u64) \<noteq> 0 \<longleftrightarrow> (\<exists>n<64. bit w n)"
  by (auto simp: bit_eq_iff)

lemma bsf_nonzero:
  assumes "w \<noteq> 0"
  shows "bsf_from w 0 < 64 \<and> bit w (bsf_from w 0) \<and> (\<forall>j<bsf_from w 0. \<not> bit w j)"
proof -
  obtain n where "n < 64" and "bit w n" using assms word_nonzero_bit by blast
  then show ?thesis using bsf_from_spec [of 0 w] by (meson linorder_not_less order_le_less_trans zero_le)
qed

lemma unat_bsfq: "w \<noteq> 0 \<Longrightarrow> unat (bsfq w) = bsf_from w 0"
  using bsf_nonzero [of w] by (simp add: bsfq_def unat_of_nat)

lemma ffz_first_zero:
  assumes "w \<noteq> - 1"
  shows "unat (ffz w) < 64 \<and> \<not> bit w (unat (ffz w)) \<and> (\<forall>j<unat (ffz w). bit w j)"
proof -
  have n: "NOT w \<noteq> 0" using assms by (metis bit.double_compl bit.compl_zero)
  have eq: "unat (ffz w) = bsf_from (NOT w) 0" using assms n by (simp add: ffz_def unat_bsfq)
  show ?thesis unfolding eq using bsf_nonzero [OF n] by (auto simp: bit_not_iff)
qed

lemma bsr_nonzero:
  assumes "w \<noteq> 0"
  shows "bsr_from w 63 < 64 \<and> bit w (bsr_from w 63) \<and> (\<forall>j. bsr_from w 63 < j \<longrightarrow> \<not> bit w j)"
proof -
  obtain n where "n < 64" and "bit w n" using assms word_nonzero_bit by blast
  then have "n \<le> 63" by simp
  have hi: "\<not> bit w j" if "bsr_from w 63 < j" for j
  proof (cases "j \<le> 63")
    case True
    then show ?thesis using that bsr_from_spec [of w 63] by blast
  next
    case False
    then show ?thesis using bit_imp_le_length [of w j] by auto
  qed
  have "bsr_from w 63 \<le> 63" and "bit w (bsr_from w 63)"
    using bsr_from_spec [of w 63] \<open>bit w n\<close> \<open>n \<le> 63\<close> by blast+
  then show ?thesis using hi by auto
qed

lemma unat_less_exp_iff: "unat (w::u64) < 2 ^ n \<longleftrightarrow> (\<forall>j\<ge>n. \<not> bit w j)"
proof -
  have "drop_bit n w = 0 \<longleftrightarrow> drop_bit n (unat w) = 0"
    by (metis unat_drop_bit_eq unsigned_eq_0_iff)
  then have "unat w < 2 ^ n \<longleftrightarrow> drop_bit n w = 0"
    by (auto simp: drop_bit_eq_div div_eq_0_iff)
  also have "\<dots> \<longleftrightarrow> (\<forall>j\<ge>n. \<not> bit w j)"
  proof
    assume "drop_bit n w = 0"
    then have "\<not> bit (drop_bit n w) m" for m by simp
    then have "\<not> bit w (n + m)" for m by (simp add: bit_drop_bit_eq)
    then show "\<forall>j\<ge>n. \<not> bit w j" by (metis le_add_diff_inverse)
  next
    assume "\<forall>j\<ge>n. \<not> bit w j"
    then show "drop_bit n w = 0" by (intro bit_eqI) (simp add: bit_drop_bit_eq)
  qed
  finally show ?thesis .
qed

text \<open>\<open>fls64 x\<close> is the number of bits \<open>x\<close> needs: the least order whose power exceeds \<open>x\<close>.\<close>

lemma unat_fls64: "x \<noteq> 0 \<Longrightarrow> unat (fls64 x) = Suc (bsr_from x 63)"
proof -
  assume x: "x \<noteq> 0"
  have "fls64 x = of_nat (Suc (bsr_from x 63))"
    using x by (simp add: fls64_def fls_word_def bsrq_def)
  then show ?thesis using bsr_nonzero [OF x] by (simp only: unat_of_nat) simp
qed

lemma fls64_bounds:
  "unat x < 2 ^ unat (fls64 x)"
  "x \<noteq> 0 \<Longrightarrow> 2 ^ (unat (fls64 x) - 1) \<le> unat x"
proof -
  show "unat x < 2 ^ unat (fls64 x)"
  proof (cases "x = 0")
    case True
    then show ?thesis by (simp add: fls64_def)
  next
    case False
    then have "unat x < 2 ^ Suc (bsr_from x 63)"
      using bsr_nonzero [OF False] by (simp add: unat_less_exp_iff Suc_le_eq del: power_Suc)
    then show ?thesis using unat_fls64 [OF False] by (simp del: power_Suc)
  qed
  assume x: "x \<noteq> 0"
  show "2 ^ (unat (fls64 x) - 1) \<le> unat x"
  proof (rule ccontr)
    assume "\<not> ?thesis"
    then have "unat x < 2 ^ bsr_from x 63" using x by (simp add: unat_fls64)
    then show False using bsr_nonzero [OF x] by (simp add: unat_less_exp_iff)
  qed
qed

subsection \<open>Lemmas: atomic counters\<close>

text \<open>
  Every locked operation is one step, so an interleaving of additions from several
  processors is a permutation of them, and the counter ends at the same value.
\<close>

lemma atomic_add_fold: "counter (fold atomic_add is v) = counter v + sum_list is"
  by (induction "is" arbitrary: v) (simp_all add: atomic_add_def algebra_simps)

end
