(* ===== verification/Page_Flags.thy ===== *)
theory Page_Flags
  imports Bitops
begin

text \<open>
  The flags of a page descriptor (\<^verbatim>\<open>include/page-flags.h\<close>): the numbers of the flags and the macros
  that test, set and clear them on the word \<^verbatim>\<open>page->flags\<close>. The kernel uses the slab flag, which is in
  the theory of the bit operations; the macros are the same three operations at other positions.
  The macros that test and change at once are not modelled: their assembly does not assemble.
\<close>

named_theorems page_flag_numbers \<open>the numbers of the page flags\<close>
named_theorems page_flag_macros \<open>the page-flag macros as operations on bits\<close>

subsection \<open>The numbers\<close>

definition PG_locked :: nat where [page_flag_numbers]: "PG_locked = 0"
definition PG_error :: nat where [page_flag_numbers]: "PG_error = 1"
definition PG_referenced :: nat where [page_flag_numbers]: "PG_referenced = 2"
definition PG_uptodate :: nat where [page_flag_numbers]: "PG_uptodate = 3"
definition PG_dirty :: nat where [page_flag_numbers]: "PG_dirty = 4"
definition PG_lru :: nat where [page_flag_numbers]: "PG_lru = 5"
definition PG_active :: nat where [page_flag_numbers]: "PG_active = 6"
definition PG_owner_priv_1 :: nat where [page_flag_numbers]: "PG_owner_priv_1 = 8"
definition PG_arch_1 :: nat where [page_flag_numbers]: "PG_arch_1 = 9"
definition PG_reserved :: nat where [page_flag_numbers]: "PG_reserved = 10"
definition PG_private :: nat where [page_flag_numbers]: "PG_private = 11"
definition PG_writeback :: nat where [page_flag_numbers]: "PG_writeback = 12"
definition PG_compound :: nat where [page_flag_numbers]: "PG_compound = 14"
definition PG_swapcache :: nat where [page_flag_numbers]: "PG_swapcache = 15"
definition PG_mappedtodisk :: nat where [page_flag_numbers]: "PG_mappedtodisk = 16"
definition PG_reclaim :: nat where [page_flag_numbers]: "PG_reclaim = 17"
definition PG_buddy :: nat where [page_flag_numbers]: "PG_buddy = 19"
definition PG_readahead :: nat where [page_flag_numbers]: "PG_readahead = PG_reclaim"
definition PG_checked :: nat where [page_flag_numbers]: "PG_checked = PG_owner_priv_1"
definition PG_pinned :: nat where [page_flag_numbers]: "PG_pinned = PG_owner_priv_1"
definition PG_uncached :: nat where [page_flag_numbers]: "PG_uncached = 31"

lemmas PG_slab_number [page_flag_numbers] = PG_slab_def

subsection \<open>The macros\<close>

definition PageLocked :: "bool \<Rightarrow> u64 \<Rightarrow> u64 outcome" where [page_flag_macros]: "PageLocked lb flags = test_bit_m lb (of_nat PG_locked) [flags]"
definition SetPageLocked :: "u64 \<Rightarrow> u64" where [page_flag_macros]: "SetPageLocked flags = Bit_Operations.set_bit PG_locked flags"
definition ClearPageLocked :: "u64 \<Rightarrow> u64" where [page_flag_macros]: "ClearPageLocked flags = unset_bit PG_locked flags"
definition PageError :: "bool \<Rightarrow> u64 \<Rightarrow> u64 outcome" where [page_flag_macros]: "PageError lb flags = test_bit_m lb (of_nat PG_error) [flags]"
definition SetPageError :: "u64 \<Rightarrow> u64" where [page_flag_macros]: "SetPageError flags = Bit_Operations.set_bit PG_error flags"
definition ClearPageError :: "u64 \<Rightarrow> u64" where [page_flag_macros]: "ClearPageError flags = unset_bit PG_error flags"
definition PageReferenced :: "bool \<Rightarrow> u64 \<Rightarrow> u64 outcome" where [page_flag_macros]: "PageReferenced lb flags = test_bit_m lb (of_nat PG_referenced) [flags]"
definition SetPageReferenced :: "u64 \<Rightarrow> u64" where [page_flag_macros]: "SetPageReferenced flags = Bit_Operations.set_bit PG_referenced flags"
definition ClearPageReferenced :: "u64 \<Rightarrow> u64" where [page_flag_macros]: "ClearPageReferenced flags = unset_bit PG_referenced flags"
definition PageUptodate :: "bool \<Rightarrow> u64 \<Rightarrow> u64 outcome" where [page_flag_macros]: "PageUptodate lb flags = test_bit_m lb (of_nat PG_uptodate) [flags]"
definition SetPageUptodate :: "u64 \<Rightarrow> u64" where [page_flag_macros]: "SetPageUptodate flags = Bit_Operations.set_bit PG_uptodate flags"
definition ClearPageUptodate :: "u64 \<Rightarrow> u64" where [page_flag_macros]: "ClearPageUptodate flags = unset_bit PG_uptodate flags"
definition PageDirty :: "bool \<Rightarrow> u64 \<Rightarrow> u64 outcome" where [page_flag_macros]: "PageDirty lb flags = test_bit_m lb (of_nat PG_dirty) [flags]"
definition SetPageDirty :: "u64 \<Rightarrow> u64" where [page_flag_macros]: "SetPageDirty flags = Bit_Operations.set_bit PG_dirty flags"
definition ClearPageDirty :: "u64 \<Rightarrow> u64" where [page_flag_macros]: "ClearPageDirty flags = unset_bit PG_dirty flags"
definition PageLRU :: "bool \<Rightarrow> u64 \<Rightarrow> u64 outcome" where [page_flag_macros]: "PageLRU lb flags = test_bit_m lb (of_nat PG_lru) [flags]"
definition SetPageLRU :: "u64 \<Rightarrow> u64" where [page_flag_macros]: "SetPageLRU flags = Bit_Operations.set_bit PG_lru flags"
definition ClearPageLRU :: "u64 \<Rightarrow> u64" where [page_flag_macros]: "ClearPageLRU flags = unset_bit PG_lru flags"
definition PageActive :: "bool \<Rightarrow> u64 \<Rightarrow> u64 outcome" where [page_flag_macros]: "PageActive lb flags = test_bit_m lb (of_nat PG_active) [flags]"
definition SetPageActive :: "u64 \<Rightarrow> u64" where [page_flag_macros]: "SetPageActive flags = Bit_Operations.set_bit PG_active flags"
definition ClearPageActive :: "u64 \<Rightarrow> u64" where [page_flag_macros]: "ClearPageActive flags = unset_bit PG_active flags"
definition PageChecked :: "bool \<Rightarrow> u64 \<Rightarrow> u64 outcome" where [page_flag_macros]: "PageChecked lb flags = test_bit_m lb (of_nat PG_checked) [flags]"
definition SetPageChecked :: "u64 \<Rightarrow> u64" where [page_flag_macros]: "SetPageChecked flags = Bit_Operations.set_bit PG_checked flags"
definition ClearPageChecked :: "u64 \<Rightarrow> u64" where [page_flag_macros]: "ClearPageChecked flags = unset_bit PG_checked flags"
definition PagePinned :: "bool \<Rightarrow> u64 \<Rightarrow> u64 outcome" where [page_flag_macros]: "PagePinned lb flags = test_bit_m lb (of_nat PG_pinned) [flags]"
definition SetPagePinned :: "u64 \<Rightarrow> u64" where [page_flag_macros]: "SetPagePinned flags = Bit_Operations.set_bit PG_pinned flags"
definition ClearPagePinned :: "u64 \<Rightarrow> u64" where [page_flag_macros]: "ClearPagePinned flags = unset_bit PG_pinned flags"
definition PageReserved :: "bool \<Rightarrow> u64 \<Rightarrow> u64 outcome" where [page_flag_macros]: "PageReserved lb flags = test_bit_m lb (of_nat PG_reserved) [flags]"
definition SetPageReserved :: "u64 \<Rightarrow> u64" where [page_flag_macros]: "SetPageReserved flags = Bit_Operations.set_bit PG_reserved flags"
definition ClearPageReserved :: "u64 \<Rightarrow> u64" where [page_flag_macros]: "ClearPageReserved flags = unset_bit PG_reserved flags"
definition SetPagePrivate :: "u64 \<Rightarrow> u64" where [page_flag_macros]: "SetPagePrivate flags = Bit_Operations.set_bit PG_private flags"
definition ClearPagePrivate :: "u64 \<Rightarrow> u64" where [page_flag_macros]: "ClearPagePrivate flags = unset_bit PG_private flags"
definition PagePrivate :: "bool \<Rightarrow> u64 \<Rightarrow> u64 outcome" where [page_flag_macros]: "PagePrivate lb flags = test_bit_m lb (of_nat PG_private) [flags]"
definition PageWriteback :: "bool \<Rightarrow> u64 \<Rightarrow> u64 outcome" where [page_flag_macros]: "PageWriteback lb flags = test_bit_m lb (of_nat PG_writeback) [flags]"
definition PageBuddy :: "bool \<Rightarrow> u64 \<Rightarrow> u64 outcome" where [page_flag_macros]: "PageBuddy lb flags = test_bit_m lb (of_nat PG_buddy) [flags]"
definition SetPageBuddy :: "u64 \<Rightarrow> u64" where [page_flag_macros]: "SetPageBuddy flags = Bit_Operations.set_bit PG_buddy flags"
definition ClearPageBuddy :: "u64 \<Rightarrow> u64" where [page_flag_macros]: "ClearPageBuddy flags = unset_bit PG_buddy flags"
definition PageMappedToDisk :: "bool \<Rightarrow> u64 \<Rightarrow> u64 outcome" where [page_flag_macros]: "PageMappedToDisk lb flags = test_bit_m lb (of_nat PG_mappedtodisk) [flags]"
definition SetPageMappedToDisk :: "u64 \<Rightarrow> u64" where [page_flag_macros]: "SetPageMappedToDisk flags = Bit_Operations.set_bit PG_mappedtodisk flags"
definition ClearPageMappedToDisk :: "u64 \<Rightarrow> u64" where [page_flag_macros]: "ClearPageMappedToDisk flags = unset_bit PG_mappedtodisk flags"
definition PageReadahead :: "bool \<Rightarrow> u64 \<Rightarrow> u64 outcome" where [page_flag_macros]: "PageReadahead lb flags = test_bit_m lb (of_nat PG_readahead) [flags]"
definition SetPageReadahead :: "u64 \<Rightarrow> u64" where [page_flag_macros]: "SetPageReadahead flags = Bit_Operations.set_bit PG_readahead flags"
definition ClearPageReadahead :: "u64 \<Rightarrow> u64" where [page_flag_macros]: "ClearPageReadahead flags = unset_bit PG_readahead flags"
definition PageReclaim :: "bool \<Rightarrow> u64 \<Rightarrow> u64 outcome" where [page_flag_macros]: "PageReclaim lb flags = test_bit_m lb (of_nat PG_reclaim) [flags]"
definition SetPageReclaim :: "u64 \<Rightarrow> u64" where [page_flag_macros]: "SetPageReclaim flags = Bit_Operations.set_bit PG_reclaim flags"
definition ClearPageReclaim :: "u64 \<Rightarrow> u64" where [page_flag_macros]: "ClearPageReclaim flags = unset_bit PG_reclaim flags"
definition PageCompound :: "bool \<Rightarrow> u64 \<Rightarrow> u64 outcome" where [page_flag_macros]: "PageCompound lb flags = test_bit_m lb (of_nat PG_compound) [flags]"
definition SetPageCompound :: "u64 \<Rightarrow> u64" where [page_flag_macros]: "SetPageCompound flags = Bit_Operations.set_bit PG_compound flags"
definition ClearPageCompound :: "u64 \<Rightarrow> u64" where [page_flag_macros]: "ClearPageCompound flags = unset_bit PG_compound flags"

text \<open>\<^verbatim>\<open>CONFIG_HIGHMEM\<close> is not configured.\<close>

definition PageHighMem :: "u64 \<Rightarrow> u64" where
  "PageHighMem flags = 0"

lemmas slab_macros [page_flag_macros] = SetPageSlab_def ClearPageSlab_def PageSlab_def

subsection \<open>What the macros do to each other\<close>

text \<open>Number, set, clear and test of every flag that has all three macros.\<close>

definition page_flags :: "(nat \<times> (u64 \<Rightarrow> u64) \<times> (u64 \<Rightarrow> u64) \<times> (bool \<Rightarrow> u64 \<Rightarrow> u64 outcome)) list" where
  "page_flags =
     [(PG_locked, SetPageLocked, ClearPageLocked, PageLocked),
      (PG_error, SetPageError, ClearPageError, PageError),
      (PG_referenced, SetPageReferenced, ClearPageReferenced, PageReferenced),
      (PG_uptodate, SetPageUptodate, ClearPageUptodate, PageUptodate),
      (PG_dirty, SetPageDirty, ClearPageDirty, PageDirty),
      (PG_lru, SetPageLRU, ClearPageLRU, PageLRU),
      (PG_active, SetPageActive, ClearPageActive, PageActive),
      (PG_slab, SetPageSlab, ClearPageSlab, PageSlab),
      (PG_checked, SetPageChecked, ClearPageChecked, PageChecked),
      (PG_pinned, SetPagePinned, ClearPagePinned, PagePinned),
      (PG_reserved, SetPageReserved, ClearPageReserved, PageReserved),
      (PG_private, SetPagePrivate, ClearPagePrivate, PagePrivate),
      (PG_buddy, SetPageBuddy, ClearPageBuddy, PageBuddy),
      (PG_mappedtodisk, SetPageMappedToDisk, ClearPageMappedToDisk, PageMappedToDisk),
      (PG_readahead, SetPageReadahead, ClearPageReadahead, PageReadahead),
      (PG_reclaim, SetPageReclaim, ClearPageReclaim, PageReclaim),
      (PG_compound, SetPageCompound, ClearPageCompound, PageCompound)]"

lemma flag_numbers: "map fst page_flags = [PG_locked, PG_error, PG_referenced, PG_uptodate, PG_dirty, PG_lru, PG_active, PG_slab, PG_checked, PG_pinned, PG_reserved, PG_private, PG_buddy, PG_mappedtodisk, PG_readahead, PG_reclaim, PG_compound]"
  by (simp add: page_flags_def)

lemma flag_below_64: "n \<in> fst ` set page_flags \<Longrightarrow> n < 64"
  unfolding set_map [symmetric] flag_numbers by (auto simp: page_flag_numbers)

lemma flag_row:
  assumes "(n, st, cl, ts) \<in> set page_flags"
  shows "st = Bit_Operations.set_bit n" "cl = unset_bit n" "ts = (\<lambda>lb w. test_bit_m lb (of_nat n) [w])" "n < 64"
proof -
  have "list_all (\<lambda>(n, st, cl, ts). st = Bit_Operations.set_bit n \<and> cl = unset_bit n \<and>
      ts = (\<lambda>lb w. test_bit_m lb (of_nat n) [w])) page_flags"
    by (simp add: page_flags_def page_flag_macros fun_eq_iff)
  then show "st = Bit_Operations.set_bit n" "cl = unset_bit n" "ts = (\<lambda>lb w. test_bit_m lb (of_nat n) [w])"
    using assms by (auto simp: list_all_iff)
  show "n < 64" using assms by (intro flag_below_64) force
qed

text \<open>One word as the bit string of \<^verbatim>\<open>bitops.h\<close>.\<close>

lemma one_word:
  assumes "n < 64"
  shows "set_bit_m (of_nat n) [w] = Done [Bit_Operations.set_bit n w]" "clear_bit (of_nat n) [w] = Done [unset_bit n w]"
    "test_bit_m lb (of_nat n) [w] = (if lb then Done (if bit w n then - 1 else 0) else Fault)"
proof -
  have "unat (of_nat n :: u64) = n" using assms by (simp add: unat_of_nat take_bit_nat_eq_self)
  then show "set_bit_m (of_nat n) [w] = Done [Bit_Operations.set_bit n w]" "clear_bit (of_nat n) [w] = Done [unset_bit n w]"
    "test_bit_m lb (of_nat n) [w] = (if lb then Done (if bit w n then - 1 else 0) else Fault)"
    using assms by (simp_all add: set_bit_m_def clear_bit_def test_bit_m_def on_bit_def bit_word_def)
qed

text \<open>
  Supplement (\<^verbatim>\<open>page-flags.h\<close>). The macros are the bit operations of \<^verbatim>\<open>bitops.h\<close> on the word of flags:
  setting and clearing a flag never leaves the word. The test of a flag traps on a processor that
  refuses \<^verbatim>\<open>bt\<close> with a lock prefix; on one that executes it, setting and clearing make the test
  of the flag true and false, and change the test of another flag only if it has the same number.
\<close>

theorem page_flag_operations:
  assumes "(n, st, cl, ts) \<in> set page_flags" "(n', st', cl', ts') \<in> set page_flags"
  shows "set_bit_m (of_nat n) [w] = Done [st w] \<and> clear_bit (of_nat n) [w] = Done [cl w] \<and>
    ts False w = Fault \<and> ts True w = Done (if bit w n then - 1 else 0) \<and>
    ts' True (st w) = (if n' = n then Done (- 1) else ts' True w) \<and>
    ts' True (cl w) = (if n' = n then Done 0 else ts' True w)"
  using flag_row [OF assms(1)] flag_row [OF assms(2)] by (auto simp: one_word bit_set_bit_iff bit_unset_bit_iff)

text \<open>
  Supplement (shared numbers). Two different flags with all three macros have the same number only
  for the two aliases: checked and pinned, and read-ahead and reclaim.
\<close>

theorem page_flag_aliases:
  "[(i, j). i \<leftarrow> [0..<length page_flags], j \<leftarrow> [Suc i..<length page_flags],
      fst (page_flags ! i) = fst (page_flags ! j)] = [(8, 9), (14, 15)]"
  by code_simp

end
