(* ===== verification/List_Head.thy ===== *)
theory List_Head
  imports Caos_Prelude
begin

text \<open>
  The circular doubly linked lists of \<^verbatim>\<open>include/list.h\<close> at the level of pointers. The
  heap maps the address of every \<^verbatim>\<open>struct list_head\<close> to its two fields; each inline
  function of the header is a function on that heap.
\<close>

record list_head =
  lh_next :: u64
  lh_prev :: u64

type_synonym lheap = "u64 \<Rightarrow> list_head"

definition LIST_POISON1 :: u64 where "LIST_POISON1 = 0x00100100"
definition LIST_POISON2 :: u64 where "LIST_POISON2 = 0x00200200"

definition set_next :: "u64 \<Rightarrow> u64 \<Rightarrow> lheap \<Rightarrow> lheap" where
  "set_next p v h = h(p := (h p)\<lparr>lh_next := v\<rparr>)"

definition set_prev :: "u64 \<Rightarrow> u64 \<Rightarrow> lheap \<Rightarrow> lheap" where
  "set_prev p v h = h(p := (h p)\<lparr>lh_prev := v\<rparr>)"

definition INIT_LIST_HEAD :: "u64 \<Rightarrow> lheap \<Rightarrow> lheap" where
  "INIT_LIST_HEAD l h = set_prev l l (set_next l l h)"

text \<open>\<^verbatim>\<open>__list_add(new, prev, next)\<close>, its four stores in order.\<close>

definition list_add_raw :: "u64 \<Rightarrow> u64 \<Rightarrow> u64 \<Rightarrow> lheap \<Rightarrow> lheap" where
  "list_add_raw new prev next h =
     set_next prev new (set_prev new prev (set_next new next (set_prev next new h)))"

definition list_add :: "u64 \<Rightarrow> u64 \<Rightarrow> lheap \<Rightarrow> lheap" where
  "list_add new head h = list_add_raw new head (lh_next (h head)) h"

definition list_add_tail :: "u64 \<Rightarrow> u64 \<Rightarrow> lheap \<Rightarrow> lheap" where
  "list_add_tail new head h = list_add_raw new (lh_prev (h head)) head h"

text \<open>\<^verbatim>\<open>__list_del(prev, next)\<close>.\<close>

definition list_del_raw :: "u64 \<Rightarrow> u64 \<Rightarrow> lheap \<Rightarrow> lheap" where
  "list_del_raw prev next h = set_next prev next (set_prev next prev h)"

definition list_del :: "u64 \<Rightarrow> lheap \<Rightarrow> lheap" where
  "list_del entry h =
     set_prev entry LIST_POISON2
       (set_next entry LIST_POISON1
         (list_del_raw (lh_prev (h entry)) (lh_next (h entry)) h))"

definition list_empty :: "u64 \<Rightarrow> lheap \<Rightarrow> bool" where
  "list_empty head h \<longleftrightarrow> lh_next (h head) = head"

text \<open>
  \<^verbatim>\<open>list_for_each_entry(pos, head, member)\<close>, in the uses where \<^verbatim>\<open>member\<close> is the first
  field, so that \<^verbatim>\<open>list_entry\<close> is the identity on addresses. The body gets the entry and
  the loop's state and says whether it executes \<^verbatim>\<open>break\<close>; the loop yields the state and
  the value of \<^verbatim>\<open>pos\<close> after it. \<open>None\<close> is a loop that never meets \<open>head\<close> again.
\<close>

partial_function (option) list_loop ::
  "(u64 \<Rightarrow> 'a \<Rightarrow> ('a \<times> bool) outcome) \<Rightarrow> lheap \<Rightarrow> u64 \<Rightarrow> u64 \<Rightarrow> 'a \<Rightarrow> ('a \<times> u64) outcome option"
where
  "list_loop body h head pos acc =
     (if pos = head then Some (Done (acc, pos))
      else case body pos acc of
             Halt \<Rightarrow> Some Halt
           | Fault \<Rightarrow> Some Fault
           | Done (acc', brk) \<Rightarrow>
               if brk then Some (Done (acc', pos))
               else list_loop body h head (lh_next (h pos)) acc')"

definition list_for_each_entry ::
  "(u64 \<Rightarrow> 'a \<Rightarrow> ('a \<times> bool) outcome) \<Rightarrow> lheap \<Rightarrow> u64 \<Rightarrow> 'a \<Rightarrow> ('a \<times> u64) outcome" where
  "list_for_each_entry body h head acc = spin (list_loop body h head (lh_next (h head)) acc)"

subsection \<open>The abstraction: a circular list holds a sequence of entries\<close>

text \<open>
  \<open>links h p xs q\<close>: following the next fields from \<open>p\<close> one meets the entries \<open>xs\<close>
  and then \<open>q\<close>, and every prev field points back.
\<close>

primrec links :: "lheap \<Rightarrow> u64 \<Rightarrow> u64 list \<Rightarrow> u64 \<Rightarrow> bool" where
  "links h p [] q \<longleftrightarrow> lh_next (h p) = q \<and> lh_prev (h q) = p"
| "links h p (x # xs) q \<longleftrightarrow> lh_next (h p) = x \<and> lh_prev (h x) = p \<and> links h x xs q"

definition dlist :: "lheap \<Rightarrow> u64 \<Rightarrow> u64 list \<Rightarrow> bool" where
  "dlist h head xs \<longleftrightarrow> distinct (head # xs) \<and> links h head xs head"

text \<open>The loop over the entries of a sequence, which the pointer loop is shown to run.\<close>

primrec entry_loop ::
  "(u64 \<Rightarrow> 'a \<Rightarrow> ('a \<times> bool) outcome) \<Rightarrow> u64 list \<Rightarrow> u64 \<Rightarrow> 'a \<Rightarrow> ('a \<times> u64) outcome"
where
  "entry_loop body [] head acc = Done (acc, head)"
| "entry_loop body (x # xs) head acc =
     (case body x acc of
        Halt \<Rightarrow> Halt
      | Fault \<Rightarrow> Fault
      | Done (acc', brk) \<Rightarrow> if brk then Done (acc', x) else entry_loop body xs head acc')"

subsection \<open>Field accesses after the stores\<close>

named_theorems lh_defs \<open>the list operations as stores\<close>

lemmas lh_unfold [lh_defs] =
  INIT_LIST_HEAD_def list_add_raw_def list_add_def list_add_tail_def list_del_raw_def
  list_del_def set_next_def set_prev_def

lemma links_frame:
  assumes "\<And>a. a \<in> set (p # xs) \<Longrightarrow> lh_next (h' a) = lh_next (h a)"
    and "\<And>a. a \<in> set (q # xs) \<Longrightarrow> lh_prev (h' a) = lh_prev (h a)"
  shows "links h' p xs q = links h p xs q"
  using assms by (induction xs arbitrary: p) auto

lemma links_append: "links h p (xs @ x # ys) q \<longleftrightarrow> links h p xs x \<and> links h x ys q"
  by (induction xs arbitrary: p) auto

lemma links_next: "links h p xs q \<Longrightarrow> lh_next (h p) = hd (xs @ [q])"
  by (cases xs) auto

lemma links_prev: "links h p xs q \<Longrightarrow> lh_prev (h q) = last (p # xs)"
  by (induction xs arbitrary: p) auto

lemma dlist_frame:
  assumes "\<And>a. a \<in> set (head # xs) \<Longrightarrow> h' a = h a"
  shows "dlist h' head xs = dlist h head xs"
  using assms links_frame [of head xs h' h head] by (simp add: dlist_def)

subsection \<open>What each operation does to the sequence\<close>

lemma dlist_init: "dlist (INIT_LIST_HEAD head h) head []"
  by (simp add: dlist_def lh_defs)

lemma dlist_empty_iff: "dlist h head xs \<Longrightarrow> list_empty head h \<longleftrightarrow> xs = []"
  by (cases xs) (auto simp: dlist_def list_empty_def)

lemma dlist_insert:
  assumes d: "dlist h head (xs @ ys)" and new: "new \<notin> set (head # xs @ ys)"
  shows "dlist (list_add_raw new (last (head # xs)) (hd (ys @ [head])) h) head (xs @ new # ys)"
proof -
  let ?p = "last (head # xs)" and ?n = "hd (ys @ [head])"
  let ?h = "list_add_raw new ?p ?n h"
  have dist: "distinct (head # xs @ ys)" and l: "links h head (xs @ ys) head"
    using d by (auto simp: dlist_def)
  have p: "?p \<in> set (head # xs)" by (rule last_in_set) simp
  have left: "links ?h head xs new"
  proof (cases xs rule: rev_cases)
    case Nil
    then show ?thesis using new by (auto simp: lh_defs)
  next
    case (snoc zs z)
    then have "links h head zs z" using l by (simp add: links_append)
    moreover have "links ?h head zs z = links h head zs z"
      by (rule links_frame) (use snoc dist new in \<open>cases ys; auto simp: lh_defs\<close>)+
    ultimately show ?thesis using snoc new by (cases ys) (auto simp: links_append lh_defs)
  qed
  have right: "links ?h new ys head"
  proof (cases ys)
    case Nil
    moreover have "?p \<noteq> new" using new last_in_set [of xs] by auto
    ultimately show ?thesis using new by (auto simp: lh_defs)
  next
    case (Cons z zs)
    then have "links h z zs head" using l by (simp add: links_append)
    moreover have "links ?h z zs head = links h z zs head"
      by (rule links_frame) (use Cons dist new p in \<open>auto simp: lh_defs\<close>)
    ultimately show ?thesis using Cons new dist by (auto simp: lh_defs)
  qed
  show ?thesis using left right dist new by (auto simp: dlist_def links_append)
qed

lemma dlist_next: "dlist h head xs \<Longrightarrow> lh_next (h head) = hd (xs @ [head])"
  by (simp add: dlist_def links_next)

lemma dlist_prev: "dlist h head xs \<Longrightarrow> lh_prev (h head) = last (head # xs)"
  unfolding dlist_def using links_prev by blast

lemma dlist_add:
  "dlist h head xs \<Longrightarrow> new \<notin> set (head # xs) \<Longrightarrow> dlist (list_add new head h) head (new # xs)"
  using dlist_insert [of h head "[]" xs new] by (simp add: list_add_def dlist_next)

lemma dlist_add_tail:
  "dlist h head xs \<Longrightarrow> new \<notin> set (head # xs) \<Longrightarrow> dlist (list_add_tail new head h) head (xs @ [new])"
  using dlist_insert [of h head xs "[]" new] by (simp add: list_add_tail_def dlist_prev)

lemma dlist_del:
  assumes d: "dlist h head (xs @ x # ys)"
  shows "dlist (list_del x h) head (xs @ ys)"
proof -
  let ?h = "list_del x h"
  have dist: "distinct (head # xs @ x # ys)"
    and left: "links h head xs x" and right: "links h x ys head"
    using d by (auto simp: dlist_def links_append)
  have prev: "lh_prev (h x) = last (head # xs)" and succ: "lh_next (h x) = hd (ys @ [head])"
    using left right by (auto simp: links_prev links_next)
  show ?thesis
  proof (cases xs rule: rev_cases)
    case Nil
    have "links ?h head ys head"
    proof (cases ys)
      case Nil
      then show ?thesis using \<open>xs = []\<close> dist prev succ by (simp add: lh_defs)
    next
      case (Cons z zs)
      have "links ?h z zs head = links h z zs head"
        by (rule links_frame) (use \<open>xs = []\<close> Cons dist prev succ in \<open>auto simp: lh_defs\<close>)
      then show ?thesis using \<open>xs = []\<close> Cons dist prev succ right by (auto simp: lh_defs)
    qed
    then show ?thesis using Nil dist by (simp add: dlist_def)
  next
    case (snoc zs z)
    have l: "links ?h head zs z = links h head zs z"
      by (rule links_frame) (use snoc dist prev succ in \<open>cases ys; auto simp: lh_defs\<close>)+
    have "links ?h z ys head"
    proof (cases ys)
      case Nil
      then show ?thesis using snoc dist prev succ by (auto simp: lh_defs)
    next
      case (Cons w ws)
      have "links ?h w ws head = links h w ws head"
        by (rule links_frame) (use snoc Cons dist prev succ in \<open>auto simp: lh_defs\<close>)
      then show ?thesis using snoc Cons dist prev succ right by (auto simp: lh_defs)
    qed
    then show ?thesis using snoc l left dist by (simp add: dlist_def links_append)
  qed
qed

subsection \<open>Frames: lists elsewhere are unchanged\<close>

lemma list_add_raw_other:
  "a \<notin> {new, prev, next} \<Longrightarrow> list_add_raw new prev next h a = h a"
  by (simp add: lh_defs)

lemma list_add_other:
  "dlist h head xs \<Longrightarrow> a \<notin> set (new # head # xs) \<Longrightarrow> list_add new head h a = h a"
  unfolding list_add_def by (rule list_add_raw_other) (cases xs; auto simp: dlist_next)

lemma list_add_tail_other:
  "dlist h head xs \<Longrightarrow> a \<notin> set (new # head # xs) \<Longrightarrow> list_add_tail new head h a = h a"
  unfolding list_add_tail_def
  by (rule list_add_raw_other) (use last_in_set [of xs] in \<open>auto simp: dlist_prev\<close>)

lemma list_del_other:
  assumes "dlist h head (xs @ x # ys)" and "a \<notin> set (head # xs @ x # ys)"
  shows "list_del x h a = h a"
proof -
  have "lh_prev (h x) = last (head # xs)" and "lh_next (h x) = hd (ys @ [head])"
    using assms by (auto simp: dlist_def links_append links_prev links_next)
  then show ?thesis using assms last_in_set [of xs] by (cases ys) (auto simp: lh_defs)
qed

subsection \<open>The traversal\<close>

lemma list_loop_links:
  "links h p xs head \<Longrightarrow> head \<notin> set xs \<Longrightarrow>
     list_loop body h head (lh_next (h p)) acc = Some (entry_loop body xs head acc)"
proof (induction xs arbitrary: p acc)
  case Nil
  then show ?case by (subst list_loop.simps) simp
next
  case (Cons x xs)
  then show ?case
    by (subst list_loop.simps) (auto split: outcome.splits)
qed

lemma list_for_each_entry_dlist:
  "dlist h head xs \<Longrightarrow> list_for_each_entry body h head acc = entry_loop body xs head acc"
  using list_loop_links [of h head xs head body acc]
  by (simp add: list_for_each_entry_def dlist_def)

subsection \<open>The interface its users rely on\<close>

text \<open>
  The users of \<^verbatim>\<open>list.h\<close> (the page lists of \<^verbatim>\<open>memory.c\<close>, the slab lists of
  \<^verbatim>\<open>slab.c\<close>) need only that a head holds a sequence of entries, what each operation does
  to it, and that a list whose nodes are elsewhere is not disturbed.
\<close>

locale entry_list =
  fixes init :: "'p \<Rightarrow> 'h \<Rightarrow> 'h"
    and add :: "'p \<Rightarrow> 'p \<Rightarrow> 'h \<Rightarrow> 'h"
    and add_tail :: "'p \<Rightarrow> 'p \<Rightarrow> 'h \<Rightarrow> 'h"
    and del :: "'p \<Rightarrow> 'h \<Rightarrow> 'h"
    and is_empty :: "'p \<Rightarrow> 'h \<Rightarrow> bool"
    and holds :: "'h \<Rightarrow> 'p \<Rightarrow> 'p list \<Rightarrow> bool"
  assumes holds_init: "holds (init hp h) hp []"
    and holds_distinct: "holds h hp xs \<Longrightarrow> distinct (hp # xs)"
    and holds_is_empty: "holds h hp xs \<Longrightarrow> is_empty hp h \<longleftrightarrow> xs = []"
    and holds_add: "holds h hp xs \<Longrightarrow> x \<notin> set (hp # xs) \<Longrightarrow> holds (add x hp h) hp (x # xs)"
    and holds_add_tail:
      "holds h hp xs \<Longrightarrow> x \<notin> set (hp # xs) \<Longrightarrow> holds (add_tail x hp h) hp (xs @ [x])"
    and holds_del: "holds h hp (xs @ x # ys) \<Longrightarrow> holds (del x h) hp (xs @ ys)"
    and frame_init: "holds h hp' ys \<Longrightarrow> hp \<notin> set (hp' # ys) \<Longrightarrow> holds (init hp h) hp' ys"
    and frame_add:
      "holds h hp xs \<Longrightarrow> holds h hp' ys \<Longrightarrow> set (x # hp # xs) \<inter> set (hp' # ys) = {} \<Longrightarrow>
       holds (add x hp h) hp' ys"
    and frame_del:
      "holds h hp (xs @ x # zs) \<Longrightarrow> holds h hp' ys \<Longrightarrow>
       set (hp # xs @ x # zs) \<inter> set (hp' # ys) = {} \<Longrightarrow> holds (del x h) hp' ys"
begin

lemma fifo_from:
  "holds h hp xs \<Longrightarrow> distinct (hp # xs @ ys) \<Longrightarrow>
     holds (fold (\<lambda>x. add_tail x hp) ys h) hp (xs @ ys)"
proof (induction ys arbitrary: h xs)
  case Nil
  then show ?case by simp
next
  case (Cons y ys)
  then have "holds (add_tail y hp h) hp (xs @ [y])"
    by (intro holds_add_tail) auto
  then have "holds (fold (\<lambda>x. add_tail x hp) ys (add_tail y hp h)) hp ((xs @ [y]) @ ys)"
    using Cons.prems by (intro Cons.IH) auto
  then show ?case by simp
qed

lemma fifo: "distinct (hp # xs) \<Longrightarrow> holds (fold (\<lambda>x. add_tail x hp) xs (init hp h)) hp xs"
  using fifo_from [OF holds_init, of hp xs h] by simp

lemma lifo: "distinct (hp # xs) \<Longrightarrow> holds (fold (\<lambda>x. add x hp) xs (init hp h)) hp (rev xs)"
proof (induction xs rule: rev_induct)
  case Nil
  then show ?case by (simp add: holds_init)
next
  case (snoc x xs)
  then show ?case by (auto intro!: holds_add)
qed

lemma add_del: "holds h hp xs \<Longrightarrow> x \<notin> set (hp # xs) \<Longrightarrow> holds (del x (add x hp h)) hp xs"
  using holds_del [of "add x hp h" hp "[]" x xs] holds_add by simp

lemma del_remove1:
  assumes "holds h hp xs" and "x \<in> set xs"
  shows "holds (del x h) hp (remove1 x xs)"
proof -
  obtain ys zs where "xs = ys @ x # zs" using assms(2) by (auto dest: split_list)
  moreover have "distinct xs" using holds_distinct [OF assms(1)] by simp
  ultimately have "remove1 x xs = ys @ zs" and "holds (del x h) hp (ys @ zs)"
    using assms(1) holds_del by (auto simp: remove1_append)
  then show ?thesis by simp
qed

end

interpretation lh: entry_list INIT_LIST_HEAD list_add list_add_tail list_del list_empty dlist
proof unfold_locales
  fix h hp xs x ys hp' zs
  show "dlist (INIT_LIST_HEAD hp h) hp []" by (rule dlist_init)
  show "dlist h hp xs \<Longrightarrow> distinct (hp # xs)" by (simp add: dlist_def)
  show "dlist h hp xs \<Longrightarrow> list_empty hp h \<longleftrightarrow> xs = []" by (rule dlist_empty_iff)
  show "dlist h hp xs \<Longrightarrow> x \<notin> set (hp # xs) \<Longrightarrow> dlist (list_add x hp h) hp (x # xs)"
    by (rule dlist_add)
  show "dlist h hp xs \<Longrightarrow> x \<notin> set (hp # xs) \<Longrightarrow> dlist (list_add_tail x hp h) hp (xs @ [x])"
    by (rule dlist_add_tail)
  show "dlist h hp (xs @ x # ys) \<Longrightarrow> dlist (list_del x h) hp (xs @ ys)" by (rule dlist_del)
  show "dlist h hp' ys \<Longrightarrow> hp \<notin> set (hp' # ys) \<Longrightarrow> dlist (INIT_LIST_HEAD hp h) hp' ys"
    by (subst dlist_frame [of _ _ _ h]) (auto simp: lh_defs)
  show "dlist h hp xs \<Longrightarrow> dlist h hp' ys \<Longrightarrow> set (x # hp # xs) \<inter> set (hp' # ys) = {} \<Longrightarrow>
      dlist (list_add x hp h) hp' ys"
    by (subst dlist_frame [of _ _ _ h]) (auto intro!: list_add_other)
  show "dlist h hp (xs @ x # zs) \<Longrightarrow> dlist h hp' ys \<Longrightarrow>
      set (hp # xs @ x # zs) \<inter> set (hp' # ys) = {} \<Longrightarrow> dlist (list_del x h) hp' ys"
    by (subst dlist_frame [of _ _ _ h]) (auto intro!: list_del_other)
qed

end
