(* ===== verification/Page_Map.thy ===== *)
theory Page_Map
  imports List_Head Bitops
begin

text \<open>
  Physical memory bookkeeping at boot: the address macros of \<^verbatim>\<open>include/pgtable.h\<close>, the
  booting-memory allocator and the page-descriptor table of \<^verbatim>\<open>page.c\<close>, and the node and
  zone set-up of \<^verbatim>\<open>memory.c\<close>. A \<^verbatim>\<open>struct page\<close> pointer is an index into \<^verbatim>\<open>mem_map\<close>, or
  \<open>None\<close> for \<^verbatim>\<open>NULL\<close>; the \<^verbatim>\<open>list\<close> field of a descriptor lives in the list heap at
  the address of the descriptor, whose first field it is.
\<close>

subsection \<open>Addresses\<close>

definition PAGE_OFFSET :: u64 where [kconst]: "PAGE_OFFSET = 0xFFFF800000000000"
definition PAGE_SHIFT :: nat where [kconst]: "PAGE_SHIFT = 12"
definition PAGE_SIZE :: u64 where [kconst]: "PAGE_SIZE = push_bit PAGE_SHIFT 1"
definition PAGE_MASK :: u64 where [kconst]: "PAGE_MASK = NOT (PAGE_SIZE - 1)"
definition KERNEL_STACK_START :: u64 where [kconst]: "KERNEL_STACK_START = 0xFFFF800000200000"

definition pa :: "u64 \<Rightarrow> u64" where "pa x = x - PAGE_OFFSET"
definition va :: "u64 \<Rightarrow> u64" where "va x = x + PAGE_OFFSET"

definition PAGE_ALIGN :: "u64 \<Rightarrow> u64" where
  "PAGE_ALIGN addr = (addr + PAGE_SIZE - 1) AND PAGE_MASK"

subsection \<open>Page descriptors, zones and the node\<close>

record page =
  pg_private :: u64
  pg_index :: u64
  pg_count :: u64
  pg_flags :: u64
  pg_virtual :: u64
  pg_zone :: "nat option"
  pg_slab :: u64

definition sizeof_page :: u64 where [kconst]: "sizeof_page = 72"

record zone =
  free_pages_z :: u64
  zone_pgdat :: "nat option"
  zone_start_paddr :: u64
  zone_name :: string
  zone_size :: u64
  zone_pages :: u64
  zone_mem_map :: nat
  zone_start_pfn :: nat

definition MAX_NR_ZONES :: nat where [kconst]: "MAX_NR_ZONES = 1"
definition ZONE_NORMAL :: nat where [kconst]: "ZONE_NORMAL = 0"

record pg_data =
  node_zones :: "zone list"
  nr_zones :: u64
  node_mem_map :: nat
  node_start_paddr :: u64
  node_size :: u64
  node_id :: u64
  node_next :: "nat option"

text \<open>
  The state of the memory manager: the three variables of the booting-memory allocator,
  the address and the contents of \<^verbatim>\<open>mem_map\<close>, \<^verbatim>\<open>contig_page_data\<close>, the list heap and the
  console log.
\<close>

record mm_state =
  bootmem_page_start :: u64
  bootmem_page_index :: u64
  bootmem_page_max :: u64
  mem_map_base :: u64
  mem_map :: "page list"
  contig_page_data :: pg_data
  lists :: lheap
  klog :: "printk list"

definition say :: "string \<Rightarrow> printf_arg list \<Rightarrow> 'a mm_state_scheme \<Rightarrow> 'a mm_state_scheme" where
  "say fmt args s = s\<lparr>klog := klog s @ [(fmt, args)]\<rparr>"

subsection \<open>The booting-memory allocator\<close>

definition bootmem_init :: "u64 \<Rightarrow> u64 \<Rightarrow> 'a mm_state_scheme \<Rightarrow> 'a mm_state_scheme" where
  "bootmem_init start_heap end_heap s =
     (let start = drop_bit PAGE_SHIFT (pa start_heap);
          mx = drop_bit PAGE_SHIFT (pa end_heap) - 1
      in say ''bootmem page %x~%x\<newline>'' [ArgInt start, ArgInt mx]
           (s\<lparr>bootmem_page_start := start, bootmem_page_index := start, bootmem_page_max := mx\<rparr>))"

definition alloc_bootmem :: "u64 \<Rightarrow> 'a mm_state_scheme \<Rightarrow> (u64 \<times> 'a mm_state_scheme) outcome" where
  "alloc_bootmem count s =
     (if bootmem_page_max s \<le> bootmem_page_index s + count then Halt
      else let s' = s\<lparr>bootmem_page_index := bootmem_page_index s + count\<rparr>
           in Done (va (push_bit PAGE_SHIFT (bootmem_page_index s' - count)), s'))"

subsection \<open>The page-descriptor table\<close>

definition page_addr :: "u64 \<Rightarrow> nat \<Rightarrow> u64" where
  "page_addr base l = base + sizeof_page * of_nat l"

definition page_index_of :: "u64 \<Rightarrow> u64 \<Rightarrow> nat" where
  "page_index_of base p = unat ((p - base) div sizeof_page)"

fun mark_busy :: "nat list \<Rightarrow> page list \<Rightarrow> page list outcome" where
  "mark_busy [] m = Done m"
| "mark_busy (l # ls) m = obind (aget m l) (\<lambda>p. mark_busy ls (m[l := p\<lparr>pg_count := 1\<rparr>]))"

definition init_page :: "page \<Rightarrow> nat \<Rightarrow> page" where
  "init_page raw l =
     raw\<lparr>pg_index := of_nat l, pg_count := 0, pg_flags := 0, pg_private := - 1,
         pg_virtual := PAGE_OFFSET + 0x1000 * of_nat l\<rparr>"

text \<open>
  \<open>raw l\<close> is what the boot memory holds where descriptor \<open>l\<close> is built: the pages of
  \<^verbatim>\<open>alloc_bootmem\<close> are not cleared, and \<^verbatim>\<open>page_zone\<close> and \<^verbatim>\<open>slab\<close> are not written here.
\<close>

text \<open>The frames of the loop \<^verbatim>\<open>for (l=0x9f; l<0x200; l++)\<close>.\<close>

definition bios_and_kernel :: "nat list" where
  "bios_and_kernel = [0x9f..<0x200]"

definition build_mem_map ::
  "(nat \<Rightarrow> page) \<Rightarrow> nat \<Rightarrow> u64 \<Rightarrow> 'a mm_state_scheme \<Rightarrow> 'a mm_state_scheme outcome" where
  "build_mem_map raw n base s =
     (let m0 = map (\<lambda>l. init_page (raw l) l) [0..<n];
          h0 = fold (\<lambda>l. INIT_LIST_HEAD (page_addr base l)) [0..<n] (lists s)
      in obind (mark_busy [0] m0) (\<lambda>m1.
         obind (mark_busy bios_and_kernel m1) (\<lambda>m2.
         obind (mark_busy [unat (bootmem_page_start s)..<unat (bootmem_page_index s)] m2) (\<lambda>m3.
         Done (s\<lparr>mem_map_base := base, mem_map := m3, lists := h0\<rparr>)))))"

definition mem_map_init :: "(nat \<Rightarrow> page) \<Rightarrow> u64 \<Rightarrow> 'a mm_state_scheme \<Rightarrow> 'a mm_state_scheme outcome" where
  "mem_map_init raw phy_mem_size s =
     (let page_count = (ucast ((phy_mem_size * 0x100000) div PAGE_SIZE) :: u32);
          mem_map_size = (ucast ((ucast page_count :: u64) * sizeof_page + 11) :: u32);
          mem_map_page = (ucast (PAGE_ALIGN (scast mem_map_size) div PAGE_SIZE) :: u32)
      in obind (alloc_bootmem (scast mem_map_page) s) (\<lambda>(base, s1).
           build_mem_map raw (unat page_count) base
             (say ''mem_map -> %x ~ %x \<newline>''
                [ArgInt base, ArgInt (base + scast (mem_map_page * 4096) - 1)] s1)))"

definition virt_to_page :: "u64 \<Rightarrow> nat" where
  "virt_to_page vaddr = unat (drop_bit PAGE_SHIFT (pa vaddr))"

text \<open>
  \<^verbatim>\<open>pg - mem_map\<close> is the byte distance divided by the size of a descriptor, signed.
\<close>

definition page_ptr :: "'a mm_state_scheme \<Rightarrow> nat option \<Rightarrow> u64" where
  "page_ptr s pg = (case pg of None \<Rightarrow> 0 | Some i \<Rightarrow> page_addr (mem_map_base s) i)"

definition page_to_virt :: "'a mm_state_scheme \<Rightarrow> nat option \<Rightarrow> u64" where
  "page_to_virt s pg =
     (let pfn = word_of_int (sgn (sint (page_ptr s pg - mem_map_base s)) *
                  (\<bar>sint (page_ptr s pg - mem_map_base s)\<bar> div 72))
      in va (push_bit PAGE_SHIFT pfn))"

subsection \<open>Node and zone set-up\<close>

definition ONE_MB :: u64 where [kconst]: "ONE_MB = 1024 * 1024"

text \<open>The loop that links the pages of the zone and enters the zone in each descriptor.\<close>

fun link_pages :: "nat \<Rightarrow> nat \<Rightarrow> nat list \<Rightarrow> 'a mm_state_scheme \<Rightarrow> 'a mm_state_scheme outcome" where
  "link_pages zi zm [] s = Done s"
| "link_pages zi zm (l # ls) s =
     obind (aget (mem_map s) l) (\<lambda>p.
       link_pages zi zm ls
         (s\<lparr>lists := list_add_tail (page_addr (mem_map_base s) l) (page_addr (mem_map_base s) zm) (lists s),
            mem_map := (mem_map s)[l := p\<lparr>pg_zone := Some zi\<rparr>]\<rparr>))"

text \<open>The body of the loop that counts the free pages of the zone.\<close>

definition count_free_body :: "'a mm_state_scheme \<Rightarrow> u64 \<Rightarrow> u64 \<Rightarrow> (u64 \<times> bool) outcome" where
  "count_free_body s pg acc =
     obind (aget (mem_map s) (page_index_of (mem_map_base s) pg)) (\<lambda>p.
       Done (if pg_count p = 0 then acc + 1 else acc, False))"

definition zone_setup :: "u64 \<Rightarrow> pg_data \<Rightarrow> zone \<Rightarrow> zone" where
  "zone_setup phy_mem_size nd z =
     z\<lparr>zone_size := node_size nd, zone_pgdat := Some 0, zone_start_paddr := node_start_paddr nd,
       zone_name := ''NORMAL'', zone_pages := node_size nd div PAGE_SIZE,
       zone_start_pfn := node_mem_map nd, zone_mem_map := node_mem_map nd\<rparr>"

definition memory_init :: "u64 \<Rightarrow> 'a mm_state_scheme \<Rightarrow> 'a mm_state_scheme outcome" where
  "memory_init phy_mem_size s =
     (let nd = (contig_page_data s)\<lparr>nr_zones := of_nat MAX_NR_ZONES, node_mem_map := 0,
                 node_start_paddr := 0, node_size := phy_mem_size * ONE_MB,
                 node_id := 0, node_next := None\<rparr>
      in obind (aget (node_zones nd) ZONE_NORMAL) (\<lambda>z0.
         let z = zone_setup phy_mem_size nd z0
         in obind (link_pages ZONE_NORMAL (zone_mem_map z) [zone_start_pfn z..<unat (zone_pages z)] s) (\<lambda>s1.
            obind (list_for_each_entry (count_free_body s1) (lists s1)
                     (page_addr (mem_map_base s1) (node_mem_map nd)) (free_pages_z z)) (\<lambda>(free, _).
            let z' = z\<lparr>free_pages_z := free\<rparr>
            in Done (say ''zone[%s] size=%d, mem_map=%x, free=%d\<newline>''
                  [ArgStr (zone_name z'), ArgInt (zone_size z'),
                   ArgInt (page_addr (mem_map_base s1) (zone_mem_map z')), ArgInt free]
                  (s1\<lparr>contig_page_data := nd\<lparr>node_zones := (node_zones nd)[ZONE_NORMAL := z']\<rparr>\<rparr>))))))"

subsection \<open>Lemmas: addresses\<close>

lemma pa_va [simp]: "pa (va x) = x" and va_pa [simp]: "va (pa x) = x"
  by (simp_all add: pa_def va_def)

lemma PAGE_SIZE_val: "PAGE_SIZE = 4096"
  by (simp add: kconst)

lemma page_index_of_addr:
  "l < 2 ^ 32 \<Longrightarrow> page_index_of base (page_addr base l) = l"
proof -
  assume l: "l < 2 ^ 32"
  have "unat (sizeof_page * of_nat l) = 72 * l"
    using l by (simp add: kconst unat_word_ariths unat_of_nat)
  then show ?thesis
    by (simp add: page_index_of_def page_addr_def unat_div) (simp add: kconst)
qed

lemma page_addr_inj:
  "k < 2 ^ 32 \<Longrightarrow> l < 2 ^ 32 \<Longrightarrow> page_addr base k = page_addr base l \<longleftrightarrow> k = l"
  by (metis page_index_of_addr)

subsection \<open>Lemmas: the booting-memory allocator\<close>

lemma alloc_bootmem_spec:
  assumes "alloc_bootmem count s = Done (a, s')"
    and "unat (bootmem_page_max s) < 2 ^ 40" and "unat count < 2 ^ 40"
    and "bootmem_page_index s \<le> bootmem_page_max s"
  shows "s' = s\<lparr>bootmem_page_index := bootmem_page_index s + count\<rparr>"
    and "unat (bootmem_page_index s') = unat (bootmem_page_index s) + unat count"
    and "unat (bootmem_page_index s') < unat (bootmem_page_max s)"
    and "unat (pa a) = 4096 * unat (bootmem_page_index s)"
proof -
  have lt: "bootmem_page_index s + count < bootmem_page_max s"
    and s': "s' = s\<lparr>bootmem_page_index := bootmem_page_index s + count\<rparr>"
    and a: "a = va (push_bit 12 (bootmem_page_index s))"
    using assms(1) by (auto simp: alloc_bootmem_def Let_def kconst not_le split: if_splits)
  have i: "unat (bootmem_page_index s) < 2 ^ 40"
    using assms(2,4) by (simp add: word_le_nat_alt)
  then have sum: "unat (bootmem_page_index s + count) = unat (bootmem_page_index s) + unat count"
    using assms(3) by (intro unat_add_u64) simp
  show "s' = s\<lparr>bootmem_page_index := bootmem_page_index s + count\<rparr>" by (rule s')
  show "unat (bootmem_page_index s') = unat (bootmem_page_index s) + unat count"
    by (simp add: s' sum)
  show "unat (bootmem_page_index s') < unat (bootmem_page_max s)"
    using lt by (simp add: s' word_less_nat_alt)
  show "unat (pa a) = 4096 * unat (bootmem_page_index s)"
    using i by (simp add: a push_bit_eq_mult unat_word_ariths mult.commute)
qed

subsection \<open>Lemmas: the boot loops\<close>

lemma mark_busy_ok:
  assumes "\<forall>l\<in>set ls. l < length m"
  shows "\<exists>m'. mark_busy ls m = Done m' \<and> length m' = length m \<and>
    (\<forall>i<length m. m' ! i = (if i \<in> set ls then (m ! i)\<lparr>pg_count := 1\<rparr> else m ! i))"
  using assms
proof (induction ls arbitrary: m)
  case Nil
  then show ?case by simp
next
  case (Cons l ls)
  let ?m = "m[l := (m ! l)\<lparr>pg_count := 1\<rparr>]"
  obtain m' where "mark_busy ls ?m = Done m'" "length m' = length ?m"
    "\<forall>i<length ?m. m' ! i = (if i \<in> set ls then (?m ! i)\<lparr>pg_count := 1\<rparr> else ?m ! i)"
    using Cons.IH [of ?m] Cons.prems by auto
  then show ?case
    using Cons.prems by (auto simp: outcome_simps nth_list_update)
qed

lemma link_pages_ok:
  "\<forall>l\<in>set ls. l < length (mem_map s) \<Longrightarrow>
   link_pages zi zm ls s =
     Done (s\<lparr>lists := fold (\<lambda>l. list_add_tail (page_addr (mem_map_base s) l) (page_addr (mem_map_base s) zm)) ls (lists s),
             mem_map := fold (\<lambda>l m. m[l := (m ! l)\<lparr>pg_zone := Some zi\<rparr>]) ls (mem_map s)\<rparr>)"
  by (induction ls arbitrary: s) (auto simp: outcome_simps)

lemma fold_set_zone:
  "distinct ls \<Longrightarrow> \<forall>l\<in>set ls. l < length m \<Longrightarrow>
     length (fold (\<lambda>l m. m[l := f (m ! l)]) ls m) = length m \<and>
     (\<forall>i<length m. fold (\<lambda>l m. m[l := f (m ! l)]) ls m ! i = (if i \<in> set ls then f (m ! i) else m ! i))"
  by (induction ls arbitrary: m) (auto simp: nth_list_update)

lemma fold_init_heads:
  "l \<in> set ls \<Longrightarrow> fold (\<lambda>l. INIT_LIST_HEAD (f l)) ls h (f l) = \<lparr>lh_next = f l, lh_prev = f l, \<dots> = ()\<rparr>"
proof (induction ls arbitrary: h rule: rev_induct)
  case Nil
  then show ?case by simp
next
  case (snoc k ls)
  then show ?case by (cases "f l = f k") (auto simp: lh_defs)
qed

lemma list_add_tail_self: "dlist h hp [] \<Longrightarrow> list_add_tail hp hp h = h"
  by (auto simp: dlist_def lh_defs fun_eq_iff)

subsection \<open>The invariant of the memory manager\<close>

definition free_count :: "page list \<Rightarrow> nat" where
  "free_count m = length (filter (\<lambda>p. pg_count p = 0) m)"

text \<open>
  One zone that covers \<^verbatim>\<open>mem_map\<close>, whose counter is the number of descriptors with
  count 0, and every descriptor points to it.
\<close>

definition mm_inv :: "'a mm_state_scheme \<Rightarrow> bool" where
  "mm_inv s \<longleftrightarrow>
     (case node_zones (contig_page_data s) of
        [z] \<Rightarrow> zone_mem_map z = 0 \<and> unat (zone_pages z) = length (mem_map s) \<and>
               unat (free_pages_z z) = free_count (mem_map s)
      | _ \<Rightarrow> False) \<and>
     length (mem_map s) < 2 ^ 32 \<and> list_all (\<lambda>p. pg_zone p = Some 0) (mem_map s)"

lemma mm_invE:
  assumes "mm_inv s"
  obtains z where "node_zones (contig_page_data s) = [z]" "zone_mem_map z = 0"
    "unat (zone_pages z) = length (mem_map s)" "unat (free_pages_z z) = free_count (mem_map s)"
    "length (mem_map s) < 2 ^ 32" "\<And>i. i < length (mem_map s) \<Longrightarrow> pg_zone (mem_map s ! i) = Some 0"
  using assms by (auto simp: mm_inv_def list_all_length split: list.splits)

lemma mm_invI:
  assumes "node_zones (contig_page_data s) = [z]" "zone_mem_map z = 0"
    "unat (zone_pages z) = length (mem_map s)" "unat (free_pages_z z) = free_count (mem_map s)"
    "length (mem_map s) < 2 ^ 32" "\<And>i. i < length (mem_map s) \<Longrightarrow> pg_zone (mem_map s ! i) = Some 0"
  shows "mm_inv s"
  using assms by (auto simp: mm_inv_def list_all_length)

lemma free_count_le: "free_count m \<le> length m"
  by (simp add: free_count_def)

lemma free_count_index: "free_count m = length (filter (\<lambda>i. pg_count (m ! i) = 0) [0..<length m])"
proof -
  have "filter (\<lambda>p. pg_count p = 0) m = filter (\<lambda>p. pg_count p = 0) (map ((!) m) [0..<length m])"
    by (simp add: map_nth)
  then show ?thesis by (simp add: free_count_def filter_map comp_def)
qed

lemma free_count_cong:
  "length m = length m' \<Longrightarrow> (\<And>i. i < length m \<Longrightarrow> pg_count (m ! i) = pg_count (m' ! i)) \<Longrightarrow>
   free_count m = free_count m'"
  by (auto simp: free_count_index intro!: arg_cong [of _ _ length] filter_cong)

lemma free_count_update:
  assumes "i < length m"
  shows "free_count (m[i := p]) + (if pg_count (m ! i) = 0 then 1 else 0)
       = free_count m + (if pg_count p = 0 then 1 else 0)"
proof -
  have m: "m = take i m @ m ! i # drop (Suc i) m" using assms by (rule id_take_nth_drop)
  have "m[i := p] = take i m @ p # drop (Suc i) m" using assms by (rule upd_conv_take_nth_drop)
  then show ?thesis by (subst (3) m) (simp add: free_count_def)
qed

subsection \<open>Lemmas: node and zone set-up\<close>

lemma linked_pages:
  assumes "dlist h (page_addr b 0) []" and "0 < n" and "n < 2 ^ 32"
  shows "dlist (fold (\<lambda>l. list_add_tail (page_addr b l) (page_addr b 0)) [0..<n] h)
           (page_addr b 0) (map (page_addr b) [1..<n])"
proof -
  have "[0..<n] = 0 # [1..<n]" using assms(2) by (simp add: upt_rec)
  then have "fold (\<lambda>l. list_add_tail (page_addr b l) (page_addr b 0)) [0..<n] h
      = fold (\<lambda>x. list_add_tail x (page_addr b 0)) (map (page_addr b) [1..<n]) h"
    using assms(1) by (simp add: list_add_tail_self fold_map comp_def)
  moreover have "distinct (page_addr b 0 # [] @ map (page_addr b) [1..<n])"
    using assms(3) by (auto simp: distinct_map inj_on_def page_addr_inj)
  ultimately show ?thesis using lh.fifo_from [OF assms(1)] by simp
qed

lemma count_free_loop:
  assumes "\<forall>l\<in>set ls. l < length (mem_map s)" and "length (mem_map s) < 2 ^ 32"
  shows "entry_loop (count_free_body s) (map (page_addr (mem_map_base s)) ls) hp acc =
    Done (acc + of_nat (length (filter (\<lambda>l. pg_count (mem_map s ! l) = 0) ls)), hp)"
  using assms
proof (induction ls arbitrary: acc)
  case Nil
  then show ?case by simp
next
  case (Cons l ls)
  then have "page_index_of (mem_map_base s) (page_addr (mem_map_base s) l) = l"
    by (intro page_index_of_addr) auto
  then show ?case using Cons by (simp add: count_free_body_def outcome_simps algebra_simps)
qed

lemma memory_init_ok:
  assumes zones: "node_zones (contig_page_data s) = [z0]" and z0: "free_pages_z z0 = 0"
    and n: "unat (phy_mem_size * ONE_MB div PAGE_SIZE) = length (mem_map s)"
    and len: "0 < length (mem_map s)" "length (mem_map s) < 2 ^ 32"
    and d: "dlist (lists s) (page_addr (mem_map_base s) 0) []"
    and busy: "pg_count (mem_map s ! 0) \<noteq> 0"
  shows "\<exists>s'. memory_init phy_mem_size s = Done s' \<and> mm_inv s' \<and>
    length (mem_map s') = length (mem_map s) \<and> mem_map_base s' = mem_map_base s \<and>
    (\<forall>i<length (mem_map s). mem_map s' ! i = (mem_map s ! i)\<lparr>pg_zone := Some 0\<rparr>)"
proof -
  define n where "n = length (mem_map s)"
  define b where "b = mem_map_base s"
  define m where "m = fold (\<lambda>l m. m[l := (m ! l)\<lparr>pg_zone := Some 0\<rparr>]) [0..<n] (mem_map s)"
  define h where "h = fold (\<lambda>l. list_add_tail (page_addr b l) (page_addr b 0)) [0..<n] (lists s)"
  define s1 where "s1 = s\<lparr>lists := h, mem_map := m\<rparr>"
  define nd where "nd = (contig_page_data s)\<lparr>nr_zones := of_nat MAX_NR_ZONES, node_mem_map := 0,
                 node_start_paddr := 0, node_size := phy_mem_size * ONE_MB,
                 node_id := 0, node_next := None\<rparr>"
  define z where "z = zone_setup phy_mem_size nd z0"
  have m: "length m = n" "\<And>i. i < n \<Longrightarrow> m ! i = (mem_map s ! i)\<lparr>pg_zone := Some 0\<rparr>"
    using fold_set_zone [of "[0..<n]" "mem_map s" "\<lambda>p. p\<lparr>pg_zone := Some 0\<rparr>"]
    by (auto simp: m_def n_def)
  have links: "link_pages 0 0 [0..<n] s = Done s1"
    unfolding s1_def h_def m_def b_def by (rule link_pages_ok) (auto simp: n_def)
  have s1: "mem_map s1 = m" "lists s1 = h" "mem_map_base s1 = b" "contig_page_data s1 = contig_page_data s"
    by (simp_all add: s1_def b_def)
  have dl: "dlist h (page_addr b 0) (map (page_addr b) [1..<n])"
    unfolding h_def by (rule linked_pages) (use d len in \<open>simp_all add: n_def b_def\<close>)
  have "entry_loop (count_free_body s1) (map (page_addr (mem_map_base s1)) [1..<n]) (page_addr b 0) 0 =
      Done (0 + of_nat (length (filter (\<lambda>l. pg_count (mem_map s1 ! l) = 0) [1..<n])), page_addr b 0)"
    by (rule count_free_loop) (use s1 m len in \<open>auto simp: n_def\<close>)
  moreover have "length (filter (\<lambda>l. pg_count (m ! l) = 0) [1..<n]) = free_count m"
  proof -
    have "[0..<length m] = 0 # [1..<n]" using len m by (simp add: upt_rec n_def)
    then show ?thesis using m len busy by (simp add: free_count_index n_def)
  qed
  ultimately have count: "list_for_each_entry (count_free_body s1) h (page_addr b 0) 0 =
      Done (of_nat (free_count m), page_addr b 0)"
    by (simp add: list_for_each_entry_dlist [OF dl] s1)
  have zv: "zone_mem_map z = 0" "zone_start_pfn z = 0" "free_pages_z z = 0" "unat (zone_pages z) = n"
    using n z0 by (simp_all add: z_def zone_setup_def nd_def n_def)
  have ndz: "node_zones nd = [z0]" "node_mem_map nd = 0" by (simp_all add: nd_def zones)
  have "memory_init phy_mem_size s =
     Done (say ''zone[%s] size=%d, mem_map=%x, free=%d\<newline>''
        [ArgStr (zone_name z), ArgInt (zone_size z), ArgInt (page_addr b 0), ArgInt (of_nat (free_count m))]
        (s1\<lparr>contig_page_data := nd\<lparr>node_zones := [z\<lparr>free_pages_z := of_nat (free_count m)\<rparr>]\<rparr>\<rparr>))"
    unfolding memory_init_def Let_def nd_def [symmetric] ZONE_NORMAL_def
    by (simp add: ndz z_def [symmetric] zv links count s1 outcome_simps)
  moreover have "free_count m < 2 ^ 32" using free_count_le [of m] m len by (simp add: n_def)
  ultimately show ?thesis
    using m len zv s1 by (auto simp: say_def n_def b_def intro!: mm_invI)
qed

lemma page_round: "unat ((x AND PAGE_MASK) div PAGE_SIZE) = unat x div 4096"
proof -
  have "drop_bit 12 (x AND NOT (mask 12)) = drop_bit 12 x"
    by (rule bit_eqI) (auto simp: bit_simps dest: bit_imp_le_length)
  then have "(x AND PAGE_MASK) div PAGE_SIZE = drop_bit 12 x"
    by (simp add: kconst drop_bit_eq_div mask_eq_exp_minus_1)
  then show ?thesis by (simp add: unat_drop_bit_eq drop_bit_eq_div [of 12 "unat x"])
qed

text \<open>The sizes \<^verbatim>\<open>mem_map_init\<close> computes, without the machine arithmetic.\<close>

lemma mem_map_sizes:
  assumes "unat M \<le> 4096"
  defines "pc \<equiv> ucast ((M * 0x100000) div PAGE_SIZE) :: u32"
  defines "sz \<equiv> ucast ((ucast pc :: u64) * sizeof_page + 11) :: u32"
  defines "pg \<equiv> ucast (PAGE_ALIGN (scast sz) div PAGE_SIZE) :: u32"
  shows "unat pc = 256 * unat M" and "unat (scast pg :: u64) = (18432 * unat M + 4106) div 4096"
proof -
  have "unat (M * 0x100000) = unat M * 0x100000" using assms(1) by (simp add: unat_word_ariths)
  then have "unat ((M * 0x100000) div PAGE_SIZE) = 256 * unat M"
    by (simp add: unat_div PAGE_SIZE_val)
  then show pc: "unat pc = 256 * unat M"
    using assms(1) by (simp add: pc_def unsigned_ucast_eq take_bit_nat_eq_self)
  have "unat ((ucast pc :: u64) * sizeof_page + 11) = 18432 * unat M + 11"
    using assms(1) pc
    by (simp add: unat_word_ariths sizeof_page_def unsigned_ucast_eq take_bit_nat_eq_self)
  then have sz: "unat sz = 18432 * unat M + 11"
    using assms(1) by (simp add: sz_def unsigned_ucast_eq take_bit_nat_eq_self)
  then have "unat (scast sz :: u64) = 18432 * unat M + 11"
    using assms(1) by (subst scast_small) simp_all
  then have "unat (scast sz + PAGE_SIZE - 1 :: u64) = 18432 * unat M + 4106"
    using assms(1) by (simp add: PAGE_SIZE_val unat_word_ariths)
  then have "unat (PAGE_ALIGN (scast sz) div PAGE_SIZE) = (18432 * unat M + 4106) div 4096"
    by (simp add: PAGE_ALIGN_def page_round)
  moreover have "(18432 * unat M + 4106) div 4096 < 2 ^ 31" using assms(1) by simp
  ultimately have "unat pg = (18432 * unat M + 4106) div 4096"
    by (simp add: pg_def unsigned_ucast_eq take_bit_nat_eq_self)
  then show "unat (scast pg :: u64) = (18432 * unat M + 4106) div 4096"
    using \<open>_ < 2 ^ 31\<close> by (simp add: scast_small)
qed

lemma mark_busy_bound: "mark_busy ls m = Done m' \<Longrightarrow> \<forall>l\<in>set ls. l < length m"
  by (induction ls arbitrary: m) (auto, metis length_list_update)

lemma mark_busy_spec:
  assumes "mark_busy ls m = Done m'"
  shows "length m' = length m"
    and "\<And>i. i < length m \<Longrightarrow> m' ! i = (if i \<in> set ls then (m ! i)\<lparr>pg_count := 1\<rparr> else m ! i)"
  using mark_busy_ok [OF mark_busy_bound [OF assms]] assms by auto

text \<open>The frames that hold the BIOS data, the kernel image and the boot memory in use.\<close>

definition boot_busy :: "'a mm_state_scheme \<Rightarrow> nat \<Rightarrow> bool" where
  "boot_busy s i \<longleftrightarrow> i = 0 \<or> 0x9f \<le> i \<and> i < 0x200 \<or>
     unat (bootmem_page_start s) \<le> i \<and> i < unat (bootmem_page_index s)"

lemma set_bios_and_kernel: "i \<in> set bios_and_kernel \<longleftrightarrow> 0x9f \<le> i \<and> i < 0x200"
  unfolding bios_and_kernel_def set_upt by simp

lemma build_mem_map_spec:
  assumes n: "0 < n" and build: "build_mem_map raw n base t = Done s1"
  shows "length (mem_map s1) = n"
    and "\<And>i. i < n \<Longrightarrow>
           mem_map s1 ! i = (init_page (raw i) i)\<lparr>pg_count := if boot_busy s1 i then 1 else 0\<rparr>"
    and "contig_page_data s1 = contig_page_data t"
    and "dlist (lists s1) (page_addr (mem_map_base s1) 0) []"
proof -
  let ?m0 = "map (\<lambda>l. init_page (raw l) l) [0..<n]"
  obtain m1 m2 m3 where
      m1: "mark_busy [0] ?m0 = Done m1"
    and m2: "mark_busy bios_and_kernel m1 = Done m2"
    and m3: "mark_busy [unat (bootmem_page_start t)..<unat (bootmem_page_index t)] m2 = Done m3"
    and s1: "s1 = t\<lparr>mem_map_base := base, mem_map := m3,
               lists := fold (\<lambda>l. INIT_LIST_HEAD (page_addr base l)) [0..<n] (lists t)\<rparr>"
    using build
    by (auto simp: build_mem_map_def Let_def simp del: mark_busy.simps)
  note b1 = mark_busy_spec [OF m1] and b2 = mark_busy_spec [OF m2] and b3 = mark_busy_spec [OF m3]
  have len: "length m1 = n" "length m2 = n" "length m3 = n" using b1 b2 b3 by simp_all
  show "length (mem_map s1) = n" by (simp add: s1 len)
  show "contig_page_data s1 = contig_page_data t" by (simp add: s1)
  show "mem_map s1 ! i = (init_page (raw i) i)\<lparr>pg_count := if boot_busy s1 i then 1 else 0\<rparr>"
    if "i < n" for i
  proof -
    have busy: "boot_busy s1 i \<longleftrightarrow> i = 0 \<or> i \<in> set bios_and_kernel \<or>
        i \<in> set [unat (bootmem_page_start t)..<unat (bootmem_page_index t)]"
      by (auto simp: boot_busy_def s1 set_bios_and_kernel)
    have i1: "m1 ! i = (if i = 0 then (?m0 ! i)\<lparr>pg_count := 1\<rparr> else ?m0 ! i)"
      using b1(2) [of i] that by simp
    have i0: "?m0 ! i = (init_page (raw i) i)\<lparr>pg_count := 0\<rparr>"
      using that by (simp add: init_page_def)
    show ?thesis
      unfolding busy using b3(2) [of i] b2(2) [of i] i1 i0 that len
      by (simp add: s1 del: set_upt)
  qed
  have "0 \<in> set [0..<n]" using n by simp
  then show "dlist (lists s1) (page_addr (mem_map_base s1) 0) []"
    using fold_init_heads [of 0 "[0..<n]" "page_addr base" "lists t"]
    by (simp add: s1 dlist_def)
qed

lemma mem_map_init_build:
  assumes "unat M \<le> 4096" and "mem_map_init raw M s = Done s1"
  obtains base t where "build_mem_map raw (256 * unat M) base t = Done s1"
    "contig_page_data t = contig_page_data s"
proof -
  let ?pc = "ucast ((M * 0x100000) div PAGE_SIZE) :: u32"
  obtain base t' fmt args where "build_mem_map raw (unat ?pc) base (say fmt args t') = Done s1"
    "contig_page_data t' = contig_page_data s"
    using assms(2) by (auto simp: mem_map_init_def Let_def alloc_bootmem_def split: if_splits)
  then show thesis
    using that [of base "say fmt args t'"] mem_map_sizes(1) [OF assms(1)] by (simp add: say_def)
qed

lemma boot_memory_ok:
  assumes M: "0 < unat M" "unat M \<le> 4096" and init: "mem_map_init raw M s = Done s1"
    and zones: "node_zones (contig_page_data s) = [z0]" "free_pages_z z0 = 0"
  shows "\<exists>s2. memory_init M (s1\<lparr>klog := l\<rparr>) = Done s2 \<and> mm_inv s2 \<and> length (mem_map s2) = 256 * unat M \<and>
    (\<forall>i<256 * unat M. pg_count (mem_map s2 ! i) = (if boot_busy s1 i then 1 else 0) \<and>
       pg_virtual (mem_map s2 ! i) = va (0x1000 * of_nat i))"
proof -
  obtain base t where build: "build_mem_map raw (256 * unat M) base t = Done s1"
    and t: "contig_page_data t = contig_page_data s"
    using mem_map_init_build [OF M(2) init] .
  have "0 < 256 * unat M" using M by simp
  note spec = build_mem_map_spec [OF this build, unfolded t]
  have "unat (M * ONE_MB div PAGE_SIZE) = 256 * unat M"
    using M by (simp add: unat_div kconst unat_word_ariths)
  then obtain s2 where "memory_init M (s1\<lparr>klog := l\<rparr>) = Done s2" "mm_inv s2"
    "length (mem_map s2) = length (mem_map s1)"
    "\<forall>i<length (mem_map s1). mem_map s2 ! i = (mem_map s1 ! i)\<lparr>pg_zone := Some 0\<rparr>"
    using memory_init_ok [of "s1\<lparr>klog := l\<rparr>" z0 M] spec zones M by (auto simp: boot_busy_def)
  then show ?thesis using spec by (auto simp: init_page_def va_def)
qed

end
