(* ===== verification/Page_Alloc.thy ===== *)
theory Page_Alloc
  imports Page_Map
begin

text \<open>
  The page allocator of \<^verbatim>\<open>page_alloc.c\<close>: first fit over the page descriptors of a zone,
  and the release of a block by its order.
\<close>

subsection \<open>The operations\<close>

definition MAX_PAGE_ORDER :: u64 where [kconst]: "MAX_PAGE_ORDER = 5"

definition PAGE_ORDER :: "u64 \<Rightarrow> u64" where "PAGE_ORDER x = fls64 x"

text \<open>\<^verbatim>\<open>for (; i < MAX_NR_ZONES; i++) if (zonelist[i].free_pages > count) break;\<close>\<close>

function find_zone :: "zone list \<Rightarrow> u64 \<Rightarrow> nat \<Rightarrow> nat outcome" where
  "find_zone zonelist count i =
     (if i < MAX_NR_ZONES
      then obind (aget zonelist i) (\<lambda>z. if count < free_pages_z z then Done i else find_zone zonelist count (Suc i))
      else Done i)"
  by pat_completeness auto
termination by (relation "measure (\<lambda>(z, c, i). MAX_NR_ZONES - i)") auto

text \<open>
  The inner loop: \<open>lst\<close> (the code's \<^verbatim>\<open>last\<close>) runs over the block that starts at descriptor \<open>first\<close> and stops
  at the first page in use.
\<close>

function free_run :: "page list \<Rightarrow> nat \<Rightarrow> nat \<Rightarrow> nat \<Rightarrow> nat outcome" where
  "free_run m first count lst =
     (if lst < count
      then obind (aget m (first + lst)) (\<lambda>p. if 0 < pg_count p then Done lst else free_run m first count (Suc lst))
      else Done lst)"
  by pat_completeness auto
termination by (relation "measure (\<lambda>(m, f, c, l). c - l)") auto

text \<open>The outer loop, over the pages of the zone whose descriptors start at \<open>zm\<close>.\<close>

function find_run :: "page list \<Rightarrow> nat \<Rightarrow> nat \<Rightarrow> nat \<Rightarrow> nat \<Rightarrow> nat option outcome" where
  "find_run m zm pages count first =
     (if first < pages
      then obind (aget m (zm + first)) (\<lambda>p.
             if pg_count p \<noteq> 0 then find_run m zm pages count (Suc first)
             else obind (free_run m (zm + first) count 0) (\<lambda>lst.
                    if lst = count then Done (Some first)
                    else find_run m zm pages count (Suc (first + lst))))
      else Done None)"
  by pat_completeness auto
termination by (relation "measure (\<lambda>(m, zm, p, c, f). p - f)") auto

declare find_zone.simps [simp del] free_run.simps [simp del] find_run.simps [simp del]

fun take_pages :: "u64 \<Rightarrow> nat \<Rightarrow> nat list \<Rightarrow> page list \<Rightarrow> page list outcome" where
  "take_pages gfp_mask first [] m = Done m"
| "take_pages gfp_mask first (lst # ls) m =
     obind (aget m (first + lst)) (\<lambda>p.
       take_pages gfp_mask first ls (m[first + lst := p\<lparr>pg_count := 1, pg_flags := gfp_mask\<rparr>]))"

definition set_zone :: "nat \<Rightarrow> zone \<Rightarrow> 'a mm_state_scheme \<Rightarrow> 'a mm_state_scheme" where
  "set_zone i z s =
     s\<lparr>contig_page_data := (contig_page_data s)\<lparr>node_zones := (node_zones (contig_page_data s))[i := z]\<rparr>\<rparr>"

abbreviation zones :: "'a mm_state_scheme \<Rightarrow> zone list" where
  "zones s \<equiv> node_zones (contig_page_data s)"

lemma find_zone_ge: "find_zone zs c i = Done j \<Longrightarrow> i \<le> j"
  by (induction zs c i rule: find_zone.induct)
    (subst (asm) (2) find_zone.simps, auto split: if_splits)

text \<open>
  \<^verbatim>\<open>__alloc_pages\<close> from label \<^verbatim>\<open>FIND_ZONE\<close> with zone index \<open>i\<close>: a zone with enough free
  pages but no run of them sends the search to the next zone.
\<close>

function alloc_from :: "u64 \<Rightarrow> u64 \<Rightarrow> nat \<Rightarrow> 'a mm_state_scheme \<Rightarrow> (nat option \<times> 'a mm_state_scheme) outcome" where
  "alloc_from gfp_mask order i s =
     (let count = push_bit (unat order) 1
      in obind (find_zone (zones s) count i) (\<lambda>i.
           if MAX_NR_ZONES \<le> i then Done (None, s)
           else let zone = zones s ! i
                in obind (find_run (mem_map s) (zone_mem_map zone) (unat (zone_pages zone)) (unat count) 0) (\<lambda>r.
                   case r of
                     None \<Rightarrow> alloc_from gfp_mask order (Suc i) s
                   | Some first \<Rightarrow>
                       let pg = zone_mem_map zone + first
                       in obind (take_pages gfp_mask pg [0..<unat count] (mem_map s)) (\<lambda>m.
                          obind (aget m pg) (\<lambda>p.
                          Done (Some pg,
                            set_zone i (zone\<lparr>free_pages_z := free_pages_z zone - count\<rparr>)
                              (s\<lparr>mem_map := m[pg := p\<lparr>pg_private := order\<rparr>]\<rparr>)))))))"
  by pat_completeness auto
termination
  by (relation "measure (\<lambda>(g, ord, i, s). MAX_NR_ZONES - i)") (auto dest: find_zone_ge)

declare alloc_from.simps [simp del]

definition alloc_pages :: "u64 \<Rightarrow> u64 \<Rightarrow> 'a mm_state_scheme \<Rightarrow> (nat option \<times> 'a mm_state_scheme) outcome" where
  "alloc_pages gfp_mask order s =
     (if MAX_PAGE_ORDER < order then Done (None, s) else alloc_from gfp_mask order 0 s)"

text \<open>\<^verbatim>\<open>__get_free_pages\<close>: the pointer is converted whether or not it is \<^verbatim>\<open>NULL\<close>.\<close>

definition get_free_pages :: "u64 \<Rightarrow> u64 \<Rightarrow> 'a mm_state_scheme \<Rightarrow> (u64 \<times> 'a mm_state_scheme) outcome" where
  "get_free_pages gfp_mask order s =
     (if MAX_PAGE_ORDER < order then Done (0, s)
      else obind (alloc_from gfp_mask order 0 s) (\<lambda>(pg, s'). Done (page_to_virt s' pg, s')))"

definition zone_inc :: "nat option \<Rightarrow> 'a mm_state_scheme \<Rightarrow> 'a mm_state_scheme outcome" where
  "zone_inc zp s =
     (case zp of
        None \<Rightarrow> Fault
      | Some i \<Rightarrow> obind (aget (zones s) i) (\<lambda>z. Done (set_zone i (z\<lparr>free_pages_z := free_pages_z z + 1\<rparr>) s)))"

fun free_loop :: "nat option \<Rightarrow> nat \<Rightarrow> nat list \<Rightarrow> 'a mm_state_scheme \<Rightarrow> 'a mm_state_scheme outcome" where
  "free_loop zone pg [] s = Done s"
| "free_loop zone pg (i # is) s =
     obind (aget (mem_map s) (pg + i)) (\<lambda>p.
       let s1 = (if pg_count p = 0
                 then say ''free_pages fail <page-counter error> at page[%d]\<newline>'' [ArgInt (of_nat pg)] s
                 else s);
           c = pg_count p - 1;
           s2 = s1\<lparr>mem_map := (mem_map s1)[pg + i := p\<lparr>pg_count := c\<rparr>]\<rparr>
       in if c = 0 then obind (zone_inc zone s2) (free_loop zone pg is)
          else free_loop zone pg is s2)"

text \<open>\<^verbatim>\<open>__free_pages\<close>.\<close>

definition free_block :: "nat option \<Rightarrow> u64 \<Rightarrow> 'a mm_state_scheme \<Rightarrow> 'a mm_state_scheme outcome" where
  "free_block page order s =
     (case page of
        None \<Rightarrow> Done s
      | Some pg \<Rightarrow>
          if MAX_PAGE_ORDER < order then Done s
          else obind (aget (mem_map s) pg) (\<lambda>p.
            if pg_count p = 0
            then Done (say ''free-pages fail. page[%x] is not allocated pages.\<newline>''
                         [ArgInt (page_ptr s page)] s)
            else if pg_private p \<noteq> order
            then Done (say ''allocate-order is not same to free-order for page[%d]!!\<newline>''
                         [ArgInt (of_nat pg)] s)
            else obind (free_loop (pg_zone p) pg [0..<2 ^ unat order] s) (\<lambda>s1.
                 obind (aget (mem_map s1) pg) (\<lambda>p1.
                 Done (if pg_count p1 = 0
                       then s1\<lparr>mem_map := (mem_map s1)[pg := p1\<lparr>pg_private := - 1\<rparr>]\<rparr>
                       else s1)))))"

definition free_pages :: "u64 \<Rightarrow> u64 \<Rightarrow> 'a mm_state_scheme \<Rightarrow> 'a mm_state_scheme outcome" where
  "free_pages addr order s =
     (if MAX_PAGE_ORDER < order then Done s else free_block (Some (virt_to_page addr)) order s)"

subsection \<open>Runs of free pages\<close>

definition run_free :: "page list \<Rightarrow> nat \<Rightarrow> nat \<Rightarrow> bool" where
  "run_free m f c \<longleftrightarrow> f + c \<le> length m \<and> (\<forall>j<c. pg_count (m ! (f + j)) = 0)"

lemma run_free_nth: "run_free m f c \<Longrightarrow> f \<le> i \<Longrightarrow> i < f + c \<Longrightarrow> pg_count (m ! i) = 0"
  unfolding run_free_def by (metis add_diff_cancel_left' add_less_cancel_left le_Suc_ex)

lemma run_free_bound:
  "\<forall>j<c. f + j < length m \<Longrightarrow> f < length m \<Longrightarrow> f + c \<le> length m"
  by (cases c) auto

lemma free_run_Done:
  assumes "free_run m f c l = Done k" and "l \<le> c"
  shows "l \<le> k \<and> k \<le> c \<and> (\<forall>j. l \<le> j \<and> j < k \<longrightarrow> f + j < length m \<and> pg_count (m ! (f + j)) = 0) \<and>
    (k < c \<longrightarrow> f + k < length m \<and> pg_count (m ! (f + k)) \<noteq> 0)"
  using assms
proof (induction m f c l rule: free_run.induct)
  case (1 m f c l)
  show ?case
  proof (cases "l < c \<and> f + l < length m \<and> pg_count (m ! (f + l)) = 0")
    case True
    then have "free_run m f c (Suc l) = Done k"
      using 1(2) by (subst (asm) free_run.simps) (simp add: outcome_simps)
    then show ?thesis using 1(1) [of "m ! (f + l)"] True
      by (auto simp: outcome_simps word_gt_0) (metis Suc_leI le_neq_implies_less)+
  next
    case False
    then show ?thesis using 1(2,3)
      by (subst (asm) free_run.simps) (auto split: if_splits simp: word_gt_0)
  qed
qed

lemma free_run_total: "f + c \<le> length m \<Longrightarrow> \<exists>k. free_run m f c l = Done k"
proof (induction m f c l rule: free_run.induct)
  case (1 m f c l)
  then show ?case by (subst free_run.simps) (auto simp: outcome_simps)
qed

lemma free_run_not_Halt: "free_run m f c l \<noteq> Halt"
proof (induction m f c l rule: free_run.induct)
  case (1 m f c l)
  then show ?case by (subst free_run.simps) (auto simp: aget_def)
qed

lemma free_run_all: "run_free m f c \<Longrightarrow> free_run m f c 0 = Done c"
  using free_run_total [of f c m 0] free_run_Done [of m f c 0]
  by (force simp: run_free_def)

text \<open>
  The scan over the zone: the block it returns is the first run of \<open>c\<close> free pages, and it
  does return whenever there is one.
\<close>

lemma free_run_skip:
  assumes "free_run m f c 0 = Done k" and "k \<noteq> c" and "f \<le> g" and "g \<le> f + k"
  shows "\<not> run_free m g c"
proof
  assume "run_free m g c"
  moreover have "k < c" "pg_count (m ! (f + k)) \<noteq> 0"
    using free_run_Done [OF assms(1)] assms(2) by auto
  ultimately show False using run_free_nth [of m g c "f + k"] assms(3,4) by simp
qed

definition first_fit :: "page list \<Rightarrow> nat \<Rightarrow> nat \<Rightarrow> nat \<Rightarrow> nat \<Rightarrow> nat option \<Rightarrow> bool" where
  "first_fit m zm pages c first r =
     (case r of
        Some f \<Rightarrow> first \<le> f \<and> f < pages \<and> run_free m (zm + f) c \<and>
                  (\<forall>g. first \<le> g \<and> g < f \<longrightarrow> \<not> run_free m (zm + g) c)
      | None \<Rightarrow> \<forall>g. first \<le> g \<and> g < pages \<longrightarrow> \<not> run_free m (zm + g) c)"

lemma first_fit_skip:
  assumes "first_fit m zm pages c (Suc (first + k)) r"
    and "\<And>g. first \<le> g \<Longrightarrow> g \<le> first + k \<Longrightarrow> \<not> run_free m (zm + g) c"
  shows "first_fit m zm pages c first r"
  using assms unfolding first_fit_def
  by (auto split: option.splits) (metis Suc_leI not_less_eq_eq)+

lemma find_run_Done:
  assumes "find_run m zm pages c first = Done r" and "0 < c"
  shows "first_fit m zm pages c first r"
  using assms
proof (induction m zm pages c first rule: find_run.induct)
  case (1 m zm pages c first)
  show ?case
  proof (cases "first < pages")
    case False
    then show ?thesis using 1(3) by (subst (asm) find_run.simps) (auto simp: first_fit_def)
  next
    case in_zone: True
    then have idx: "zm + first < length m"
      using 1(3) by (subst (asm) find_run.simps) (auto simp: outcome_simps)
    note step = 1(3) [unfolded find_run.simps [of m zm pages c first]]
    show ?thesis
    proof (cases "pg_count (m ! (zm + first)) = 0")
      case False
      then have "find_run m zm pages c (Suc first) = Done r"
        using step in_zone idx by (simp add: outcome_simps)
      then have "first_fit m zm pages c (Suc (first + 0)) r"
        using 1(1) [OF in_zone aget_in [OF idx] False _ 1(4)] by simp
      then show ?thesis
        by (rule first_fit_skip) (use False \<open>0 < c\<close> in \<open>auto simp: run_free_def dest: le_antisym\<close>)
    next
      case True
      then obtain k where k: "free_run m (zm + first) c 0 = Done k"
        using step in_zone idx by (auto simp: outcome_simps)
      show ?thesis
      proof (cases "k = c")
        case True
        then show ?thesis using step in_zone idx k \<open>pg_count _ = 0\<close> free_run_Done [OF k]
            run_free_bound [of c "zm + first" m]
          by (auto simp: outcome_simps first_fit_def run_free_def)
      next
        case False
        then have "find_run m zm pages c (Suc (first + k)) = Done r"
          using step in_zone idx k True by (simp add: outcome_simps)
        then have "first_fit m zm pages c (Suc (first + k)) r"
          using 1(2) [OF in_zone aget_in [OF idx] _ k False _ 1(4)] True by simp
        then show ?thesis
          by (rule first_fit_skip) (use free_run_skip [OF k False] in simp)
      qed
    qed
  qed
qed

lemma find_run_total:
  assumes "first \<le> g" and "g < pages" and "run_free m (zm + g) c" and "0 < c"
  shows "\<exists>f. find_run m zm pages c first = Done (Some f)"
  using assms
proof (induction m zm pages c first rule: find_run.induct)
  case (1 m zm pages c first)
  have idx: "zm + first < length m" and run: "zm + first + c \<le> length m"
    using 1(3-6) by (auto simp: run_free_def)
  obtain k where k: "free_run m (zm + first) c 0 = Done k" using free_run_total [OF run] by blast
  have in_zone: "first < pages" using 1(3,4) by simp
  show ?case
  proof (cases "pg_count (m ! (zm + first)) = 0")
    case False
    then have "first \<noteq> g" using 1(5,6) by (auto simp: run_free_def)
    then show ?thesis using 1(1) [OF in_zone aget_in [OF idx] False] 1(3-6) in_zone idx False
      by (subst find_run.simps) (simp add: outcome_simps)
  next
    case True
    have "k \<noteq> c \<Longrightarrow> Suc (first + k) \<le> g"
      using free_run_skip [OF k, of "zm + g"] 1(3,5) by (auto simp: not_less_eq_eq [symmetric])
    then show ?thesis using 1(2) [OF in_zone aget_in [OF idx] _ k] 1(4-6) in_zone idx True k
      by (subst find_run.simps) (auto simp: outcome_simps)
  qed
qed

text \<open>
  With no run left, the scan stops at the end of the zone only if the last page is in use;
  otherwise its inner loop reads the descriptor behind the table.
\<close>

lemma free_run_guarded:
  assumes "pg_count (m ! (length m - 1)) \<noteq> 0" and "f + l < length m"
  shows "free_run m f c l \<noteq> Fault"
  using assms
proof (induction m f c l rule: free_run.induct)
  case (1 m f c l)
  have "pg_count (m ! (f + l)) = 0 \<Longrightarrow> Suc (f + l) < length m"
    using 1(2,3) by (metis Suc_lessI diff_Suc_1)
  then show ?case using 1
    by (subst free_run.simps) (auto simp: outcome_simps word_gt_0)
qed

lemma find_run_guarded:
  assumes "pg_count (m ! (length m - 1)) \<noteq> 0"
  shows "\<exists>r. find_run m 0 (length m) c first = Done r"
  using assms
proof (induction m "0 :: nat" "length m" c first rule: find_run.induct)
  case (1 m c first)
  show ?case
  proof (cases "first < length m \<and> pg_count (m ! first) = 0")
    case True
    then obtain k where "free_run m first c 0 = Done k"
      using free_run_guarded [of m first 0 c] free_run_not_Halt [of m first c 0] 1(3)
      by (cases "free_run m first c 0") auto
    then show ?thesis using 1(2) [of "m ! first" k] 1(3) True
      by (subst find_run.simps) (auto simp: outcome_simps)
  next
    case False
    then show ?thesis using 1(1) [of "m ! first"] 1(3)
      by (subst find_run.simps) (auto simp: outcome_simps)
  qed
qed

lemma find_run_overrun:
  assumes "\<And>g. \<not> run_free m g c" and "pg_count (m ! (length m - 1)) = 0" and "first < length m"
  shows "find_run m 0 (length m) c first = Fault"
  using assms
proof (induction m "0 :: nat" "length m" c first rule: find_run.induct)
  case (1 m c first)
  have busy: "j < length m \<Longrightarrow> pg_count (m ! j) \<noteq> 0 \<Longrightarrow> Suc j < length m" for j
    using 1(4) by (metis Suc_lessI diff_Suc_1)
  show ?case
  proof (cases "pg_count (m ! first) = 0")
    case False
    then show ?thesis using 1(1) [of "m ! first"] 1(3-5) busy [of first]
      by (subst find_run.simps) (simp add: outcome_simps)
  next
    case free: True
    show ?thesis
    proof (cases "free_run m first c 0")
      case (Done k)
      have "k \<noteq> c"
        using free_run_Done [OF Done] run_free_bound [of c first m] 1(3,5) by (auto simp: run_free_def)
      moreover have "Suc (first + k) < length m"
        using free_run_Done [OF Done] busy [of "first + k"] \<open>k \<noteq> c\<close> by auto
      ultimately show ?thesis using 1(2) [of "m ! first" k] 1(3-5) free Done
        by (subst find_run.simps) (simp add: outcome_simps)
    next
      case Halt
      then show ?thesis using free_run_not_Halt by blast
    next
      case Fault
      then show ?thesis using 1(5) free by (subst find_run.simps) (simp add: outcome_simps)
    qed
  qed
qed

subsection \<open>What an allocation does\<close>

lemma take_pages_ok:
  assumes "\<forall>l\<in>set ls. f + l < length m"
  shows "\<exists>m'. take_pages gm f ls m = Done m' \<and> length m' = length m \<and>
    (\<forall>i<length m. m' ! i = (if f \<le> i \<and> i - f \<in> set ls
       then (m ! i)\<lparr>pg_count := 1, pg_flags := gm\<rparr> else m ! i))"
  using assms
proof (induction ls arbitrary: m)
  case Nil
  then show ?case by simp
next
  case (Cons l ls)
  let ?m = "m[f + l := (m ! (f + l))\<lparr>pg_count := 1, pg_flags := gm\<rparr>]"
  obtain m' where "take_pages gm f ls ?m = Done m'" "length m' = length ?m"
    "\<forall>i<length ?m. m' ! i = (if f \<le> i \<and> i - f \<in> set ls
       then (?m ! i)\<lparr>pg_count := 1, pg_flags := gm\<rparr> else ?m ! i)"
    using Cons.IH [of ?m] Cons.prems by auto
  then show ?case
    using Cons.prems by (auto simp: outcome_simps nth_list_update)
qed

text \<open>Descriptor \<open>i\<close> after a block of \<open>2 ^ order\<close> pages was taken at \<open>f\<close>.\<close>

definition taken :: "u64 \<Rightarrow> u64 \<Rightarrow> nat \<Rightarrow> nat \<Rightarrow> page \<Rightarrow> page" where
  "taken gm order f i p =
     (if i = f then p\<lparr>pg_count := 1, pg_flags := gm, pg_private := order\<rparr>
      else if f < i \<and> i < f + 2 ^ unat order then p\<lparr>pg_count := 1, pg_flags := gm\<rparr>
      else p)"

lemma unat_count: "order \<le> MAX_PAGE_ORDER \<Longrightarrow> unat (push_bit (unat order) 1 :: u64) = 2 ^ unat order"
proof -
  assume "order \<le> MAX_PAGE_ORDER"
  then have "unat order \<le> 5" by (simp add: kconst word_le_nat_alt)
  then have "(2::nat) ^ unat order < 2 ^ 64" by (intro power_strict_increasing) auto
  then show ?thesis using unat_push_bit_u64 [of 1 "unat order"] by simp
qed

lemma pow_order_le: "order \<le> MAX_PAGE_ORDER \<Longrightarrow> (2::nat) ^ unat order \<le> 32"
proof -
  assume "order \<le> MAX_PAGE_ORDER"
  then have "unat order \<le> 5" by (simp add: kconst word_le_nat_alt)
  then have "(2::nat) ^ unat order \<le> 2 ^ 5" by (intro power_increasing) auto
  then show ?thesis by simp
qed


definition took :: "u64 \<Rightarrow> u64 \<Rightarrow> nat \<Rightarrow> page list \<Rightarrow> page list" where
  "took gm order f m = map (\<lambda>i. taken gm order f i (m ! i)) [0..<length m]"

lemma took_nth [simp]: "i < length m \<Longrightarrow> took gm order f m ! i = taken gm order f i (m ! i)"
  and took_length [simp]: "length (took gm order f m) = length m"
  by (simp_all add: took_def)

lemma take_block:
  assumes "f + 2 ^ unat order \<le> length m"
  shows "\<exists>m'. take_pages gm f [0..<2 ^ unat order] m = Done m' \<and> f < length m' \<and>
    m'[f := (m' ! f)\<lparr>pg_private := order\<rparr>] = took gm order f m"
proof -
  obtain m' where m': "take_pages gm f [0..<2 ^ unat order] m = Done m'" "length m' = length m"
    "\<forall>i<length m. m' ! i = (if f \<le> i \<and> i - f \<in> set [0..<2 ^ unat order]
       then (m ! i)\<lparr>pg_count := 1, pg_flags := gm\<rparr> else m ! i)"
    using take_pages_ok [of "[0..<2 ^ unat order]" f m gm] assms by auto
  have "m'[f := (m' ! f)\<lparr>pg_private := order\<rparr>] ! i = took gm order f m ! i" if "i < length m" for i
    using m'(2,3) that by (auto simp: nth_list_update taken_def)
  then have "m'[f := (m' ! f)\<lparr>pg_private := order\<rparr>] = took gm order f m"
    by (intro nth_equalityI) (simp_all add: m')
  moreover have "f < length m'" using assms m'(2) by (simp add: order_less_le_trans [of f "f + 2 ^ unat order"])
  ultimately show ?thesis using m' by blast
qed

text \<open>The state after a block was taken from zone 0.\<close>

definition alloc_at :: "u64 \<Rightarrow> u64 \<Rightarrow> nat \<Rightarrow> 'a mm_state_scheme \<Rightarrow> 'a mm_state_scheme" where
  "alloc_at gm order f s =
     set_zone 0 ((zones s ! 0)\<lparr>free_pages_z := free_pages_z (zones s ! 0) - 2 ^ unat order\<rparr>)
       (s\<lparr>mem_map := took gm order f (mem_map s)\<rparr>)"

lemma alloc_from_end: "1 \<le> i \<Longrightarrow> alloc_from gm order i s = Done (None, s)"
  by (subst alloc_from.simps, subst find_zone.simps) (simp add: kconst)

text \<open>The four ways an allocation can end.\<close>

lemma alloc_pages_cases:
  assumes inv: "mm_inv s" and order: "order \<le> MAX_PAGE_ORDER"
  shows "free_count (mem_map s) \<le> 2 ^ unat order \<Longrightarrow> alloc_pages gm order s = Done (None, s)"
    and "2 ^ unat order < free_count (mem_map s) \<Longrightarrow> run_free (mem_map s) g (2 ^ unat order) \<Longrightarrow>
      \<exists>f\<le>g. alloc_pages gm order s = Done (Some f, alloc_at gm order f s) \<and>
        run_free (mem_map s) f (2 ^ unat order) \<and>
        (\<forall>h<f. \<not> run_free (mem_map s) h (2 ^ unat order))"
    and "2 ^ unat order < free_count (mem_map s) \<Longrightarrow> \<forall>g. \<not> run_free (mem_map s) g (2 ^ unat order) \<Longrightarrow>
      alloc_pages gm order s =
        (if pg_count (mem_map s ! (length (mem_map s) - 1)) = 0 then Fault else Done (None, s))"
proof -
  obtain z where z: "zones s = [z]" "zone_mem_map z = 0" "unat (zone_pages z) = length (mem_map s)"
    "unat (free_pages_z z) = free_count (mem_map s)"
    using inv by (rule mm_invE) blast
  define c :: nat where "c = 2 ^ unat order"
  have c: "unat (push_bit (unat order) 1 :: u64) = c" "0 < c" "(push_bit (unat order) 1 :: u64) = 2 ^ unat order"
    using unat_count [OF order] by (simp_all add: c_def push_bit_eq_mult)
  have fz: "find_zone (zones s) (push_bit (unat order) 1) 0 = Done (if c < free_count (mem_map s) then 0 else 1)"
    using z c by (subst find_zone.simps, subst find_zone.simps) (simp add: kconst outcome_simps word_less_nat_alt)
  have alloc: "alloc_pages gm order s = alloc_from gm order 0 s"
    using order by (auto simp: alloc_pages_def)
  show "alloc_pages gm order s = Done (None, s)" if "free_count (mem_map s) \<le> 2 ^ unat order"
    using that fz by (simp add: alloc alloc_from.simps [of _ _ 0] Let_def c_def kconst)
  note step = alloc_from.simps [of gm order 0 s, unfolded Let_def fz c(1)]
  show "\<exists>f\<le>g. alloc_pages gm order s = Done (Some f, alloc_at gm order f s) \<and>
      run_free (mem_map s) f (2 ^ unat order) \<and> (\<forall>h<f. \<not> run_free (mem_map s) h (2 ^ unat order))"
    if enough: "2 ^ unat order < free_count (mem_map s)" and run: "run_free (mem_map s) g (2 ^ unat order)"
  proof -
    have "g < length (mem_map s)" using run c(2) by (simp add: run_free_def c_def [symmetric])
    then obtain f where f: "find_run (mem_map s) 0 (length (mem_map s)) c 0 = Done (Some f)"
      using find_run_total [of 0 g "length (mem_map s)" "mem_map s" 0 c] run c by (auto simp: c_def)
    have ff: "run_free (mem_map s) f c" "\<forall>h<f. \<not> run_free (mem_map s) h c"
      using find_run_Done [OF f c(2)] by (auto simp: first_fit_def)
    then obtain m' where m': "take_pages gm f [0..<c] (mem_map s) = Done m'" "f < length m'"
      "m'[f := (m' ! f)\<lparr>pg_private := order\<rparr>] = took gm order f (mem_map s)"
      using take_block [of f order "mem_map s" gm] by (auto simp: run_free_def c_def)
    have "alloc_pages gm order s = Done (Some f, alloc_at gm order f s)"
      using z f m' enough c(3) unfolding alloc step
      by (simp add: c_def [symmetric] kconst outcome_simps alloc_at_def set_zone_def)
    moreover have "f \<le> g" using ff(2) run by (auto simp: c_def not_less [symmetric])
    ultimately show ?thesis using ff by (auto simp: c_def)
  qed
  show "alloc_pages gm order s =
        (if pg_count (mem_map s ! (length (mem_map s) - 1)) = 0 then Fault else Done (None, s))"
    if enough: "2 ^ unat order < free_count (mem_map s)"
      and none: "\<forall>g. \<not> run_free (mem_map s) g (2 ^ unat order)"
  proof (cases "pg_count (mem_map s ! (length (mem_map s) - 1)) = 0")
    case True
    have "0 < length (mem_map s)" using enough free_count_le [of "mem_map s"] by linarith
    then have "find_run (mem_map s) 0 (length (mem_map s)) c 0 = Fault"
      using none True by (intro find_run_overrun) (auto simp: c_def)
    then show ?thesis using z enough True unfolding alloc step
      by (simp add: c_def [symmetric] kconst outcome_simps)
  next
    case False
    then obtain r where r: "find_run (mem_map s) 0 (length (mem_map s)) c 0 = Done r"
      using find_run_guarded by blast
    then have "r = None"
      using find_run_Done [OF r c(2)] none by (auto simp: first_fit_def c_def split: option.splits)
    then show ?thesis using z enough False r unfolding alloc step
      by (simp add: c_def [symmetric] kconst outcome_simps alloc_from_end)
  qed
qed

subsection \<open>The set of free frames\<close>

definition free_set :: "page list \<Rightarrow> nat set" where
  "free_set m = {i. i < length m \<and> pg_count (m ! i) = 0}"

definition block :: "nat \<Rightarrow> u64 \<Rightarrow> nat set" where
  "block f order = {f..<f + 2 ^ unat order}"

lemma finite_free_set [simp]: "finite (free_set m)"
  by (simp add: free_set_def)

lemma free_count_card: "free_count m = card (free_set m)"
proof -
  have "free_set m = set (filter (\<lambda>i. pg_count (m ! i) = 0) [0..<length m])"
    by (auto simp: free_set_def)
  moreover have "distinct (filter (\<lambda>i. pg_count (m ! i) = 0) [0..<length m])" by simp
  ultimately show ?thesis by (simp add: free_count_index distinct_card del: set_filter)
qed

lemma card_block [simp]: "card (block f order) = 2 ^ unat order"
  and finite_block [simp]: "finite (block f order)"
  and block_start [simp]: "f \<in> block f order"
  by (simp_all add: block_def)

lemma run_free_subset: "run_free m f (2 ^ unat order) \<longleftrightarrow> block f order \<subseteq> free_set m"
proof
  show "run_free m f (2 ^ unat order) \<Longrightarrow> block f order \<subseteq> free_set m"
    by (auto simp: block_def free_set_def run_free_nth) (simp add: run_free_def)
  assume sub: "block f order \<subseteq> free_set m"
  then have "j < 2 ^ unat order \<Longrightarrow> f + j < length m \<and> pg_count (m ! (f + j)) = 0" for j
    using subsetD [OF sub, of "f + j"] by (simp add: block_def free_set_def)
  moreover have "f < length m" using subsetD [OF sub block_start] by (simp add: free_set_def)
  ultimately show "run_free m f (2 ^ unat order)"
    using run_free_bound [of "2 ^ unat order" f m] by (auto simp: run_free_def)
qed

lemma free_set_took: "free_set (took gm order f m) = free_set m - block f order"
  by (auto simp: free_set_def block_def taken_def split: if_splits)

lemma alloc_at_simps [simp]:
  "mem_map (alloc_at gm order f s) = took gm order f (mem_map s)"
  "mem_map_base (alloc_at gm order f s) = mem_map_base s"
  "lists (alloc_at gm order f s) = lists s"
  "klog (alloc_at gm order f s) = klog s"
  by (simp_all add: alloc_at_def set_zone_def)

lemma alloc_at_inv:
  assumes inv: "mm_inv s" and order: "order \<le> MAX_PAGE_ORDER" and sub: "block f order \<subseteq> free_set (mem_map s)"
  shows "mm_inv (alloc_at gm order f s)"
proof -
  obtain z where z: "zones s = [z]" "zone_mem_map z = 0" "unat (zone_pages z) = length (mem_map s)"
    "unat (free_pages_z z) = free_count (mem_map s)" "length (mem_map s) < 2 ^ 32"
    "\<And>i. i < length (mem_map s) \<Longrightarrow> pg_zone (mem_map s ! i) = Some 0"
    using inv by (rule mm_invE) blast
  have u: "unat (2 ^ unat order :: u64) = 2 ^ unat order"
    using unat_count [OF order] by (simp add: push_bit_eq_mult)
  have "card (block f order) \<le> free_count (mem_map s)"
    unfolding free_count_card by (rule card_mono) (simp_all add: sub)
  then have "(2 ^ unat order :: u64) \<le> free_pages_z z" by (simp add: word_le_nat_alt u z)
  then have "unat (free_pages_z z - 2 ^ unat order) = free_count (took gm order f (mem_map s))"
    using sub by (simp add: unat_sub_u64 u z free_count_card free_set_took card_Diff_subset)
  then show ?thesis
    by (intro mm_invI [of _ "z\<lparr>free_pages_z := free_pages_z z - 2 ^ unat order\<rparr>"])
      (use z in \<open>auto simp: alloc_at_def set_zone_def taken_def\<close>)
qed

subsection \<open>What a release does\<close>

definition freed :: "u64 \<Rightarrow> nat \<Rightarrow> nat \<Rightarrow> page \<Rightarrow> page" where
  "freed order f i p =
     (if i = f then p\<lparr>pg_count := 0, pg_private := - 1\<rparr>
      else if f < i \<and> i < f + 2 ^ unat order then p\<lparr>pg_count := 0\<rparr>
      else p)"

definition gave :: "u64 \<Rightarrow> nat \<Rightarrow> page list \<Rightarrow> page list" where
  "gave order f m = map (\<lambda>i. freed order f i (m ! i)) [0..<length m]"

lemma gave_nth [simp]: "i < length m \<Longrightarrow> gave order f m ! i = freed order f i (m ! i)"
  and gave_length [simp]: "length (gave order f m) = length m"
  by (simp_all add: gave_def)

definition free_at :: "u64 \<Rightarrow> nat \<Rightarrow> 'a mm_state_scheme \<Rightarrow> 'a mm_state_scheme" where
  "free_at order f s =
     set_zone 0 ((zones s ! 0)\<lparr>free_pages_z := free_pages_z (zones s ! 0) + 2 ^ unat order\<rparr>)
       (s\<lparr>mem_map := gave order f (mem_map s)\<rparr>)"

lemma free_at_simps [simp]:
  "mem_map (free_at order f s) = gave order f (mem_map s)"
  "mem_map_base (free_at order f s) = mem_map_base s"
  "lists (free_at order f s) = lists s"
  "klog (free_at order f s) = klog s"
  by (simp_all add: free_at_def set_zone_def)

text \<open>A block that an allocation of this order handed out.\<close>

definition allocated :: "page list \<Rightarrow> nat \<Rightarrow> u64 \<Rightarrow> bool" where
  "allocated m f order \<longleftrightarrow> order \<le> MAX_PAGE_ORDER \<and> f + 2 ^ unat order \<le> length m \<and>
     pg_private (m ! f) = order \<and> (\<forall>j<2 ^ unat order. pg_count (m ! (f + j)) = 1)"

lemma free_loop_ok:
  assumes "zones s = [z]" and "distinct is"
    and "\<forall>i\<in>set is. pg + i < length (mem_map s) \<and> pg_count (mem_map s ! (pg + i)) = 1"
  shows "free_loop (Some 0) pg is s =
    Done (set_zone 0 (z\<lparr>free_pages_z := free_pages_z z + of_nat (length is)\<rparr>)
      (s\<lparr>mem_map := fold (\<lambda>l m. m[l := (m ! l)\<lparr>pg_count := 0\<rparr>]) (map ((+) pg) is) (mem_map s)\<rparr>))"
  using assms
proof (induction "is" arbitrary: s z)
  case Nil
  then show ?case by (simp add: set_zone_def)
next
  case (Cons i "is")
  let ?p = "(mem_map s ! (pg + i))\<lparr>pg_count := 0\<rparr>"
  let ?s = "set_zone 0 (z\<lparr>free_pages_z := free_pages_z z + 1\<rparr>) (s\<lparr>mem_map := (mem_map s)[pg + i := ?p]\<rparr>)"
  have "\<forall>j\<in>set is. pg + j < length (mem_map ?s) \<and> pg_count (mem_map ?s ! (pg + j)) = 1"
    and "zones ?s = [z\<lparr>free_pages_z := free_pages_z z + 1\<rparr>]" and "distinct is"
    using Cons.prems by (auto simp: set_zone_def nth_list_update)
  then have "free_loop (Some 0) pg is ?s =
    Done (set_zone 0 (z\<lparr>free_pages_z := free_pages_z z + 1 + of_nat (length is)\<rparr>)
      (?s\<lparr>mem_map := fold (\<lambda>l m. m[l := (m ! l)\<lparr>pg_count := 0\<rparr>]) (map ((+) pg) is) (mem_map ?s)\<rparr>))"
    using Cons.IH [of ?s "z\<lparr>free_pages_z := free_pages_z z + 1\<rparr>"] by simp
  then show ?case using Cons.prems
    by (simp add: outcome_simps zone_inc_def set_zone_def Let_def add.assoc)
qed

lemma free_block_ok:
  assumes inv: "mm_inv s" and a: "allocated (mem_map s) f order"
  shows "free_block (Some f) order s = Done (free_at order f s)"
proof -
  obtain z where z: "zones s = [z]" "\<And>i. i < length (mem_map s) \<Longrightarrow> pg_zone (mem_map s ! i) = Some 0"
    using inv by (rule mm_invE) blast
  define c :: nat where "c = 2 ^ unat order"
  have c: "0 < c" "f + c \<le> length (mem_map s)" "pg_private (mem_map s ! f) = order"
    "\<And>j. j < c \<Longrightarrow> pg_count (mem_map s ! (f + j)) = 1" "\<not> MAX_PAGE_ORDER < order"
    using a by (auto simp: allocated_def c_def)
  define m where "m = fold (\<lambda>l m. m[l := (m ! l)\<lparr>pg_count := 0\<rparr>]) (map ((+) f) [0..<c]) (mem_map s)"
  have m: "length m = length (mem_map s)"
    "\<And>i. i < length (mem_map s) \<Longrightarrow>
      m ! i = (if i \<in> set (map ((+) f) [0..<c]) then (mem_map s ! i)\<lparr>pg_count := 0\<rparr> else mem_map s ! i)"
    using fold_set_zone [of "map ((+) f) [0..<c]" "mem_map s" "\<lambda>p. p\<lparr>pg_count := 0\<rparr>"] c
    by (auto simp: m_def distinct_map)
  have img: "i \<in> set (map ((+) f) [0..<c]) \<longleftrightarrow> f \<le> i \<and> i < f + c" for i
    by (auto simp: image_iff Bex_def intro: exI [of _ "i - f"])
  have loop: "free_loop (Some 0) f [0..<c] s =
      Done (set_zone 0 (z\<lparr>free_pages_z := free_pages_z z + of_nat c\<rparr>) (s\<lparr>mem_map := m\<rparr>))"
    using free_loop_ok [OF z(1), of "[0..<c]" f] c by (auto simp: m_def)
  have f: "f < length (mem_map s)" using c by simp
  then have mf: "m ! f = (mem_map s ! f)\<lparr>pg_count := 0\<rparr>" using m(2) [OF f] c(1) img [of f] by simp
  have "m[f := (m ! f)\<lparr>pg_private := - 1\<rparr>] ! i = gave order f (mem_map s) ! i" if "i < length m" for i
    using that m mf by (auto simp: img nth_list_update freed_def c_def [symmetric] simp del: set_map)
  then have "m[f := (m ! f)\<lparr>pg_private := - 1\<rparr>] = gave order f (mem_map s)"
    by (intro nth_equalityI) (simp_all add: m)
  then show ?thesis
    using f z c(3,5) c(4) [of 0] c(1) mf m(1)
    by (simp add: free_block_def c_def [symmetric] loop outcome_simps free_at_def set_zone_def)
      (simp add: c_def)
qed

lemma allocated_block: "allocated m f order \<Longrightarrow> block f order \<inter> free_set m = {}"
  by (auto simp: allocated_def block_def free_set_def)
    (metis add_diff_cancel_left' add_less_cancel_left le_Suc_ex zero_neq_one)

lemma allocated_in_range: "allocated m f order \<Longrightarrow> i \<in> block f order \<Longrightarrow> i < length m"
  by (auto simp: allocated_def block_def)

lemma free_set_gave:
  assumes "allocated m f order"
  shows "free_set (gave order f m) = free_set m \<union> block f order"
proof -
  have "i \<in> block f order \<Longrightarrow> i \<in> free_set (gave order f m)" for i
    using allocated_in_range [OF assms, of i] by (auto simp: free_set_def freed_def block_def)
  then show ?thesis
    by (auto simp: free_set_def freed_def block_def split: if_splits)
qed

lemma free_at_inv:
  assumes inv: "mm_inv s" and a: "allocated (mem_map s) f order"
  shows "mm_inv (free_at order f s)"
proof -
  obtain z where z: "zones s = [z]" "zone_mem_map z = 0" "unat (zone_pages z) = length (mem_map s)"
    "unat (free_pages_z z) = free_count (mem_map s)" "length (mem_map s) < 2 ^ 32"
    "\<And>i. i < length (mem_map s) \<Longrightarrow> pg_zone (mem_map s ! i) = Some 0"
    using inv by (rule mm_invE) blast
  have order: "order \<le> MAX_PAGE_ORDER" using a by (simp add: allocated_def)
  have u: "unat (2 ^ unat order :: u64) = 2 ^ unat order"
    using unat_count [OF order] by (simp add: push_bit_eq_mult)
  have "unat (free_pages_z z + 2 ^ unat order) = free_count (mem_map s) + 2 ^ unat order"
    using z pow_order_le [OF order] free_count_le [of "mem_map s"]
    by (subst unat_add_u64) (simp_all add: u)
  also have "\<dots> = free_count (gave order f (mem_map s))"
    using allocated_block [OF a]
    by (simp add: free_count_card free_set_gave [OF a] card_Un_disjoint Int_commute)
  finally show ?thesis
    by (intro mm_invI [of _ "z\<lparr>free_pages_z := free_pages_z z + 2 ^ unat order\<rparr>"])
      (use z in \<open>auto simp: free_at_def set_zone_def freed_def\<close>)
qed

lemma allocated_took:
  "order \<le> MAX_PAGE_ORDER \<Longrightarrow> block f order \<subseteq> free_set m \<Longrightarrow> allocated (took gm order f m) f order"
  unfolding run_free_subset [symmetric]
  by (auto simp: allocated_def run_free_def taken_def order_less_le_trans [of f "f + 2 ^ unat order"])

lemma allocated_cong:
  assumes "allocated m f order" and "length m' = length m"
    and "\<And>i. i \<in> block f order \<Longrightarrow> m' ! i = m ! i"
  shows "allocated m' f order"
  using assms by (auto simp: allocated_def block_def)

lemma allocated_took_other:
  assumes "allocated m g ord'" and "block f order \<subseteq> free_set m"
  shows "allocated (took gm order f m) g ord'"
proof (rule allocated_cong [OF assms(1)])
  fix i assume i: "i \<in> block g ord'"
  then have "i \<notin> block f order" using allocated_block [OF assms(1)] assms(2) by blast
  then show "took gm order f m ! i = m ! i"
    using allocated_in_range [OF assms(1) i] by (auto simp: taken_def block_def)
qed simp

lemma allocated_gave_other:
  assumes "allocated m g ord'" and "block f order \<inter> block g ord' = {}"
  shows "allocated (gave order f m) g ord'"
proof (rule allocated_cong [OF assms(1)])
  fix i assume i: "i \<in> block g ord'"
  then have "i \<notin> block f order" using assms(2) by blast
  then show "gave order f m ! i = m ! i"
    using allocated_in_range [OF assms(1) i] by (auto simp: freed_def block_def)
qed simp

subsection \<open>The interface of a frame allocator\<close>

text \<open>
  A history of a client: it requests blocks and gives back blocks it holds, in any order.
  \<open>history alloc release s hs s' hs'\<close>: from state \<open>s\<close> holding the blocks \<open>hs\<close> the client
  reaches \<open>s'\<close> holding \<open>hs'\<close>.
\<close>

inductive history ::
  "(u64 \<Rightarrow> 's \<Rightarrow> (nat option \<times> 's) outcome) \<Rightarrow> (nat option \<Rightarrow> u64 \<Rightarrow> 's \<Rightarrow> 's outcome) \<Rightarrow>
   's \<Rightarrow> (nat \<times> u64) set \<Rightarrow> 's \<Rightarrow> (nat \<times> u64) set \<Rightarrow> bool"
  for alloc release where
  start: "history alloc release s hs s hs"
| refused: "history alloc release s hs s1 hs1 \<Longrightarrow> alloc order s1 = Done (None, s2) \<Longrightarrow>
    history alloc release s hs s2 hs1"
| granted: "history alloc release s hs s1 hs1 \<Longrightarrow> alloc order s1 = Done (Some f, s2) \<Longrightarrow>
    history alloc release s hs s2 (insert (f, order) hs1)"
| given_back: "history alloc release s hs s1 hs1 \<Longrightarrow> (f, order) \<in> hs1 \<Longrightarrow>
    release (Some f) order s1 = Done s2 \<Longrightarrow> history alloc release s hs s2 (hs1 - {(f, order)})"

inductive_cases history_cases: "history alloc release s hs s' hs'"

definition held_frames :: "(nat \<times> u64) set \<Rightarrow> nat set" where
  "held_frames hs = (\<Union>(f, order)\<in>hs. block f order)"

locale frame_allocator =
  fixes alloc :: "u64 \<Rightarrow> 's \<Rightarrow> (nat option \<times> 's) outcome"
    and release :: "nat option \<Rightarrow> u64 \<Rightarrow> 's \<Rightarrow> 's outcome"
    and free_frames :: "'s \<Rightarrow> nat set"
    and held :: "'s \<Rightarrow> nat \<Rightarrow> u64 \<Rightarrow> bool"
    and invar :: "'s \<Rightarrow> bool"
  assumes refuse: "invar s \<Longrightarrow> alloc order s = Done (None, s') \<Longrightarrow> s' = s"
    and grant: "invar s \<Longrightarrow> alloc order s = Done (Some f, s') \<Longrightarrow>
      invar s' \<and> held s' f order \<and> block f order \<subseteq> free_frames s \<and>
      free_frames s' = free_frames s - block f order"
    and grant_keeps: "invar s \<Longrightarrow> alloc order s = Done (Some f, s') \<Longrightarrow> held s g ord' \<Longrightarrow> held s' g ord'"
    and held_busy: "invar s \<Longrightarrow> held s f order \<Longrightarrow> block f order \<inter> free_frames s = {}"
    and give_back: "invar s \<Longrightarrow> held s f order \<Longrightarrow>
      \<exists>s'. release (Some f) order s = Done s' \<and> invar s' \<and>
           free_frames s' = free_frames s \<union> block f order"
    and give_back_keeps: "invar s \<Longrightarrow> held s f order \<Longrightarrow> release (Some f) order s = Done s' \<Longrightarrow>
      held s g ord' \<Longrightarrow> block f order \<inter> block g ord' = {} \<Longrightarrow> held s' g ord'"
begin

text \<open>The client's view is right: its blocks are held, and no frame is in two of them.\<close>

definition consistent :: "'s \<Rightarrow> (nat \<times> u64) set \<Rightarrow> bool" where
  "consistent s hs \<longleftrightarrow> invar s \<and> (\<forall>f order. (f, order) \<in> hs \<longrightarrow> held s f order) \<and>
     (\<forall>f order g ord'. (f, order) \<in> hs \<longrightarrow> (g, ord') \<in> hs \<longrightarrow> (f, order) \<noteq> (g, ord') \<longrightarrow>
        block f order \<inter> block g ord' = {})"

lemma consistent_grant:
  assumes c: "consistent s hs" and a: "alloc order s = Done (Some f, s')"
  shows "consistent s' (insert (f, order) hs)"
    and "free_frames s' \<union> held_frames (insert (f, order) hs) = free_frames s \<union> held_frames hs"
proof -
  have inv: "invar s" using c by (simp add: consistent_def)
  note g = grant [OF inv a]
  have apart: "block g ord' \<inter> block f order = {}" if "(g, ord') \<in> hs" for g ord'
  proof -
    have "held s g ord'" using c that by (auto simp: consistent_def)
    from held_busy [OF inv this] g show ?thesis by blast
  qed
  show "consistent s' (insert (f, order) hs)"
    using c g apart grant_keeps [OF inv a] unfolding consistent_def by (auto simp: Int_commute)
  show "free_frames s' \<union> held_frames (insert (f, order) hs) = free_frames s \<union> held_frames hs"
    using g by (auto simp: held_frames_def)
qed

lemma consistent_give_back:
  assumes c: "consistent s hs" and h: "(f, order) \<in> hs" and r: "release (Some f) order s = Done s'"
  shows "consistent s' (hs - {(f, order)})"
    and "free_frames s' \<union> held_frames (hs - {(f, order)}) = free_frames s \<union> held_frames hs"
proof -
  have inv: "invar s" and hf: "held s f order" using c h by (auto simp: consistent_def)
  have g: "invar s'" "free_frames s' = free_frames s \<union> block f order"
    using give_back [OF inv hf] r by auto
  show "consistent s' (hs - {(f, order)})"
    unfolding consistent_def
  proof (intro conjI allI impI)
    show "held s' g ord'" if "(g, ord') \<in> hs - {(f, order)}" for g ord'
      using give_back_keeps [OF inv hf r] that c h unfolding consistent_def by (metis Diff_iff singletonI)
  qed (use c g in \<open>auto simp: consistent_def\<close>)
  show "free_frames s' \<union> held_frames (hs - {(f, order)}) = free_frames s \<union> held_frames hs"
    using g h by (auto simp: held_frames_def)
qed

text \<open>No history breaks the client's view, and no frame is lost or invented on the way.\<close>

lemma history_consistent:
  assumes "history alloc release s hs s' hs'" and "consistent s hs"
  shows "consistent s' hs' \<and> free_frames s' \<union> held_frames hs' = free_frames s \<union> held_frames hs"
  using assms
proof (induction rule: history.induct)
  case (start s hs)
  then show ?case by simp
next
  case (refused s hs s1 hs1 order s2)
  then have "s2 = s1" using refuse by (auto simp: consistent_def)
  then show ?case using refused by simp
next
  case (granted s hs s1 hs1 order f s2)
  then show ?case using consistent_grant by blast
next
  case (given_back s hs s1 hs1 f order s2)
  then show ?case using consistent_give_back by blast
qed

text \<open>A held block can always be given back, and giving back what was just granted undoes it.\<close>

lemma give_back_possible:
  assumes "history alloc release s hs s' hs'" and "consistent s hs" and "(f, order) \<in> hs'"
  shows "\<exists>s2. release (Some f) order s' = Done s2 \<and> free_frames s2 = free_frames s' \<union> block f order"
proof -
  have "invar s'" "held s' f order"
    using history_consistent [OF assms(1,2)] assms(3) by (auto simp: consistent_def)
  then show ?thesis using give_back by blast
qed

lemma grant_give_back:
  assumes "invar s" and "alloc order s = Done (Some f, s1)"
  shows "\<exists>s2. release (Some f) order s1 = Done s2 \<and> invar s2 \<and> free_frames s2 = free_frames s"
  using grant [OF assms] give_back [of s1 f order] by auto

end

lemma alloc_pages_Some:
  assumes "mm_inv s" and "alloc_pages gm order s = Done (Some f, s')"
  shows "order \<le> MAX_PAGE_ORDER" and "s' = alloc_at gm order f s"
    and "block f order \<subseteq> free_set (mem_map s)"
proof -
  show order: "order \<le> MAX_PAGE_ORDER"
    using assms(2) by (auto simp: alloc_pages_def split: if_splits)
  note cases = alloc_pages_cases [OF assms(1) order, where gm = gm]
  have enough: "2 ^ unat order < free_count (mem_map s)"
    using cases(1) assms(2) by (auto simp: not_le [symmetric])
  then obtain g where "run_free (mem_map s) g (2 ^ unat order)"
    using cases(3) assms(2) by (metis Pair_inject outcome.distinct(3) outcome.inject option.distinct(1))
  then show "s' = alloc_at gm order f s" "block f order \<subseteq> free_set (mem_map s)"
    using cases(2) [OF enough] assms(2) by (auto simp: run_free_subset)
qed

lemma alloc_pages_None:
  assumes "mm_inv s" and "alloc_pages gm order s = Done (None, s')"
  shows "s' = s"
proof (cases "order \<le> MAX_PAGE_ORDER")
  case True
  note cases = alloc_pages_cases [OF assms(1) True, where gm = gm]
  show ?thesis
  proof (cases "free_count (mem_map s) \<le> 2 ^ unat order")
    case False
    then have enough: "2 ^ unat order < free_count (mem_map s)" by simp
    have "\<not> run_free (mem_map s) g (2 ^ unat order)" for g
      using cases(2) [OF enough, of g] assms(2) by auto
    then show ?thesis using cases(3) [OF enough] assms(2) by (simp split: if_splits)
  qed (use cases(1) assms(2) in simp)
next
  case False
  then show ?thesis using assms(2) by (simp add: alloc_pages_def not_le)
qed

interpretation pa: frame_allocator "alloc_pages gm" free_block "\<lambda>s. free_set (mem_map s)"
  "\<lambda>s. allocated (mem_map s)" mm_inv
proof unfold_locales
  fix s s' :: "'a mm_state_scheme" and f order
  assume inv: "mm_inv s" and a: "alloc_pages gm order s = Done (Some f, s')"
  note * = alloc_pages_Some [OF inv a]
  show "mm_inv s' \<and> allocated (mem_map s') f order \<and> block f order \<subseteq> free_set (mem_map s) \<and>
      free_set (mem_map s') = free_set (mem_map s) - block f order"
    using * alloc_at_inv [OF inv *(1,3), of gm] allocated_took free_set_took by auto
  show "allocated (mem_map s) g ord' \<Longrightarrow> allocated (mem_map s') g ord'" for g ord'
    using * allocated_took_other by simp
next
  fix s s' :: "'a mm_state_scheme" and f order
  assume inv: "mm_inv s" and a: "allocated (mem_map s) f order"
  show "\<exists>s'. free_block (Some f) order s = Done s' \<and> mm_inv s' \<and>
      free_set (mem_map s') = free_set (mem_map s) \<union> block f order"
    using free_block_ok [OF inv a] free_at_inv [OF inv a] free_set_gave [OF a] by simp
  show "free_block (Some f) order s = Done s' \<Longrightarrow> allocated (mem_map s) g ord' \<Longrightarrow>
      block f order \<inter> block g ord' = {} \<Longrightarrow> allocated (mem_map s') g ord'" for g ord'
    using free_block_ok [OF inv a] allocated_gave_other by auto
qed (use alloc_pages_None allocated_block in blast)+

subsection \<open>Addresses of allocated pages\<close>

lemma page_to_virt_index:
  assumes "f < 2 ^ 32"
  shows "page_to_virt s (Some f) = va (0x1000 * of_nat f)"
proof -
  have "uint (sizeof_page * of_nat f) = 72 * int f"
    using assms by (simp add: kconst uint_word_ariths unsigned_of_nat take_bit_nat_eq_self)
  then have "sint (sizeof_page * of_nat f) = 72 * int f"
    using assms by (simp add: sint_uint signed_take_bit_int_eq_self)
  then show ?thesis
    by (cases "f = 0")
      (simp_all add: page_to_virt_def page_ptr_def page_addr_def kconst push_bit_eq_mult algebra_simps)
qed

lemma virt_to_page_virt: "f < 2 ^ 32 \<Longrightarrow> virt_to_page (va (0x1000 * of_nat f)) = f"
  by (simp add: virt_to_page_def kconst unat_drop_bit_eq drop_bit_eq_div unat_word_ariths unat_of_nat)

subsection \<open>Properties\<close>

text \<open>
  A small machine for the witnesses: sixteen frames, those of \<open>busy\<close> in use, and a zone
  whose counter is right.
\<close>

definition small_page :: "nat list \<Rightarrow> nat \<Rightarrow> page" where
  "small_page busy i =
     \<lparr>pg_private = - 1, pg_index = of_nat i, pg_count = (if i \<in> set busy then 1 else 0),
      pg_flags = 0, pg_virtual = va (0x1000 * of_nat i), pg_zone = Some 0, pg_slab = 0\<rparr>"

definition small_mm :: "nat list \<Rightarrow> mm_state" where
  "small_mm busy =
     (let m = map (small_page busy) [0..<16]
      in \<lparr>bootmem_page_start = 0x200, bootmem_page_index = 0x200, bootmem_page_max = 0x7ff,
          mem_map_base = 0xFFFF800000200000, mem_map = m,
          contig_page_data =
            \<lparr>node_zones = [\<lparr>free_pages_z = of_nat (free_count m), zone_pgdat = Some 0,
                zone_start_paddr = 0, zone_name = ''NORMAL'', zone_size = 0x10000, zone_pages = 16,
                zone_mem_map = 0, zone_start_pfn = 0\<rparr>],
             nr_zones = 1, node_mem_map = 0, node_start_paddr = 0, node_size = 0x10000,
             node_id = 0, node_next = None\<rparr>,
          lists = (\<lambda>_. \<lparr>lh_next = 0, lh_prev = 0\<rparr>), klog = []\<rparr>)"

lemma small_mm_inv: "mm_inv (small_mm [0, 5])" "mm_inv (small_mm [0, 2, 4, 6, 8, 10, 12, 14])"
  by (simp_all add: mm_inv_def small_mm_def Let_def upt_rec small_page_def free_count_def)

text \<open>
  C6 (\<^verbatim>\<open>alloc_pages\<close>, first fit). When the zone has more than \<open>2 ^ order\<close> free pages and
  some aligned-or-not run of \<open>2 ^ order\<close> free frames exists, the allocator returns the
  lowest such run, and the new state differs from the old one only in the descriptors of the
  block (count 1, the flags, the order in the first one) and the zone's counter.
\<close>

theorem alloc_pages_first_fit:
  assumes "mm_inv s" and "order \<le> MAX_PAGE_ORDER" and "2 ^ unat order < free_count (mem_map s)"
    and "block g order \<subseteq> free_set (mem_map s)"
  shows "\<exists>f\<le>g. alloc_pages gm order s = Done (Some f, alloc_at gm order f s) \<and>
    block f order \<subseteq> free_set (mem_map s) \<and> (\<forall>h<f. \<not> block h order \<subseteq> free_set (mem_map s))"
  using alloc_pages_cases(2) [OF assms(1-3)] assms(4) unfolding run_free_subset by blast

theorem alloc_pages_first_fit_witness:
  "\<exists>f\<le>8. alloc_pages 3 2 (small_mm [0, 5]) = Done (Some f, alloc_at 3 2 f (small_mm [0, 5])) \<and>
    block f 2 \<subseteq> free_set (mem_map (small_mm [0, 5])) \<and>
    (\<forall>h<f. \<not> block h 2 \<subseteq> free_set (mem_map (small_mm [0, 5])))"
proof (rule alloc_pages_first_fit [OF small_mm_inv(1)])
  show "(2::u64) \<le> MAX_PAGE_ORDER" "2 ^ unat (2::u64) < free_count (mem_map (small_mm [0, 5]))"
    by code_simp+
  show "block 8 2 \<subseteq> free_set (mem_map (small_mm [0, 5]))"
    unfolding run_free_subset [symmetric] by code_simp
qed

text \<open>
  C31 (\<^verbatim>\<open>__alloc_pages\<close>, read behind the table). When the zone has enough free pages but no
  run of them and its last frame is free, the inner loop \<^verbatim>\<open>map[first+last]\<close> reads the
  descriptor behind the end of \<^verbatim>\<open>mem_map\<close>; with the last frame in use the call returns \<^verbatim>\<open>NULL\<close>
  and changes nothing.
\<close>

theorem alloc_pages_fragmented:
  assumes "mm_inv s" and "order \<le> MAX_PAGE_ORDER" and "2 ^ unat order < free_count (mem_map s)"
    and "\<forall>g. \<not> block g order \<subseteq> free_set (mem_map s)"
  shows "alloc_pages gm order s =
    (if pg_count (mem_map s ! (length (mem_map s) - 1)) = 0 then Fault else Done (None, s))"
  using alloc_pages_cases(3) [OF assms(1-3)] assms(4) unfolding run_free_subset by blast

lemma small_mm_no_run: "\<not> block g 1 \<subseteq> free_set (mem_map (small_mm [0, 2, 4, 6, 8, 10, 12, 14]))"
proof
  let ?m = "mem_map (small_mm [0, 2, 4, 6, 8, 10, 12, 14])"
  assume "block g 1 \<subseteq> free_set ?m"
  then have "run_free ?m g 2" using run_free_subset [of ?m g 1] by simp
  then have "g < 15" "pg_count (?m ! g) = 0 \<and> pg_count (?m ! Suc g) = 0"
    by (auto simp: run_free_def small_mm_def Let_def dest: spec [of _ 0] spec [of _ 1])
  moreover have "\<forall>g<15. \<not> (pg_count (?m ! g) = 0 \<and> pg_count (?m ! Suc g) = 0)" by code_simp
  ultimately show False by blast
qed

theorem alloc_pages_fragmented_witness:
  "alloc_pages 0 1 (small_mm [0, 2, 4, 6, 8, 10, 12, 14]) = Fault"
proof -
  let ?s = "small_mm [0, 2, 4, 6, 8, 10, 12, 14]"
  have "(1::u64) \<le> MAX_PAGE_ORDER" "2 ^ unat (1::u64) < free_count (mem_map ?s)"
    "pg_count (mem_map ?s ! (length (mem_map ?s) - 1)) = 0"
    by code_simp+
  then show ?thesis
    using alloc_pages_fragmented [OF small_mm_inv(2), of 1 0] small_mm_no_run by simp
qed

text \<open>
  C2 (\<^verbatim>\<open>alloc_pages\<close> and \<^verbatim>\<open>__free_pages\<close>, any history). A client that starts with no block
  and requests and gives back blocks in any order never holds one frame in two blocks nor a
  frame that is still free, and free and held frames together are always the frames that
  were free at the start; the invariant holds throughout.
\<close>

theorem page_allocator_history:
  assumes "mm_inv s" and "history (alloc_pages gm) free_block s {} s' held"
  shows "mm_inv s' \<and> free_set (mem_map s') \<union> held_frames held = free_set (mem_map s) \<and>
    free_set (mem_map s') \<inter> held_frames held = {} \<and>
    (\<forall>f order g ord'. (f, order) \<in> held \<and> (g, ord') \<in> held \<and> (f, order) \<noteq> (g, ord') \<longrightarrow>
       block f order \<inter> block g ord' = {})"
proof -
  have "pa.consistent s {}" using assms(1) by (simp add: pa.consistent_def)
  note * = pa.history_consistent [OF assms(2) this]
  then have "free_set (mem_map s') \<inter> held_frames held = {}"
    using allocated_block by (fastforce simp: pa.consistent_def held_frames_def)
  then show ?thesis using * by (auto simp: pa.consistent_def held_frames_def)
qed

lemma small_mm_alloc:
  "alloc_pages 3 2 (small_mm [0, 5]) = Done (Some 1, alloc_at 3 2 1 (small_mm [0, 5]))"
proof -
  let ?m = "mem_map (small_mm [0, 5])"
  have run: "run_free ?m 1 (2 ^ unat (2::u64))" "\<not> run_free ?m 0 (2 ^ unat (2::u64))"
    and "(2::u64) \<le> MAX_PAGE_ORDER" "2 ^ unat (2::u64) < free_count ?m"
    by code_simp+
  then obtain f where "f \<le> 1" "run_free ?m f (2 ^ unat (2::u64))"
    "alloc_pages 3 2 (small_mm [0, 5]) = Done (Some f, alloc_at 3 2 f (small_mm [0, 5]))"
    using alloc_pages_cases(2) [OF small_mm_inv(1)] by blast
  moreover from this run(2) have "f = 1" by (cases f) auto
  ultimately show ?thesis by simp
qed

theorem page_allocator_history_witness:
  "mm_inv (alloc_at 3 2 1 (small_mm [0, 5])) \<and>
   free_set (mem_map (alloc_at 3 2 1 (small_mm [0, 5]))) \<union> held_frames {(1, 2)} =
     free_set (mem_map (small_mm [0, 5]))"
proof -
  have "history (alloc_pages 3) free_block (small_mm [0, 5]) {} (alloc_at 3 2 1 (small_mm [0, 5])) {(1, 2)}"
    by (rule history.granted [where alloc = "alloc_pages 3", OF history.start]) (rule small_mm_alloc)
  then show ?thesis using page_allocator_history [OF small_mm_inv(1)] by blast
qed

text \<open>
  Supplement (round trip). Giving a block back right after it was allocated succeeds, restores the
  zone and every descriptor outside the block, and leaves the frames of the block free with
  the order field of the first one cleared to \<^verbatim>\<open>-1\<close>.
\<close>

theorem alloc_free_round_trip:
  assumes "mm_inv s" and "alloc_pages gm order s = Done (Some f, s1)"
  shows "\<exists>s2. free_block (Some f) order s1 = Done s2 \<and> mm_inv s2 \<and> zones s2 = zones s \<and>
    free_set (mem_map s2) = free_set (mem_map s) \<and> pg_private (mem_map s2 ! f) = - 1 \<and>
    (\<forall>i. i \<notin> block f order \<longrightarrow> i < length (mem_map s) \<longrightarrow> mem_map s2 ! i = mem_map s ! i)"
proof -
  note a = alloc_pages_Some [OF assms]
  have al: "allocated (mem_map s1) f order" using a allocated_took by simp
  have inv: "mm_inv s1" using alloc_at_inv [OF assms(1) a(1,3)] a(2) by simp
  obtain z where z: "zones s = [z]" using assms(1) by (rule mm_invE) blast
  have fl: "f < length (mem_map s)" using subsetD [OF a(3) block_start] by (simp add: free_set_def)
  have "zones (free_at order f s1) = zones s"
    by (simp add: a(2) free_at_def alloc_at_def set_zone_def z)
  moreover have "free_set (mem_map (free_at order f s1)) = free_set (mem_map s)"
    using free_set_gave [OF al] free_set_took a(2,3) by auto
  moreover have "i \<notin> block f order \<Longrightarrow> i < length (mem_map s) \<Longrightarrow>
      mem_map (free_at order f s1) ! i = mem_map s ! i" for i
    by (auto simp: a(2) freed_def taken_def block_def)
  moreover have "pg_private (mem_map (free_at order f s1) ! f) = - 1"
    using fl by (simp add: a(2) freed_def)
  ultimately show ?thesis using free_block_ok [OF inv al] free_at_inv [OF inv al] by blast
qed

theorem alloc_free_round_trip_witness:
  "\<exists>s2. free_block (Some 1) 2 (alloc_at 3 2 1 (small_mm [0, 5])) = Done s2 \<and>
     zones s2 = zones (small_mm [0, 5]) \<and> pg_private (mem_map s2 ! 1) = - 1"
  using alloc_free_round_trip [OF small_mm_inv(1) small_mm_alloc] by blast

text \<open>
  Supplement (\<^verbatim>\<open>__get_free_pages\<close> and \<^verbatim>\<open>free_pages\<close>). The address of a granted block is the linear
  address of its first frame, page aligned, and \<^verbatim>\<open>free_pages\<close> of that address with the same
  order is exactly the release of the block.
\<close>

theorem get_free_pages_address:
  assumes "mm_inv s" and "alloc_pages gm order s = Done (Some f, s1)"
  shows "get_free_pages gm order s = Done (va (0x1000 * of_nat f), s1) \<and>
    free_pages (va (0x1000 * of_nat f)) order s1 = free_block (Some f) order s1"
proof -
  note a = alloc_pages_Some [OF assms]
  have "f < length (mem_map s)" using subsetD [OF a(3) block_start] by (simp add: free_set_def)
  moreover have "length (mem_map s) < 2 ^ 32" using assms(1) by (rule mm_invE)
  ultimately have f: "f < 2 ^ 32" by simp
  have o: "\<not> MAX_PAGE_ORDER < order" using a(1) by simp
  then have "alloc_from gm order 0 s = Done (Some f, s1)" using assms(2) by (simp add: alloc_pages_def)
  then show ?thesis
    using o by (simp add: get_free_pages_def free_pages_def page_to_virt_index [OF f] virt_to_page_virt [OF f])
qed

theorem get_free_pages_address_witness:
  "get_free_pages 3 2 (small_mm [0, 5]) = Done (va 0x1000, alloc_at 3 2 1 (small_mm [0, 5]))"
  using get_free_pages_address [OF small_mm_inv(1) small_mm_alloc] by simp

text \<open>
  Supplement (\<^verbatim>\<open>__get_free_pages\<close>, out of memory). A refused request does not return \<^verbatim>\<open>NULL\<close>: the null
  descriptor goes through \<^verbatim>\<open>page_to_virt\<close> like any other, and with \<^verbatim>\<open>mem_map\<close> at the start of
  the boot heap the caller is given an address that is not null and belongs to no frame of the
  node. (The distance of the null pointer from \<^verbatim>\<open>mem_map\<close> is taken as the rounded quotient of
  the byte distance.)
\<close>

theorem get_free_pages_null:
  assumes "mem_map_base s = 0xFFFF800000200000" and "order \<le> MAX_PAGE_ORDER"
    and "alloc_pages gm order s = Done (None, s)"
  shows "\<exists>a. get_free_pages gm order s = Done (a, s) \<and> a \<noteq> 0 \<and> 2 ^ 32 \<le> virt_to_page a"
proof -
  have "\<not> MAX_PAGE_ORDER < order" using assms(2) by simp
  moreover from this have "alloc_from gm order 0 s = Done (None, s)"
    using assms(3) by (simp add: alloc_pages_def)
  moreover have "page_to_virt s None = 0x001BF1C715555000"
    by (simp add: page_to_virt_def page_ptr_def assms(1) kconst va_def)
  ultimately show ?thesis
    by (simp add: get_free_pages_def virt_to_page_def pa_def kconst)
qed

lemma small_mm_full:
  "alloc_pages 0 0 (small_mm [0..<16]) = Done (None, small_mm [0..<16])"
proof (rule alloc_pages_cases(1))
  show "mm_inv (small_mm [0..<16])"
    by (simp add: mm_inv_def small_mm_def Let_def upt_rec small_page_def free_count_def)
  show "(0::u64) \<le> MAX_PAGE_ORDER" "free_count (mem_map (small_mm [0..<16])) \<le> 2 ^ unat (0::u64)"
    by code_simp+
qed

theorem get_free_pages_null_witness:
  "\<exists>a. get_free_pages 0 0 (small_mm [0..<16]) = Done (a, small_mm [0..<16]) \<and> a \<noteq> 0"
proof -
  have "mem_map_base (small_mm [0..<16]) = 0xFFFF800000200000" by (simp add: small_mm_def Let_def)
  then show ?thesis using get_free_pages_null [OF _ _ small_mm_full] by auto
qed

text \<open>
  Supplement (\<^verbatim>\<open>__free_pages\<close>, refused releases). Releasing the null descriptor, a frame that is not in
  use, a block with another order than it was allocated with, or an order above the maximum
  changes no descriptor and no zone; only a message may be printed.
\<close>

theorem free_block_refused:
  assumes "page = None \<or> MAX_PAGE_ORDER < order \<or>
    (\<exists>pg<length (mem_map s). page = Some pg \<and>
       (pg_count (mem_map s ! pg) = 0 \<or> pg_private (mem_map s ! pg) \<noteq> order))"
  shows "\<exists>log. free_block page order s = Done (s\<lparr>klog := klog s @ log\<rparr>)"
proof -
  have "s = s\<lparr>klog := klog s @ []\<rparr>" by simp
  then show ?thesis
    using assms by (auto simp: free_block_def outcome_simps say_def split: option.splits intro: exI [of _ "[]"])
qed

theorem free_block_refused_witness:
  "\<exists>log. free_block (Some 1) 0 (small_mm [0, 5]) =
     Done ((small_mm [0, 5])\<lparr>klog := klog (small_mm [0, 5]) @ log\<rparr>)"
proof (rule free_block_refused, intro disjI2 exI conjI)
  show "1 < length (mem_map (small_mm [0, 5]))" "Some 1 = Some (1::nat)"
    by (simp_all add: small_mm_def Let_def)
  show "pg_private (mem_map (small_mm [0, 5]) ! 1) \<noteq> 0"
    by code_simp
qed

end
