(* ===== verification/Kstring.thy ===== *)
theory Kstring
  imports Caos_Prelude
begin

text \<open>
  The memory and string routines of \<^verbatim>\<open>string.c\<close> over a byte-addressed memory. A loop
  that runs to a terminating byte need not end, so it yields an option; the counted loops are
  structural in the count.
\<close>

type_synonym bmem = "u64 \<Rightarrow> u8"

subsection \<open>The routines\<close>

primrec memcmp_loop :: "bmem \<Rightarrow> nat \<Rightarrow> u64 \<Rightarrow> u64 \<Rightarrow> u64 \<Rightarrow> u64" where
  "memcmp_loop m 0 su1 su2 res = res"
| "memcmp_loop m (Suc count) su1 su2 res =
     (let res = ucast (m su1) - ucast (m su2)
      in if res \<noteq> 0 then res else memcmp_loop m count (su1 + 1) (su2 + 1) res)"

definition caos_memcmp :: "bmem \<Rightarrow> u64 \<Rightarrow> u64 \<Rightarrow> u64 \<Rightarrow> u64" where
  "caos_memcmp m cs ct count = memcmp_loop m (unat count) cs ct 0"

text \<open>The difference is kept in a \<^verbatim>\<open>char\<close>, which is sign extended on return.\<close>

partial_function (option) caos_strcmp :: "bmem \<Rightarrow> u64 \<Rightarrow> u64 \<Rightarrow> u64 option" where
  "caos_strcmp m src dst =
     (let t = m src - m dst
      in if t \<noteq> 0 \<or> m src = 0 then Some (scast t) else caos_strcmp m (src + 1) (dst + 1))"

partial_function (option) strcat_loop :: "bmem \<Rightarrow> u64 \<Rightarrow> u64 \<Rightarrow> (bmem \<times> u64) option" where
  "strcat_loop m dest src =
     (if m src \<noteq> 0 then strcat_loop (m(dest := m src)) (dest + 1) (src + 1) else Some (m, src))"

definition caos_strcat :: "bmem \<Rightarrow> u64 \<Rightarrow> u64 \<Rightarrow> (bmem \<times> u64) option" where
  "caos_strcat m dest src = map_option (\<lambda>(m', s). (m', s - src)) (strcat_loop m dest src)"

partial_function (option) strlen_loop :: "bmem \<Rightarrow> u64 \<Rightarrow> u32 \<Rightarrow> u32 option" where
  "strlen_loop m s i = (if m (s + scast i) \<noteq> 0 then strlen_loop m s (i + 1) else Some i)"

definition caos_strlen :: "bmem \<Rightarrow> u64 \<Rightarrow> u64 option" where
  "caos_strlen m s = map_option scast (strlen_loop m s 0)"

text \<open>One assignment \<^verbatim>\<open>*pldst = *plsrc\<close> of a \<^verbatim>\<open>long\<close>: eight bytes read, then eight written.\<close>

definition copy_long :: "bmem \<Rightarrow> u64 \<Rightarrow> u64 \<Rightarrow> bmem" where
  "copy_long m d s = (\<lambda>a. if unat (a - d) < 8 then m (s + (a - d)) else m a)"

function word_loop :: "bmem \<Rightarrow> u64 \<Rightarrow> u64 \<Rightarrow> nat \<Rightarrow> bmem \<times> u64 \<times> u64 \<times> nat" where
  "word_loop m d s len =
     (if 8 \<le> len then word_loop (copy_long m d s) (d + 8) (s + 8) (len - 8) else (m, d, s, len))"
  by pat_completeness auto
termination by (relation "measure (\<lambda>(m, d, s, len). len)") auto

declare word_loop.simps [simp del]

primrec byte_loop :: "bmem \<Rightarrow> u64 \<Rightarrow> u64 \<Rightarrow> nat \<Rightarrow> bmem" where
  "byte_loop m d s 0 = m"
| "byte_loop m d s (Suc len) = byte_loop (m(d := m s)) (d + 1) (s + 1) len"

definition caos_memcpy :: "bmem \<Rightarrow> u64 \<Rightarrow> u64 \<Rightarrow> u64 \<Rightarrow> bmem \<times> u64" where
  "caos_memcpy m dst src len =
     (let (m, d, s, n) =
            (if src AND (- 4) = 0 \<and> dst AND (- 4) = 0 then word_loop m dst src (unat len)
             else (m, dst, src, unat len))
      in (byte_loop m d s n, dst))"

primrec memset_loop :: "bmem \<Rightarrow> u64 \<Rightarrow> u8 \<Rightarrow> nat \<Rightarrow> bmem" where
  "memset_loop m p c 0 = m"
| "memset_loop m p c (Suc len) = memset_loop (m(p := c)) (p + 1) c len"

definition caos_memset :: "bmem \<Rightarrow> u64 \<Rightarrow> u64 \<Rightarrow> u64 \<Rightarrow> bmem \<times> u64" where
  "caos_memset m dst c len = (memset_loop m dst (ucast c) (unat len), dst)"

subsection \<open>Regions and C strings\<close>

text \<open>\<open>n\<close> bytes from \<open>p\<close>; the address space is circular.\<close>

definition region :: "u64 \<Rightarrow> nat \<Rightarrow> u64 set" where
  "region p n = {a. unat (a - p) < n}"

definition bytes_at :: "bmem \<Rightarrow> u64 \<Rightarrow> nat \<Rightarrow> u8 list" where
  "bytes_at m p n = map (\<lambda>i. m (p + of_nat i)) [0..<n]"

fun cstr :: "bmem \<Rightarrow> u64 \<Rightarrow> u8 list \<Rightarrow> bool" where
  "cstr m p [] \<longleftrightarrow> m p = 0"
| "cstr m p (c # cs) \<longleftrightarrow> c \<noteq> 0 \<and> m p = c \<and> cstr m (p + 1) cs"

text \<open>\<^verbatim>\<open>caos_strcmp\<close> on the strings themselves, with the terminating zero implicit.\<close>

fun strcmp_str :: "u8 list \<Rightarrow> u8 list \<Rightarrow> u64" where
  "strcmp_str [] [] = 0"
| "strcmp_str [] (d # ds) = scast (- d)"
| "strcmp_str (c # cs) [] = scast c"
| "strcmp_str (c # cs) (d # ds) = (if c - d \<noteq> 0 then scast (c - d) else strcmp_str cs ds)"

text \<open>\<^verbatim>\<open>caos_memcmp\<close> on the bytes of the two regions.\<close>

fun memcmp_bytes :: "u8 list \<Rightarrow> u8 list \<Rightarrow> u64" where
  "memcmp_bytes (c # cs) (d # ds) =
     (let res = ucast c - ucast d in if res \<noteq> 0 then res else memcmp_bytes cs ds)"
| "memcmp_bytes _ _ = 0"

definition bytes :: "string \<Rightarrow> u8 list" where
  "bytes s = map (\<lambda>c. of_nat (of_char c)) s"

subsection \<open>Lemmas\<close>

lemma scast_u8_eq_0 [simp]: "(scast (c::u8) :: u64) = 0 \<longleftrightarrow> c = 0"
proof
  assume *: "(scast c :: u64) = 0"
  have "bit c n = False" if "n < 8" for n
  proof -
    have "bit (scast c :: u64) n = bit c n" using that by (cases "n = 7") (auto simp: bit_simps min_def)
    then show ?thesis using * by simp
  qed
  then show "c = 0" by (intro bit_word_eqI) auto
qed simp

lemma bytes_inj: "bytes s = bytes t \<longleftrightarrow> s = t"
proof -
  have "unat (of_nat (of_char c) :: u8) = of_char c" for c :: char
    by (simp add: unat_of_nat)
  then have "inj (\<lambda>c :: char. of_nat (of_char c) :: u8)"
    by (intro injI) (metis of_char_eq_iff)
  then show ?thesis by (simp add: bytes_def inj_map_eq_map)
qed

lemma caos_strcmp_str:
  "cstr m p s \<Longrightarrow> cstr m q t \<Longrightarrow> caos_strcmp m p q = Some (strcmp_str s t)"
  by (induction s t arbitrary: p q rule: strcmp_str.induct) (subst caos_strcmp.simps, auto simp: Let_def)+

lemma strcmp_str_0: "cstr m p s \<Longrightarrow> cstr m' q t \<Longrightarrow> strcmp_str s t = 0 \<longleftrightarrow> s = t"
  by (induction s t arbitrary: p q rule: strcmp_str.induct) auto

lemma bytes_at_Suc: "bytes_at m p (Suc n) = m p # bytes_at m (p + 1) n"
  by (simp add: bytes_at_def upt_conv_Cons map_Suc_upt [symmetric] add.assoc del: upt_Suc)

lemma bytes_at_0: "bytes_at m p 0 = []"
  by (simp add: bytes_at_def)

lemma caos_memcmp_bytes:
  "caos_memcmp m cs ct n = memcmp_bytes (bytes_at m cs (unat n)) (bytes_at m ct (unat n))"
proof -
  have "memcmp_loop m k cs ct 0 = memcmp_bytes (bytes_at m cs k) (bytes_at m ct k)" for k
    by (induction k arbitrary: cs ct) (simp_all add: bytes_at_Suc bytes_at_0 Let_def)
  then show ?thesis by (simp add: caos_memcmp_def)
qed

lemma ucast_u8_eq_iff: "(ucast (c :: u8) :: u64) = ucast d \<longleftrightarrow> c = d"
proof -
  have "unat (ucast c :: u64) = unat c" "unat (ucast d :: u64) = unat d"
    using unsigned_less [of c, where ?'a = nat] unsigned_less [of d, where ?'a = nat]
    by (simp_all add: unsigned_ucast_eq take_bit_nat_eq_self)
  then show ?thesis by (metis unsigned_word_eqI)
qed

lemma memcmp_bytes_0: "length s = length t \<Longrightarrow> memcmp_bytes s t = 0 \<longleftrightarrow> s = t"
  by (induction s t rule: memcmp_bytes.induct) (auto simp: Let_def ucast_u8_eq_iff)

lemma memcmp_loop_res:
  "n < 2 ^ 64 \<Longrightarrow>
   if bytes_at m a n = bytes_at m b n then memcmp_loop m n a b 0 = 0
   else \<exists>i<n. take i (bytes_at m a n) = take i (bytes_at m b n) \<and>
     m (a + of_nat i) \<noteq> m (b + of_nat i) \<and>
     memcmp_loop m n a b 0 = ucast (m (a + of_nat i)) - ucast (m (b + of_nat i))"
proof (induction n arbitrary: a b)
  case 0
  then show ?case by (simp add: bytes_at_def)
next
  case (Suc n)
  have split: "bytes_at m p (Suc n) = m p # bytes_at m (p + 1) n" for p
    by (simp add: bytes_at_def upt_conv_Cons map_Suc_upt [symmetric] algebra_simps del: upt_Suc)
  have eq: "(ucast x :: u64) = ucast y \<longleftrightarrow> x = y" for x y :: u8
  proof -
    have "unat (ucast z :: u64) = unat z" for z :: u8
      using unsigned_less [of z, where ?'a = nat] by (simp add: unsigned_ucast_eq take_bit_nat_eq_self)
    then show ?thesis by (metis unsigned_word_eqI)
  qed
  show ?case
  proof (cases "m a = m b")
    case True
    have IH: "if bytes_at m (a + 1) n = bytes_at m (b + 1) n then memcmp_loop m n (a + 1) (b + 1) 0 = 0
     else \<exists>i<n. take i (bytes_at m (a + 1) n) = take i (bytes_at m (b + 1) n) \<and>
       m (a + 1 + of_nat i) \<noteq> m (b + 1 + of_nat i) \<and>
       memcmp_loop m n (a + 1) (b + 1) 0 = ucast (m (a + 1 + of_nat i)) - ucast (m (b + 1 + of_nat i))"
      using Suc.IH Suc.prems by simp
    show ?thesis
    proof (cases "bytes_at m (a + 1) n = bytes_at m (b + 1) n")
      case False
      then obtain i where "i < n" "take i (bytes_at m (a + 1) n) = take i (bytes_at m (b + 1) n)"
        "m (a + 1 + of_nat i) \<noteq> m (b + 1 + of_nat i)"
        "memcmp_loop m n (a + 1) (b + 1) 0 = ucast (m (a + 1 + of_nat i)) - ucast (m (b + 1 + of_nat i))"
        using IH by auto
      then show ?thesis using True False
        by (auto simp: split algebra_simps intro!: exI [of _ "Suc i"])
    qed (use True IH in \<open>simp add: split\<close>)
  next
    case False
    then show ?thesis by (auto simp: split eq Let_def intro!: exI [of _ 0])
  qed
qed

text \<open>The memory after \<open>n\<close> bytes were copied from \<open>s\<close> to \<open>d\<close>.\<close>

definition copied :: "bmem \<Rightarrow> u64 \<Rightarrow> u64 \<Rightarrow> nat \<Rightarrow> bmem" where
  "copied m d s n = (\<lambda>a. if a \<in> region d n then m (s + (a - d)) else m a)"

lemma copied_0 [simp]: "copied m d s 0 = m"
  by (simp add: copied_def region_def)

lemma region_shift:
  assumes "k + n \<le> 2 ^ 64"
  shows "a \<in> region (p + of_nat k) n \<longleftrightarrow> k \<le> unat (a - p) \<and> unat (a - p) < k + n"
proof -
  define x where "x = unat (a - p)"
  have x: "x < 2 ^ 64" by (simp add: x_def)
  have "a - (p + of_nat k) = of_nat x - of_nat k" by (simp add: x_def)
  moreover have "unat (of_nat x - of_nat k :: u64) = (if k \<le> x then x - k else 2 ^ 64 + x - k)"
  proof (cases "k \<le> x")
    case True
    then have "(of_nat x - of_nat k :: u64) = of_nat (x - k)" by (simp add: of_nat_diff)
    moreover have "unat (of_nat (x - k) :: u64) = x - k" using x by (intro unat_of_nat_u64) simp
    ultimately show ?thesis using True by simp
  next
    case False
    then have k: "k \<le> 2 ^ 64" "2 ^ 64 + x - k < 2 ^ 64" using assms by auto
    then have "(of_nat (2 ^ 64 + x - k) :: u64) = of_nat (2 ^ 64) + of_nat x - of_nat k"
      using False by (subst of_nat_diff) simp_all
    then have "(of_nat x - of_nat k :: u64) = of_nat (2 ^ 64 + x - k)" by simp
    then show ?thesis using False unat_of_nat_u64 [OF k(2)] by simp
  qed
  ultimately have "unat (a - (p + of_nat k)) = (if k \<le> x then x - k else 2 ^ 64 + x - k)"
    by (simp only:)
  then show ?thesis using assms x by (auto simp: region_def x_def [symmetric] split: if_splits)
qed

lemma region_mono: "n \<le> k \<Longrightarrow> region p n \<subseteq> region p k"
  by (auto simp: region_def)

lemma region_2: "region p 2 = {p, p + 1}"
proof -
  have "unat x = 1 \<longleftrightarrow> x = 1" for x :: u64
    by (metis of_nat_1 of_nat_unat ucast_id unat_1)
  then have "unat x < 2 \<longleftrightarrow> x = 0 \<or> x = 1" for x :: u64
    by (simp add: less_2_cases_iff unat_eq_0)
  then show ?thesis by (auto simp: region_def algebra_simps)
qed

text \<open>
  A copy that goes upwards is exact unless the destination starts inside the source: then it
  overwrites bytes that it still has to read.
\<close>

definition behind :: "u64 \<Rightarrow> u64 \<Rightarrow> nat \<Rightarrow> bool" where
  "behind d s n \<longleftrightarrow> d = s \<or> n \<le> unat (d - s)"

lemma behind_apart: "region d n \<inter> region s n = {} \<Longrightarrow> behind d s n"
  by (cases n) (auto simp: behind_def region_def disjoint_iff not_less)

lemma behind_shift: "behind d s n \<Longrightarrow> k \<le> n \<Longrightarrow> behind (d + x) (s + x) k"
  by (auto simp: behind_def)

lemma copied_same: "copied m d d n = m"
  by (auto simp: copied_def fun_eq_iff)

lemma copied_add:
  assumes "behind d s (k + n)" and "k + n \<le> 2 ^ 64"
  shows "copied (copied m d s k) (d + of_nat k) (s + of_nat k) n = copied m d s (k + n)"
proof (cases "d = s")
  case True
  then show ?thesis by (simp add: copied_same)
next
  case False
  then have far: "k + n \<le> unat (d - s)" using assms(1) by (simp add: behind_def)
  show ?thesis
  proof
    fix a
    have "s + (a - d) \<notin> region d k" if j: "k \<le> unat (a - d)" "unat (a - d) < k + n"
    proof
      assume "s + (a - d) \<in> region d k"
      then have i: "unat (s + (a - d) - d) < k" by (simp add: region_def)
      have "d - s = (a - d) - (s + (a - d) - d)" by simp
      moreover have "s + (a - d) - d \<le> a - d" using i j(1) by (simp add: word_le_nat_alt)
      ultimately have "unat (d - s) \<le> unat (a - d)" by (metis diff_le_self unat_sub_u64)
      then show False using far j(2) by simp
    qed
    then show "copied (copied m d s k) (d + of_nat k) (s + of_nat k) n a = copied m d s (k + n) a"
      unfolding copied_def region_shift [OF assms(2)] by (auto simp: region_def algebra_simps)
  qed
qed

lemma upd_copied: "m(d := m s) = copied m d s 1"
  by (auto simp: copied_def region_def fun_eq_iff unat_eq_0)

lemma copy_long_copied: "copy_long m d s = copied m d s 8"
  by (simp add: copy_long_def copied_def region_def)

lemma region_sub: "k + n \<le> 2 ^ 64 \<Longrightarrow> region (p + of_nat k) n \<subseteq> region p (k + n)"
  by (auto simp: region_shift) (simp add: region_def)

lemma byte_loop_copied:
  "behind d s n \<Longrightarrow> n \<le> 2 ^ 64 \<Longrightarrow> byte_loop m d s n = copied m d s n"
proof (induction n arbitrary: m d s)
  case (Suc n)
  have "behind (d + 1) (s + 1) n" using behind_shift [OF Suc.prems(1)] by simp
  then have "byte_loop (m(d := m s)) (d + 1) (s + 1) n = copied (copied m d s 1) (d + of_nat 1) (s + of_nat 1) n"
    using Suc.IH Suc.prems by (simp add: upd_copied)
  then show ?case using copied_add [of d s 1 n m] Suc.prems by simp
qed simp

lemma word_loop_copied:
  assumes "behind d s n" and "n \<le> 2 ^ 64"
  shows "\<exists>k. 8 * k \<le> n \<and>
    word_loop m d s n = (copied m d s (8 * k), d + of_nat (8 * k), s + of_nat (8 * k), n - 8 * k)"
  using assms
proof (induction m d s n rule: word_loop.induct)
  case (1 m d s n)
  show ?case
  proof (cases "8 \<le> n")
    case True
    then have n: "8 + (n - 8) = n" by simp
    have "behind (d + 8) (s + 8) (n - 8)" using behind_shift [OF 1(2)] by simp
    then obtain k where k: "8 * k \<le> n - 8" "word_loop (copied m d s 8) (d + 8) (s + 8) (n - 8) =
        (copied (copied m d s 8) (d + 8) (s + 8) (8 * k), d + 8 + of_nat (8 * k), s + 8 + of_nat (8 * k), n - 8 - 8 * k)"
      using 1(1) [OF True] le_trans [OF diff_le_self 1(3)] by (auto simp: copy_long_copied)
    have kn: "8 + 8 * k \<le> n" using k(1) True by simp
    have "behind d s (8 + 8 * k)" using behind_shift [OF 1(2) kn, of 0] by simp
    then have "copied (copied m d s 8) (d + 8) (s + 8) (8 * k) = copied m d s (8 * Suc k)"
      using copied_add [of d s 8 "8 * k" m] le_trans [OF kn 1(3)] by simp
    then show ?thesis using k True
      by (subst word_loop.simps) (auto simp: copy_long_copied algebra_simps intro!: exI [of _ "Suc k"])
  next
    case False
    then show ?thesis by (subst word_loop.simps) (auto intro!: exI [of _ 0])
  qed
qed

lemma cstr_cong:
  assumes "cstr m p cs" and "\<And>a. a \<in> region p (Suc (length cs)) \<Longrightarrow> m' a = m a"
    and "length cs < 2 ^ 64"
  shows "cstr m' p cs"
  using assms
proof (induction cs arbitrary: p)
  case Nil
  then show ?case by (simp add: region_def)
next
  case (Cons c cs)
  have "a \<in> region (p + 1) (Suc (length cs)) \<Longrightarrow> m' a = m a" for a
    using Cons.prems(2,3) subsetD [OF region_sub [of 1 "Suc (length cs)" p]] by simp
  then show ?case using Cons by (simp add: region_def)
qed

lemma strcat_loop_copied:
  assumes "cstr m s cs" and "region d (length cs) \<inter> region s (Suc (length cs)) = {}"
    and "length cs < 2 ^ 64"
  shows "strcat_loop m d s = Some (copied m d s (length cs), s + of_nat (length cs))"
  using assms
proof (induction cs arbitrary: m d s)
  case Nil
  then show ?case by (subst strcat_loop.simps) simp
next
  case (Cons c cs)
  let ?n = "length cs"
  have n: "1 + Suc ?n \<le> 2 ^ 64" "1 + ?n \<le> 2 ^ 64" using Cons.prems(3) by simp_all
  have s1: "region (s + 1) (Suc ?n) \<subseteq> region s (Suc (Suc ?n))" and d1: "region (d + 1) ?n \<subseteq> region d (Suc ?n)"
    using region_sub [OF n(1), of s] region_sub [OF n(2), of d] by simp_all
  have "d \<in> region d (Suc ?n)" by (simp add: region_def)
  then have "d \<notin> region (s + 1) (Suc ?n)" using Cons.prems(2) s1 by fastforce
  have "cstr (m(d := m s)) (s + 1) cs"
  proof (rule cstr_cong [of m "s + 1" cs, rotated])
    show "(m(d := m s)) a = m a" if "a \<in> region (s + 1) (Suc ?n)" for a
      using that \<open>d \<notin> region (s + 1) (Suc ?n)\<close> by (cases "a = d") simp_all
  qed (use Cons.prems(1,3) in simp_all)
  moreover have "region (d + 1) ?n \<inter> region (s + 1) (Suc ?n) = {}" using Cons.prems(2) s1 d1 by auto
  ultimately have "strcat_loop (m(d := m s)) (d + 1) (s + 1) =
      Some (copied (copied m d s 1) (d + of_nat 1) (s + of_nat 1) ?n, s + 1 + of_nat ?n)"
    using Cons.IH Cons.prems(3) by (simp add: upd_copied)
  moreover have "region d (Suc ?n) \<inter> region s (Suc ?n) = {}"
    using Cons.prems(2) region_mono [of "Suc ?n" "Suc (Suc ?n)" s] by auto
  then have "behind d s (Suc ?n)" by (rule behind_apart)
  ultimately show ?case using Cons.prems(1) copied_add [of d s 1 ?n m] n
    by (subst strcat_loop.simps) (simp add: algebra_simps)
qed

lemma strlen_loop_cstr:
  assumes "cstr m (s + of_nat k) cs" and "k + length cs < 2 ^ 31"
  shows "strlen_loop m s (of_nat k) = Some (of_nat (k + length cs))"
  using assms
proof (induction cs arbitrary: k)
  case (Nil k)
  have "unat (scast (of_nat k :: u32) :: u64) = k"
    using Nil.prems by (subst scast_small) (simp_all add: unat_of_nat)
  then have "(scast (of_nat k :: u32) :: u64) = of_nat k" by (metis of_nat_unat ucast_id)
  then show ?case using Nil by (subst strlen_loop.simps) simp
next
  case (Cons c cs k)
  have "unat (scast (of_nat k :: u32) :: u64) = k"
    using Cons.prems by (subst scast_small) (simp_all add: unat_of_nat)
  then have "(scast (of_nat k :: u32) :: u64) = of_nat k" by (metis of_nat_unat ucast_id)
  then have "strlen_loop m s (of_nat k) = strlen_loop m s (of_nat (Suc k))"
    using Cons.prems by (subst strlen_loop.simps) (simp add: algebra_simps)
  then show ?case using Cons.IH [of "Suc k"] Cons.prems by (simp add: algebra_simps)
qed

lemma memset_loop_res:
  "n \<le> 2 ^ 64 \<Longrightarrow> memset_loop m p c n = (\<lambda>a. if a \<in> region p n then c else m a)"
proof (induction n arbitrary: m p)
  case (Suc n)
  have "a \<in> region (p + 1) n \<or> a = p \<longleftrightarrow> a \<in> region p (Suc n)" for a
    using region_shift [of 1 n a p] Suc.prems by (auto simp: region_def unat_eq_0 Suc_le_eq)
  then show ?case using Suc by (auto simp: fun_eq_iff)
qed (simp add: region_def)

subsection \<open>Properties\<close>

text \<open>
  C28 (\<^verbatim>\<open>caos_strcmp\<close>). On two terminated strings the comparison ends, and it returns zero
  exactly when the strings are equal.
\<close>

theorem caos_strcmp_eq:
  assumes "cstr m p s" and "cstr m q t"
  shows "\<exists>r. caos_strcmp m p q = Some r \<and> (r = 0 \<longleftrightarrow> s = t)"
  using caos_strcmp_str [OF assms] strcmp_str_0 [OF assms] by blast

definition demo_mem :: bmem where
  "demo_mem = (\<lambda>_. 0)(0x100 := 0x61, 0x101 := 0x62, 0x200 := 0x61, 0x201 := 0x63)"

theorem caos_strcmp_eq_witness:
  "\<exists>r. caos_strcmp demo_mem 0x100 0x200 = Some r \<and> r \<noteq> 0"
proof -
  have "cstr demo_mem 0x100 [0x61, 0x62]" "cstr demo_mem 0x200 [0x61, 0x63]"
    by (simp_all add: demo_mem_def)
  from caos_strcmp_eq [OF this] show ?thesis by auto
qed

lemma memcpy_behind:
  assumes "behind dst src (unat len)"
  shows "caos_memcpy m dst src len = (copied m dst src (unat len), dst)"
proof -
  define n where "n = unat len"
  have n: "n \<le> 2 ^ 64" by (simp add: n_def less_imp_le)
  have dis: "behind dst src n" using assms by (simp add: n_def)
  have "caos_memcpy m dst src len = (copied m dst src n, dst)"
  proof (cases "src AND (- 4) = 0 \<and> dst AND (- 4) = 0")
    case True
    obtain k where k: "8 * k \<le> n" "word_loop m dst src n =
        (copied m dst src (8 * k), dst + of_nat (8 * k), src + of_nat (8 * k), n - 8 * k)"
      using word_loop_copied [OF dis n] by blast
    have nk: "8 * k + (n - 8 * k) = n" using k(1) by simp
    have "behind (dst + of_nat (8 * k)) (src + of_nat (8 * k)) (n - 8 * k)" by (rule behind_shift [OF dis]) simp
    from byte_loop_copied [OF this le_trans [OF diff_le_self n]]
    have "byte_loop (copied m dst src (8 * k)) (dst + of_nat (8 * k)) (src + of_nat (8 * k)) (n - 8 * k)
        = copied m dst src n"
      using copied_add [of dst src "8 * k" "n - 8 * k" m, unfolded nk, OF dis n] by simp
    then show ?thesis using True k by (simp add: caos_memcpy_def n_def [symmetric])
  next
    case False
    then show ?thesis using byte_loop_copied [OF dis n]
      by (auto simp: caos_memcpy_def n_def [symmetric])
  qed
  then show ?thesis by (simp add: n_def)
qed

lemmas memcpy_copied = memcpy_behind [OF behind_apart]

text \<open>
  C24 (\<^verbatim>\<open>caos_memcpy\<close>). Unless the destination starts inside the source, behind its first byte, the
  routine copies exactly the requested bytes, as they were before, and changes no other: it does
  so for regions that do not overlap, and for overlapping ones with the destination in front.
  The loop over words runs only when both addresses are below 4, so it always works on regions
  that overlap; the rest is done byte by byte.
\<close>

theorem caos_memcpy_copies:
  assumes "dst = src \<or> dst \<notin> region src (unat len)"
  shows "caos_memcpy m dst src len =
    ((\<lambda>a. if a \<in> region dst (unat len) then m (src + (a - dst)) else m a), dst)"
proof -
  have "behind dst src (unat len)" using assms by (auto simp: behind_def region_def)
  from memcpy_behind [OF this] show ?thesis by (simp add: copied_def)
qed

text \<open>The first copy goes byte by byte, the second one by words, eight bytes and then three more.\<close>

theorem caos_memcpy_copies_witness:
  "fst (caos_memcpy demo_mem 0x300 0x100 2) 0x301 = 0x62 \<and>
   fst (caos_memcpy (\<lambda>a. ucast a) 1 3 11) 9 = 11 \<and> fst (caos_memcpy (\<lambda>a. ucast a) 1 3 11) 12 = 12 \<and>
   (3 :: u64) AND (- 4) = 0 \<and> (1 :: u64) AND (- 4) = 0"
proof -
  have "(0x300 :: u64) = 0x100 \<or> 0x300 \<notin> region (0x100 :: u64) (unat (2::u64))" by (simp add: region_2)
  note byte = caos_memcpy_copies [OF this, of demo_mem]
  have "(1 :: u64) = 3 \<or> 1 \<notin> region (3 :: u64) (unat (11::u64))" by (simp add: region_def)
  note wrd = caos_memcpy_copies [OF this, of "\<lambda>a. ucast a"]
  have "fst (caos_memcpy demo_mem 0x300 0x100 2) 0x301 = 0x62"
    unfolding byte by (simp add: region_def demo_mem_def)
  moreover have "fst (caos_memcpy (\<lambda>a. ucast a) 1 3 11) 9 = 11" "fst (caos_memcpy (\<lambda>a. ucast a) 1 3 11) 12 = 12"
    unfolding wrd by (simp_all add: region_def)
  ultimately show ?thesis by simp
qed

text \<open>
  C29 (\<^verbatim>\<open>caos_memset\<close>, \<^verbatim>\<open>caos_strlen\<close>, \<^verbatim>\<open>caos_strcat\<close>). Filling changes exactly the bytes of the
  region. The length of a terminated string shorter than \<open>2 ^ 31\<close> is found. The copy of a
  string to a place that does not overlap it moves its bytes and returns their number, but
  does not write the terminating zero.
\<close>

theorem caos_string_functions:
  assumes "cstr m s cs" and "length cs < 2 ^ 31"
    and "region d (length cs) \<inter> region s (Suc (length cs)) = {}"
  shows "caos_memset m p c n = ((\<lambda>a. if a \<in> region p (unat n) then ucast c else m a), p) \<and>
    caos_strlen m s = Some (of_nat (length cs)) \<and>
    caos_strcat m d s =
      Some ((\<lambda>a. if a \<in> region d (length cs) then m (s + (a - d)) else m a), of_nat (length cs))"
proof (intro conjI)
  show "caos_memset m p c n = ((\<lambda>a. if a \<in> region p (unat n) then ucast c else m a), p)"
    by (simp add: caos_memset_def memset_loop_res less_imp_le)
  have u: "unat (scast (of_nat (length cs) :: u32) :: u64) = length cs"
    using assms(2) by (subst scast_small) (simp_all add: unat_of_nat)
  then have "(scast (of_nat (length cs) :: u32) :: u64) = of_nat (length cs)"
    by (metis of_nat_unat ucast_id)
  then show "caos_strlen m s = Some (of_nat (length cs))"
    using strlen_loop_cstr [of m s 0 cs] assms(1,2) by (simp add: caos_strlen_def)
  show "caos_strcat m d s =
      Some ((\<lambda>a. if a \<in> region d (length cs) then m (s + (a - d)) else m a), of_nat (length cs))"
    using strcat_loop_copied [OF assms(1,3)] assms(2) by (simp add: caos_strcat_def copied_def)
qed

theorem caos_string_functions_witness:
  "caos_strlen demo_mem 0x100 = Some 2 \<and>
   (\<exists>m'. caos_strcat demo_mem 0x300 0x100 = Some (m', 2) \<and> m' 0x300 = 0x61)"
proof -
  have "region 0x300 (length [0x61, 0x62 :: u8]) \<inter> region 0x100 (Suc (length [0x61, 0x62 :: u8])) = {}"
    by (simp add: region_2 numeral_2_eq_2 [symmetric]) (simp add: region_def)
  moreover have "cstr demo_mem 0x100 [0x61, 0x62]" "length [0x61, 0x62 :: u8] < 2 ^ 31"
    by (simp_all add: demo_mem_def)
  ultimately have "caos_strlen demo_mem 0x100 = Some (of_nat (length [0x61, 0x62 :: u8]))"
    "caos_strcat demo_mem 0x300 0x100 =
      Some ((\<lambda>a. if a \<in> region 0x300 (length [0x61, 0x62 :: u8]) then demo_mem (0x100 + (a - 0x300))
             else demo_mem a), of_nat (length [0x61, 0x62 :: u8]))"
    using caos_string_functions by blast+
  then show ?thesis by (simp add: demo_mem_def region_def)
qed

text \<open>
  Supplement (\<^verbatim>\<open>caos_memcmp\<close>). The result is zero exactly when the two regions hold the same bytes;
  otherwise it is the difference of the first pair of bytes that differ, as a 64-bit number.
\<close>

theorem caos_memcmp_first_difference:
  "if bytes_at m cs (unat n) = bytes_at m ct (unat n) then caos_memcmp m cs ct n = 0
   else \<exists>i<unat n. take i (bytes_at m cs (unat n)) = take i (bytes_at m ct (unat n)) \<and>
     m (cs + of_nat i) \<noteq> m (ct + of_nat i) \<and>
     caos_memcmp m cs ct n = ucast (m (cs + of_nat i)) - ucast (m (ct + of_nat i))"
  using memcmp_loop_res [of "unat n" m cs ct] unsigned_less [of n, where ?'a = nat]
  by (simp add: caos_memcmp_def)

end
