(* ===== verification/Slab.thy ===== *)
theory Slab
  imports Page_Alloc Kstring
begin

text \<open>
  The object allocator of \<^verbatim>\<open>slab.c\<close> and \<^verbatim>\<open>include/slab.h\<close>. A \<^verbatim>\<open>struct kmem_cache\<close> pointer is
  an index into the table \<^verbatim>\<open>cache_cache\<close>; a \<^verbatim>\<open>struct slab\<close> pointer is the address of the
  slab, the start of its pages, at which \<open>slabs\<close> holds its fields and its \<^verbatim>\<open>bufctl\<close> array.
  The \<^verbatim>\<open>slabs\<close> and \<^verbatim>\<open>list\<close> fields live in the list heap.
\<close>

subsection \<open>Data\<close>

definition SLAB_DEFAULT_NUM :: u64 where [kconst]: "SLAB_DEFAULT_NUM = 10"
definition CACHE_CACHE_PAGE :: u64 where [kconst]: "CACHE_CACHE_PAGE = 1"
definition KMALLOC_RETRY_MAX :: nat where [kconst]: "KMALLOC_RETRY_MAX = 3"
definition BUFCTL_END :: u16 where [kconst]: "BUFCTL_END = 0xFFFF"
definition KMALLOC_SMALL_SIZE :: u64 where [kconst]: "KMALLOC_SMALL_SIZE = 16"
definition KMALLOC_MAX_SIZE :: u64 where [kconst]: "KMALLOC_MAX_SIZE = 2048"
definition BYTES_PER_LONG :: u64 where [kconst]: "BYTES_PER_LONG = 8"
definition X86_64_CACHE_ALIGN :: u64 where [kconst]: "X86_64_CACHE_ALIGN = 16"
definition sizeof_kmem_cache :: u64 where [kconst]: "sizeof_kmem_cache = 64"
definition sizeof_slab :: u64 where [kconst]: "sizeof_slab = 64"
definition sizeof_bufctl :: u64 where [kconst]: "sizeof_bufctl = 2"

definition cache_names :: "string list" where
  "cache_names = [''16bytes'', ''32bytes'', ''64bytes'', ''128bytes'', ''256bytes'', ''512bytes'',
                  ''1024bytes'', ''2048bytes'']"

record kmem_cache =
  kc_objsize :: u64
  kc_flag :: u64
  kc_num :: u64
  kc_gfporder :: u64
  kc_colour_off :: u64
  kc_name :: "string option"

record slab =
  sl_s_mem :: u64
  sl_inuse :: u64
  sl_free :: u64
  sl_offset :: u64
  sl_bufctl :: "u16 list"
  sl_cache :: "nat option"

record slab_state = mm_state +
  cache_base :: u64
  cache_cache :: "kmem_cache list"
  cache_cache_max :: u64
  cache_page :: "nat option"
  slabs :: "u64 \<rightharpoonup> slab"

text \<open>\<^verbatim>\<open>&cache_cache[i].slabs\<close>, the field at offset 32, and \<^verbatim>\<open>*slabp\<close>.\<close>

definition slabs_head :: "slab_state \<Rightarrow> nat \<Rightarrow> u64" where
  "slabs_head s i = cache_base s + sizeof_kmem_cache * of_nat i + 32"

definition slab_at :: "slab_state \<Rightarrow> u64 \<Rightarrow> slab outcome" where
  "slab_at s a = (case slabs s a of None \<Rightarrow> Fault | Some x \<Rightarrow> Done x)"

definition put_slab :: "u64 \<Rightarrow> slab \<Rightarrow> slab_state \<Rightarrow> slab_state" where
  "put_slab a x s = s\<lparr>slabs := (slabs s)(a \<mapsto> x)\<rparr>"

subsection \<open>Pages of a cache\<close>

fun mark_slab :: "nat \<Rightarrow> u64 \<Rightarrow> nat list \<Rightarrow> slab_state \<Rightarrow> slab_state outcome" where
  "mark_slab pg v [] s = Done s"
| "mark_slab pg v (i # is) s =
     obind (aget (mem_map s) (pg + i)) (\<lambda>p.
       mark_slab pg v is
         (s\<lparr>mem_map := (mem_map s)[pg + i := p\<lparr>pg_flags := SetPageSlab (pg_flags p), pg_slab := v\<rparr>]\<rparr>))"

definition kmem_getpages :: "nat \<Rightarrow> u64 \<Rightarrow> slab_state \<Rightarrow> (u64 \<times> slab_state) outcome" where
  "kmem_getpages cachep flag s =
     obind (aget (cache_cache s) cachep) (\<lambda>c.
     obind (alloc_pages flag (kc_gfporder c) s) (\<lambda>(page, s1).
       case page of
         None \<Rightarrow> Done (0, s1)
       | Some pg \<Rightarrow>
           obind (aget (mem_map s1) pg) (\<lambda>p.
           obind (mark_slab pg (pg_virtual p) (rev [0..<2 ^ unat (kc_gfporder c)]) s1) (\<lambda>s2.
           Done (pg_virtual p, s2)))))"

fun unmark_slab :: "nat list \<Rightarrow> slab_state \<Rightarrow> slab_state outcome" where
  "unmark_slab [] s = Done s"
| "unmark_slab (i # is) s =
     obind (aget (mem_map s) i) (\<lambda>p.
       unmark_slab is
         (s\<lparr>mem_map := (mem_map s)[i := p\<lparr>pg_slab := 0, pg_flags := ClearPageSlab (pg_flags p)\<rparr>]\<rparr>))"

definition kmem_freepages :: "nat \<Rightarrow> u64 \<Rightarrow> slab_state \<Rightarrow> slab_state outcome" where
  "kmem_freepages cachep addr s =
     obind (aget (cache_cache s) cachep) (\<lambda>c.
     let pg = virt_to_page addr
     in obind (aget (mem_map s) pg) (\<lambda>p.
        if pg_private p \<noteq> kc_gfporder c
        then Done (say ''kmem_freepages fail: page order error\<newline>'' [] s)
        else obind (unmark_slab [pg..<pg + 2 ^ unat (kc_gfporder c)] s) (\<lambda>s1.
             free_pages addr (kc_gfporder c) s1)))"

subsection \<open>Creating caches\<close>

text \<open>
  The search for a duplicate name: \<open>Inl\<close> when one is found, else the first free entry (or
  the length of a full table). The name is read before the bound is checked.
\<close>

function find_entry :: "kmem_cache list \<Rightarrow> nat \<Rightarrow> string \<Rightarrow> nat \<Rightarrow> (unit + nat) outcome" where
  "find_entry cc mx name cache_index =
     obind (aget cc cache_index) (\<lambda>c.
       case kc_name c of
         Some n \<Rightarrow>
           if cache_index < mx
           then if strcmp_str (bytes n) (bytes name) = 0 then Done (Inl ())
                else find_entry cc mx name (Suc cache_index)
           else Done (Inr cache_index)
       | None \<Rightarrow> Done (Inr cache_index))"
  by pat_completeness auto
termination by (relation "measure (\<lambda>(cc, mx, n, i). mx - i)") auto

declare find_entry.simps [simp del]

definition round_long :: "u64 \<Rightarrow> u64" where
  "round_long x =
     (if x AND (BYTES_PER_LONG - 1) \<noteq> 0
      then (x + (BYTES_PER_LONG - 1)) AND NOT (BYTES_PER_LONG - 1) else x)"

text \<open>The geometry of the slabs of a cache, as \<^verbatim>\<open>kmem_cache_create\<close> computes it.\<close>

definition slab_order :: "u64 \<Rightarrow> u64" where
  "slab_order sz =
     (let page_need = (sizeof_slab + sz * SLAB_DEFAULT_NUM + sizeof_bufctl * SLAB_DEFAULT_NUM) div PAGE_SIZE
      in if page_need = 0 then 1 else PAGE_ORDER page_need)"

definition slab_geometry :: "u64 \<Rightarrow> u64 \<Rightarrow> kmem_cache \<Rightarrow> kmem_cache" where
  "slab_geometry sz align c =
     (let page_order = slab_order sz;
          obj_num0 = (push_bit (unat page_order) 1 * PAGE_SIZE - sizeof_slab) div sz;
          bufctl_size = obj_num0 * sizeof_bufctl;
          obj_num = obj_num0 - (bufctl_size div sz + 1);
          off0 = sizeof_slab + bufctl_size;
          off = (if off0 AND (align - 1) \<noteq> 0 then (off0 + (align - 1)) AND NOT (align - 1) else off0)
      in c\<lparr>kc_gfporder := page_order, kc_num := obj_num, kc_colour_off := off\<rparr>)"

definition kmem_cache_create ::
  "string option \<Rightarrow> u64 \<Rightarrow> u64 \<Rightarrow> u64 \<Rightarrow> slab_state \<Rightarrow> (nat option \<times> slab_state) outcome" where
  "kmem_cache_create name sz align flags s =
     (case name of
        None \<Rightarrow> Fault
      | Some nm \<Rightarrow>
          if sz < BYTES_PER_LONG \<or> KMALLOC_MAX_SIZE < sz
          then Done (None, say ''FAIL TO CREATE SLAB, <%s>\<newline>'' [ArgStr nm] s)
          else obind (find_entry (cache_cache s) (unat (cache_cache_max s)) nm 0) (\<lambda>r.
            case r of
              Inl _ \<Rightarrow> Done (None, say ''kmem_cache_create: duplicate cache %s\<newline>'' [ArgStr nm] s)
            | Inr i \<Rightarrow>
                if unat (cache_cache_max s) \<le> i
                then Done (None, say ''kmem_cache_create: cache_cache table is full\<newline>'' [] s)
                else obind (aget (cache_cache s) i) (\<lambda>c.
                  let sz = round_long sz;
                      align = round_long align;
                      c = slab_geometry sz align (c\<lparr>kc_name := Some nm, kc_objsize := sz, kc_flag := flags\<rparr>)
                  in Done (Some i,
                       s\<lparr>cache_cache := (cache_cache s)[i := c],
                         lists := INIT_LIST_HEAD (slabs_head s i) (lists s)\<rparr>))))"

text \<open>The loop of \<^verbatim>\<open>kmem_cache_init\<close> over the default caches, each twice as large as the one before.\<close>

fun create_defaults :: "string list \<Rightarrow> u64 \<Rightarrow> slab_state \<Rightarrow> slab_state outcome" where
  "create_defaults [] csize s = Done s"
| "create_defaults (nm # names) csize s =
     obind (kmem_cache_create (Some nm) csize X86_64_CACHE_ALIGN 0 s) (\<lambda>(tmp, s1).
       case tmp of
         None \<Rightarrow> Halt
       | Some _ \<Rightarrow> create_defaults names (csize * 2) s1)"

fun set_slab_flag :: "nat list \<Rightarrow> page list \<Rightarrow> page list outcome" where
  "set_slab_flag [] m = Done m"
| "set_slab_flag (i # is) m =
     obind (aget m i) (\<lambda>p. set_slab_flag is (m[i := p\<lparr>pg_flags := SetPageSlab (pg_flags p)\<rparr>]))"

definition zero_cache :: kmem_cache where
  "zero_cache = \<lparr>kc_objsize = 0, kc_flag = 0, kc_num = 0, kc_gfporder = 0, kc_colour_off = 0, kc_name = None\<rparr>"

text \<open>
  A refused request for the table leaves \<^verbatim>\<open>cache_page\<close> null; clearing the table then writes
  through an address computed from the null descriptor.
\<close>

definition kmem_cache_init :: "slab_state \<Rightarrow> slab_state outcome" where
  "kmem_cache_init s =
     (let page_order = CACHE_CACHE_PAGE;
          pcnt = (push_bit (unat page_order) 1 :: u64);
          mx = push_bit (unat page_order) 1 * PAGE_SIZE div sizeof_kmem_cache
      in obind (alloc_pages 0 page_order s) (\<lambda>(page, s1).
         case page of
           None \<Rightarrow> Fault
         | Some pg \<Rightarrow>
             let base = page_to_virt s1 page;
                 s2 = s1\<lparr>cache_cache_max := mx, cache_page := page, cache_base := base,
                         cache_cache := replicate (unat mx) zero_cache\<rparr>;
                 s3 = s2\<lparr>lists := fold (\<lambda>i h. h(slabs_head s2 i := \<lparr>lh_next = 0, lh_prev = 0\<rparr>))
                                     [0..<unat mx] (lists s2)\<rparr>
             in obind (set_slab_flag (map ((+) pg) (rev [0..<unat pcnt])) (mem_map s3)) (\<lambda>m.
                obind (create_defaults cache_names KMALLOC_SMALL_SIZE (s3\<lparr>mem_map := m\<rparr>)) (\<lambda>s4.
                Done (say ''cache_cache created at <%x>\<newline>'' [ArgInt base] s4)))))"

subsection \<open>Slabs\<close>

text \<open>The \<^verbatim>\<open>bufctl\<close> array of a new slab: each entry names the next object, the last one the end.\<close>

definition new_bufctl :: "nat \<Rightarrow> u16 list outcome" where
  "new_bufctl num =
     (if num = 0 then Fault else Done ((map (\<lambda>i. of_nat (i + 1)) [0..<num])[num - 1 := BUFCTL_END]))"

definition kmem_cache_grow :: "nat \<Rightarrow> u64 \<Rightarrow> slab_state \<Rightarrow> (u64 \<times> slab_state) outcome" where
  "kmem_cache_grow cachep flags s =
     obind (kmem_getpages cachep flags s) (\<lambda>(slabp, s1).
       if slabp = 0 then Done (0, s1)
       else obind (aget (cache_cache s1) cachep) (\<lambda>c.
            obind (new_bufctl (unat (kc_num c))) (\<lambda>bufctl.
            let x = \<lparr>sl_s_mem = slabp + kc_colour_off c, sl_inuse = 0, sl_free = 0,
                     sl_offset = kc_colour_off c, sl_bufctl = bufctl, sl_cache = Some cachep\<rparr>;
                s2 = put_slab slabp x s1
            in Done (1, s2\<lparr>lists := list_add slabp (slabs_head s2 cachep) (INIT_LIST_HEAD slabp (lists s2))\<rparr>))))"

definition slab_destroy :: "nat \<Rightarrow> u64 \<Rightarrow> slab_state \<Rightarrow> slab_state outcome" where
  "slab_destroy cachep slabp s =
     obind (slab_at s slabp) (\<lambda>x.
       kmem_freepages cachep (sl_s_mem x - sl_offset x)
         (say ''destroy=%x\<newline>'' [ArgInt (sl_s_mem x - sl_offset x)] s))"

definition kmem_cache_shrink :: "nat \<Rightarrow> u64 \<Rightarrow> slab_state \<Rightarrow> slab_state outcome" where
  "kmem_cache_shrink cachep flags s =
     obind (list_for_each_entry
       (\<lambda>slabp s. obind (slab_at s slabp) (\<lambda>x.
          if sl_inuse x = 0
          then obind (slab_destroy cachep slabp s) (\<lambda>s1.
               Done (s1\<lparr>lists := list_del slabp (lists s1)\<rparr>, True))
          else Done (s, False)))
       (lists s) (slabs_head s cachep) s) (\<lambda>(s', _). Done s')"

subsection \<open>Objects\<close>

function seek_cache :: "kmem_cache list \<Rightarrow> nat \<Rightarrow> u64 \<Rightarrow> nat \<Rightarrow> nat outcome" where
  "seek_cache cc mx sz cache_index =
     obind (aget cc cache_index) (\<lambda>c.
       if kc_name c \<noteq> None \<and> cache_index < mx
       then if sz \<le> kc_objsize c then Done cache_index
            else seek_cache cc mx sz (Suc cache_index)
       else Done cache_index)"
  by pat_completeness auto
termination by (relation "measure (\<lambda>(cc, mx, n, i). mx - i)") auto

declare seek_cache.simps [simp del]

definition usable :: "slab_state \<Rightarrow> kmem_cache \<Rightarrow> u64 \<Rightarrow> unit \<Rightarrow> (unit \<times> bool) outcome" where
  "usable s c slabp u =
     obind (slab_at s slabp) (\<lambda>x. Done ((), sl_free x \<noteq> ucast BUFCTL_END \<and> sl_inuse x < kc_num c))"

text \<open>Taking the first free object of a slab.\<close>

definition take_object :: "u64 \<Rightarrow> slab \<Rightarrow> (u64 \<times> slab) outcome" where
  "take_object objsize x =
     obind (aget (sl_bufctl x) (unat (sl_free x))) (\<lambda>nxt.
       Done (sl_s_mem x + sl_free x * objsize,
             x\<lparr>sl_inuse := sl_inuse x + 1, sl_free := ucast nxt\<rparr>))"

subsection \<open>What the page operations keep of the object allocator\<close>

definition same_caches :: "slab_state \<Rightarrow> slab_state \<Rightarrow> bool" where
  "same_caches s s' \<longleftrightarrow> cache_cache s' = cache_cache s \<and> cache_cache_max s' = cache_cache_max s \<and>
     cache_base s' = cache_base s \<and> slabs s' = slabs s \<and> lists s' = lists s \<and>
     mem_map_base s' = mem_map_base s"

lemma same_caches_refl [simp]: "same_caches s s"
  by (simp add: same_caches_def)

lemma same_caches_trans: "same_caches s s1 \<Longrightarrow> same_caches s1 s2 \<Longrightarrow> same_caches s s2"
  by (simp add: same_caches_def)

lemma alloc_from_keeps: "alloc_from gm order i s = Done (r, s') \<Longrightarrow> same_caches s s'"
  by (subst (asm) alloc_from.simps)
    (auto simp: Let_def set_zone_def same_caches_def alloc_from_end split: if_splits option.splits)

lemma alloc_pages_keeps: "alloc_pages gm order s = Done (r, s') \<Longrightarrow> same_caches s s'"
  by (auto simp: alloc_pages_def dest: alloc_from_keeps split: if_splits)

lemma mark_slab_keeps: "mark_slab pg v is s = Done s' \<Longrightarrow> same_caches s s'"
  by (induction "is" arbitrary: s) (fastforce simp: same_caches_def)+

lemma kmem_getpages_keeps: "kmem_getpages c flag s = Done (a, s') \<Longrightarrow> same_caches s s'"
  by (auto simp: kmem_getpages_def split: option.splits
      dest!: alloc_pages_keeps mark_slab_keeps intro: same_caches_trans)

lemma kmem_cache_grow_keeps:
  "kmem_cache_grow c flags s = Done (r, s') \<Longrightarrow> cache_cache s' = cache_cache s"
  by (auto simp: kmem_cache_grow_def Let_def put_slab_def same_caches_def split: if_splits
      dest!: kmem_getpages_keeps)

subsection \<open>Allocating and freeing objects\<close>

text \<open>
  \<^verbatim>\<open>caos_kmalloc\<close> from label \<^verbatim>\<open>retry\<close>. A cache with no usable slab is grown; after the second
  vain attempt the search moves on to the next entry of the table.
\<close>

function kmalloc_retry ::
  "u64 \<Rightarrow> u64 \<Rightarrow> nat \<Rightarrow> nat \<Rightarrow> slab_state \<Rightarrow> (u64 \<times> slab_state) outcome" where
  "kmalloc_retry sz flags cache_index retry_count s =
     obind (aget (cache_cache s) cache_index) (\<lambda>c.
       if KMALLOC_RETRY_MAX < retry_count
       then Done (0, say ''FAIL TO caos_kmalloc(%d), <kmem_cache_grow fails>\<newline>'' [ArgInt sz] s)
       else obind (list_for_each_entry (usable s c) (lists s) (slabs_head s cache_index) ()) (\<lambda>(_, slabp).
         if slabp = slabs_head s cache_index
         then obind (kmem_cache_grow cache_index flags s) (\<lambda>(_, s1).
              if 1 < Suc retry_count then kmalloc_retry sz flags (Suc cache_index) 0 s1
              else kmalloc_retry sz flags cache_index (Suc retry_count) s1)
         else obind (slab_at s slabp) (\<lambda>x.
              obind (take_object (kc_objsize c) x) (\<lambda>(obj, x').
              Done (obj, put_slab slabp x' s)))))"
  by pat_completeness auto
termination
  by (relation "measure (\<lambda>(sz, fl, i, r, s). 2 * (length (cache_cache s) - i) + (1 - r))")
    (auto dest: kmem_cache_grow_keeps)

declare kmalloc_retry.simps [simp del]

definition caos_kmalloc :: "u64 \<Rightarrow> u64 \<Rightarrow> slab_state \<Rightarrow> (u64 \<times> slab_state) outcome" where
  "caos_kmalloc sz flags s =
     obind (seek_cache (cache_cache s) (unat (cache_cache_max s)) sz 0) (\<lambda>i.
     obind (aget (cache_cache s) i) (\<lambda>c.
       if kc_name c = None \<or> unat (cache_cache_max s) \<le> i
       then Done (0, say ''FAIL TO caos_kmalloc(%d), <no cache>\<newline>'' [ArgInt sz] s)
       else kmalloc_retry sz flags i 0 s))"

text \<open>Giving object \<open>obj_index\<close> back to its slab.\<close>

definition put_object :: "u64 \<Rightarrow> slab \<Rightarrow> slab outcome" where
  "put_object obj_index x =
     obind (aput (sl_bufctl x) (unat obj_index) (ucast (sl_free x))) (\<lambda>b.
       Done (x\<lparr>sl_bufctl := b, sl_free := obj_index, sl_inuse := sl_inuse x - 1\<rparr>))"

definition caos_kfree :: "u64 \<Rightarrow> slab_state \<Rightarrow> slab_state outcome" where
  "caos_kfree objp s =
     obind (aget (mem_map s) (virt_to_page objp)) (\<lambda>p.
       let slabp = pg_slab p
       in if slabp = 0 then Done (say ''caos_free error: page structure error\<newline>'' [] s)
          else obind (slab_at s slabp) (\<lambda>x.
            case sl_cache x of
              None \<Rightarrow> Done (say ''caos_free error: broken slab\<newline>'' [] s)
            | Some cachep \<Rightarrow>
                if sl_inuse x = 0
                then Done (say ''caos_free error: free non-allocated object\<newline>'' [] s)
                else obind (aget (cache_cache s) cachep) (\<lambda>c.
                  if kc_objsize c = 0 then Fault
                  else obind (put_object ((objp - sl_s_mem x) div kc_objsize c) x) (\<lambda>x'.
                       Done (put_slab slabp x' s)))))"

subsection \<open>The geometry of slabs\<close>

text \<open>
  The computation of \<^verbatim>\<open>kmem_cache_create\<close> in natural numbers, for objects of \<open>z\<close> bytes
  aligned to 16: the page order, the objects that would fit without the \<^verbatim>\<open>bufctl\<close> array, the
  objects of a slab and the offset of the first one.
\<close>

definition geo_order :: "nat \<Rightarrow> nat" where
  "geo_order z = (let need = (84 + 10 * z) div 4096 in if need \<le> 1 then 1 else if need \<le> 3 then 2 else 3)"
definition geo_raw :: "nat \<Rightarrow> nat" where "geo_raw z = (4096 * 2 ^ geo_order z - 64) div z"
definition geo_num :: "nat \<Rightarrow> nat" where "geo_num z = geo_raw z - (2 * geo_raw z div z + 1)"
definition geo_off :: "nat \<Rightarrow> nat" where "geo_off z = (64 + 2 * geo_raw z + 15) div 16 * 16"

lemma fls64_small: "fls64 1 = 1" "fls64 2 = 2" "fls64 3 = 2" "fls64 4 = 3" "fls64 5 = 3"
  by code_simp+

lemma slab_order_geo:
  assumes "unat sz \<le> 2048"
  shows "slab_order sz = of_nat (geo_order (unat sz))"
proof -
  have "unat (sizeof_slab + sz * SLAB_DEFAULT_NUM + sizeof_bufctl * SLAB_DEFAULT_NUM) = 84 + 10 * unat sz"
    using assms by (simp add: kconst unat_word_ariths)
  then have u: "unat ((sizeof_slab + sz * SLAB_DEFAULT_NUM + sizeof_bufctl * SLAB_DEFAULT_NUM) div PAGE_SIZE)
     = (84 + 10 * unat sz) div 4096"
    by (simp add: unat_div PAGE_SIZE_val)
  define w where "w = (sizeof_slab + sz * SLAB_DEFAULT_NUM + sizeof_bufctl * SLAB_DEFAULT_NUM) div PAGE_SIZE"
  define k where "k = (84 + 10 * unat sz) div 4096"
  have "w = of_nat k" using u unfolding w_def k_def by (metis of_nat_unat ucast_id)
  moreover have "k \<le> 5" using assms by (simp add: k_def)
  then have "k = 0 \<or> k = 1 \<or> k = 2 \<or> k = 3 \<or> k = 4 \<or> k = 5" by auto
  ultimately show ?thesis
    unfolding slab_order_def w_def [symmetric] geo_order_def k_def [symmetric] Let_def PAGE_ORDER_def
    by (auto simp: fls64_small)
qed

lemma geo_bounds:
  assumes "8 \<le> z" "z \<le> 2048"
  shows "geo_order z \<le> 3" "1 \<le> geo_order z" "geo_raw z \<le> 2 ^ 15"
  using assms by (auto simp: geo_order_def Let_def geo_raw_def intro: order_trans [OF div_le_dividend])

definition geo_fits :: "int \<Rightarrow> bool" where
 "geo_fits z = (let need = (84 + 10 * z) div 4096; P = (if need \<le> 1 then 8192 else if need \<le> 3 then 16384 else 32768);
   raw = (P - 64) div z; num = raw - (2 * raw div z + 1); off = (64 + 2 * raw + 15) div 16 * 16
    in 0 < num \<and> num < 0xffff \<and> 64 + 2 * num \<le> off \<and> off + num * z \<le> P)"

lemma geo_fits_all: "list_all (\<lambda>k. geo_fits (8*k)) [1..256]" by code_simp

lemma geo_fits_nat:
  assumes "geo_fits (int z)"
  shows "0 < geo_num z" "geo_num z < 0xffff" "64 + 2 * geo_num z \<le> geo_off z"
    "geo_off z + geo_num z * z \<le> 4096 * 2 ^ geo_order z" "2 * geo_raw z div z + 1 \<le> geo_raw z"
proof -
  define P where "P = 4096 * (2::nat) ^ geo_order z"
  have need: "(84 + 10 * int z) div 4096 = int ((84 + 10 * z) div 4096)" by (simp add: zdiv_int)
  have P: "int P = (let need = (84 + 10 * int z) div 4096 in (if need \<le> 1 then 8192 else if need \<le> 3 then 16384 else 32768))"
    unfolding need by (simp add: P_def geo_order_def Let_def)
  have "64 \<le> P" by (simp add: P_def geo_order_def Let_def)
  then have raw: "int (geo_raw z) = (int P - 64) div int z"
    by (simp add: geo_raw_def P_def [symmetric] zdiv_int of_nat_diff)
  have off: "int (geo_off z) = (64 + 2 * int (geo_raw z) + 15) div 16 * 16"
    by (simp add: geo_off_def zdiv_int)
  define num where "num = int (geo_raw z) - (2 * int (geo_raw z) div int z + 1)"
  have f: "0 < num" "num < 0xffff" "64 + 2 * num \<le> int (geo_off z)" "int (geo_off z) + num * int z \<le> int P"
    using assms
    by (simp_all only: geo_fits_def Let_def P [unfolded Let_def, symmetric] raw [symmetric]
        off [symmetric] num_def [symmetric])
  have c: "int (2 * geo_raw z div z + 1) = 2 * int (geo_raw z) div int z + 1" by (simp add: zdiv_int)
  show le: "2 * geo_raw z div z + 1 \<le> geo_raw z" using f(1) c unfolding num_def by linarith
  have n: "int (geo_num z) = num" using le c by (simp add: geo_num_def num_def of_nat_diff)
  show "0 < geo_num z" "geo_num z < 0xffff" "64 + 2 * geo_num z \<le> geo_off z" using f n by linarith+
  have "int (geo_off z + geo_num z * z) \<le> int P" using f(4) n by simp
  then show "geo_off z + geo_num z * z \<le> 4096 * 2 ^ geo_order z" unfolding P_def by linarith
qed
lemma slab_geometry_geo:
  assumes "8 \<le> unat sz" "unat sz \<le> 2048" and fits: "geo_fits (int (unat sz))"
  shows "unat (kc_gfporder (slab_geometry sz 16 c)) = geo_order (unat sz)"
    and "unat (kc_num (slab_geometry sz 16 c)) = geo_num (unat sz)"
    and "unat (kc_colour_off (slab_geometry sz 16 c)) = geo_off (unat sz)"
proof -
  note b = geo_bounds [OF assms(1,2)]
  define z where "z = unat sz"
  define raw :: u64 where "raw = (push_bit (unat (slab_order sz)) 1 * PAGE_SIZE - sizeof_slab) div sz"
  have o: "unat (slab_order sz) = geo_order z"
    using b(1) assms(2) by (simp add: slab_order_geo z_def)
  have "geo_order z = 1 \<or> geo_order z = 2 \<or> geo_order z = 3" using b by (auto simp: z_def)
  then have "unat (push_bit (geo_order z) 1 * PAGE_SIZE - sizeof_slab :: u64) = 4096 * 2 ^ geo_order z - 64"
    by (auto simp: kconst)
  then have raw: "unat raw = geo_raw z" by (simp add: raw_def unat_div o geo_raw_def z_def)
  have rb: "geo_raw z \<le> 32768" using b by (simp add: z_def)
  have b2: "unat (raw * sizeof_bufctl) = 2 * geo_raw z"
    using rb raw by (subst unat_mult_u64) (simp_all add: kconst)
  have b3: "unat (raw * sizeof_bufctl div sz + 1) = 2 * geo_raw z div z + 1"
  proof -
    have "2 * geo_raw z div z \<le> 2 * geo_raw z" by (rule div_le_dividend)
    then have "2 * geo_raw z div z + 1 < 18446744073709551616" using rb by linarith
    then show ?thesis using b2 by (subst unat_add_u64) (simp_all add: unat_div z_def)
  qed
  have le: "2 * geo_raw z div z + 1 \<le> geo_raw z" using geo_fits_nat(5) [OF fits] by (simp add: z_def)
  show "unat (kc_gfporder (slab_geometry sz 16 c)) = geo_order (unat sz)"
    using o by (simp add: slab_geometry_def Let_def z_def)
  show "unat (kc_num (slab_geometry sz 16 c)) = geo_num (unat sz)"
  proof -
    have "kc_num (slab_geometry sz 16 c) = raw - (raw * sizeof_bufctl div sz + 1)"
      by (simp add: slab_geometry_def Let_def raw_def)
    moreover have "raw * sizeof_bufctl div sz + 1 \<le> raw" using le by (simp add: word_le_nat_alt b3 raw)
    ultimately show ?thesis by (simp add: unat_sub_u64 b3 raw geo_num_def z_def)
  qed
  have off: "unat (sizeof_slab + raw * sizeof_bufctl) = 64 + 2 * geo_raw z"
    using rb b2 by (subst unat_add_u64) (simp_all add: kconst)
  have "kc_colour_off (slab_geometry sz 16 c) =
    (let x = sizeof_slab + raw * sizeof_bufctl in if x AND mask 4 \<noteq> 0 then (x + mask 4) AND NOT (mask 4) else x)"
    by (simp add: slab_geometry_def Let_def raw_def mask_eq_exp_minus_1)
  then show "unat (kc_colour_off (slab_geometry sz 16 c)) = geo_off (unat sz)"
    using unat_align_up [of "sizeof_slab + raw * sizeof_bufctl" 4] off rb
    by (simp add: Let_def geo_off_def z_def)
qed



lemma unat_round_long:
  "unat x \<le> 2048 \<Longrightarrow> unat (round_long x) = (unat x + 7) div 8 * 8"
proof -
  assume x: "unat x \<le> 2048"
  have "round_long x = (if x AND mask 3 \<noteq> 0 then (x + mask 3) AND NOT (mask 3) else x)"
    by (simp add: round_long_def kconst mask_eq_exp_minus_1)
  then show ?thesis using unat_align_up [of x 3] x by (simp add: add.commute)
qed

lemma geo_fits_round:
  assumes "8 \<le> unat x" and "unat x \<le> 2048"
  shows "geo_fits (int (unat (round_long x)))"
proof -
  define k where "k = (unat x + 7) div 8"
  have "1 \<le> k" "k \<le> 256" using assms by (auto simp: k_def)
  then have "int k \<in> set [1..256]" by simp
  then have "geo_fits (8 * int k)" using geo_fits_all unfolding list_all_iff by blast
  then show ?thesis using unat_round_long [OF assms(2)] by (simp add: k_def mult.commute)
qed

subsection \<open>The free list of a slab\<close>

text \<open>
  \<open>chain b f fl\<close>: from \<open>f\<close> the entries of the \<^verbatim>\<open>bufctl\<close> array lead through the objects
  \<open>fl\<close> to the end mark.
\<close>

fun chain :: "u16 list \<Rightarrow> u64 \<Rightarrow> nat list \<Rightarrow> bool" where
  "chain b f [] \<longleftrightarrow> f = ucast BUFCTL_END"
| "chain b f (i # fl) \<longleftrightarrow> i < length b \<and> f = of_nat i \<and> chain b (ucast (b ! i)) fl"

text \<open>A slab of \<open>n\<close> objects of size \<open>z\<close> from address \<open>sm\<close> whose free objects are \<open>fl\<close>.\<close>

definition pool :: "nat \<Rightarrow> u64 \<Rightarrow> u64 \<Rightarrow> slab \<Rightarrow> nat list \<Rightarrow> bool" where
  "pool n z sm x fl \<longleftrightarrow> length (sl_bufctl x) = n \<and> n < 0xFFFF \<and> 0 < unat z \<and> n * unat z < 2 ^ 64 \<and>
     sl_s_mem x = sm \<and> chain (sl_bufctl x) (sl_free x) fl \<and> distinct fl \<and>
     unat (sl_inuse x) + length fl = n"

definition object :: "u64 \<Rightarrow> u64 \<Rightarrow> nat \<Rightarrow> u64" where
  "object z sm i = sm + of_nat i * z"

lemma chain_bound: "chain b f fl \<Longrightarrow> i \<in> set fl \<Longrightarrow> i < length b"
  by (induction b f fl rule: chain.induct) auto

lemma chain_update: "chain b f fl \<Longrightarrow> i \<notin> set fl \<Longrightarrow> chain (b[i := v]) f fl"
  by (induction b f fl rule: chain.induct) auto

lemma pool_take:
  assumes "pool n z sm x (i # fl)"
  shows "\<exists>x'. take_object z x = Done (object z sm i, x') \<and> pool n z sm x' fl \<and>
    sl_offset x' = sl_offset x \<and> sl_cache x' = sl_cache x"
proof -
  have x: "length (sl_bufctl x) = n" "n < 0xFFFF" "sl_s_mem x = sm" "sl_free x = of_nat i" "i < n"
    "chain (sl_bufctl x) (ucast (sl_bufctl x ! i)) fl" "distinct fl" "unat (sl_inuse x) + length fl + 1 = n"
    using assms by (auto simp: pool_def)
  have i: "unat (sl_free x) = i" using x by simp
  have "unat (sl_inuse x + 1) = unat (sl_inuse x) + 1"
    using x(2,8) by (subst unat_add_u64) simp_all
  then show ?thesis
    using x i assms by (auto simp: take_object_def outcome_simps pool_def object_def)
qed

lemma pool_put:
  assumes p: "pool n z sm x fl" and i: "i < n" "i \<notin> set fl"
  shows "\<exists>x'. put_object (of_nat i) x = Done x' \<and> pool n z sm x' (i # fl) \<and>
    sl_offset x' = sl_offset x \<and> sl_cache x' = sl_cache x"
proof -
  have x: "length (sl_bufctl x) = n" "n < 0xFFFF" "chain (sl_bufctl x) (sl_free x) fl" "distinct fl"
    "unat (sl_inuse x) + length fl = n"
    using p by (auto simp: pool_def)
  have "card (set fl \<union> {i}) \<le> n"
    using chain_bound [OF x(3)] x(1) i by (intro card_mono [of "{..<n}", simplified]) auto
  then have "1 \<le> sl_inuse x"
    using x(4,5) i by (simp add: distinct_card word_le_nat_alt)
  then have in1: "unat (sl_inuse x - 1) = unat (sl_inuse x) - 1" "0 < unat (sl_inuse x)"
    by (simp_all add: unat_sub_u64 word_le_nat_alt)
  have ui: "unat (of_nat i :: u64) = i" using i x by simp
  have end_small: "unat (sl_free x) < 65536"
    using x(1-3) by (cases fl) (auto simp: kconst)
  have free: "(ucast (ucast (sl_free x) :: u16) :: u64) = sl_free x"
  proof -
    have "unat (ucast (ucast (sl_free x) :: u16) :: u64) = unat (sl_free x)"
      using end_small by (simp add: unsigned_ucast_eq unsigned_take_bit_eq take_bit_nat_eq_self)
    then show ?thesis by (metis unsigned_word_eqI)
  qed
  then have "chain ((sl_bufctl x)[i := ucast (sl_free x)]) (of_nat i) (i # fl)"
    using chain_update [OF x(3) i(2)] i x(1) by simp
  then show ?thesis
    using x i in1 ui p by (auto simp: put_object_def outcome_simps pool_def)
qed

lemma new_bufctl_chain:
  assumes "0 < n" and "n < 0xFFFF"
  shows "\<exists>b. new_bufctl n = Done b \<and> length b = n \<and> chain b 0 [0..<n]"
proof -
  define b :: "u16 list" where "b = (map (\<lambda>i. of_nat (i + 1)) [0..<n])[n - 1 := BUFCTL_END]"
  have len: "length b = n" by (simp add: b_def)
  have "chain b (of_nat k) [k..<n]" if "k < n" for k
    using that
  proof (induction "n - k" arbitrary: k)
    case 0
    then show ?case by simp
  next
    case (Suc d)
    show ?case
    proof (cases "Suc k = n")
      case True
      then have "b ! k = BUFCTL_END" by (auto simp: b_def)
      then show ?thesis using True len by (simp add: upt_conv_Cons)
    next
      case False
      then have k: "Suc k < n" using Suc.prems by simp
      then have "b ! k = of_nat (Suc k)" by (simp add: b_def)
      moreover have "(ucast (of_nat (Suc k) :: u16) :: u64) = of_nat (Suc k)"
      proof -
        have "unat (ucast (of_nat (Suc k) :: u16) :: u64) = Suc k"
          using k assms(2) by (simp add: unsigned_ucast_eq unat_of_nat take_bit_nat_eq_self del: of_nat_Suc)
        then show ?thesis by (metis of_nat_unat ucast_id)
      qed
      ultimately show ?thesis using Suc.hyps(1) [of "Suc k"] Suc.hyps(2) k len
        by (simp add: upt_conv_Cons del: of_nat_Suc)
    qed
  qed
  from this [of 0] show ?thesis using assms len by (simp add: new_bufctl_def b_def)
qed

subsection \<open>The interface of an object pool\<close>

text \<open>Taking \<open>k\<close> objects in a row.\<close>

fun take_many :: "('x \<Rightarrow> (u64 \<times> 'x) outcome) \<Rightarrow> nat \<Rightarrow> 'x \<Rightarrow> (u64 list \<times> 'x) outcome" where
  "take_many tk 0 x = Done ([], x)"
| "take_many tk (Suc k) x =
     obind (tk x) (\<lambda>(a, x1). obind (take_many tk k x1) (\<lambda>(as, x2). Done (a # as, x2)))"

locale object_pool =
  fixes tk :: "'x \<Rightarrow> (u64 \<times> 'x) outcome"
    and pt :: "nat \<Rightarrow> 'x \<Rightarrow> 'x outcome"
    and frees :: "'x \<Rightarrow> nat list \<Rightarrow> bool"
    and addr :: "nat \<Rightarrow> u64"
    and n :: nat
  assumes tk_law: "frees x (i # fl) \<Longrightarrow> \<exists>x'. tk x = Done (addr i, x') \<and> frees x' fl"
    and pt_law: "frees x fl \<Longrightarrow> i < n \<Longrightarrow> i \<notin> set fl \<Longrightarrow> \<exists>x'. pt i x = Done x' \<and> frees x' (i # fl)"
    and bounded: "frees x fl \<Longrightarrow> set fl \<subseteq> {..<n} \<and> distinct fl"
begin

text \<open>The object freed last is allocated first.\<close>

lemma last_in_first_out:
  assumes "frees x fl" and "i < n" and "i \<notin> set fl"
  shows "\<exists>x' x''. pt i x = Done x' \<and> tk x' = Done (addr i, x'') \<and> frees x'' fl"
  using pt_law [OF assms] tk_law by blast

text \<open>A freed object that was allocated last restores the free list.\<close>

lemma take_put:
  assumes "frees x (i # fl)"
  shows "\<exists>x' x''. tk x = Done (addr i, x') \<and> pt i x' = Done x'' \<and> frees x'' (i # fl)"
proof -
  obtain x' where x': "tk x = Done (addr i, x')" "frees x' fl" using tk_law [OF assms] by blast
  have "i < n" "i \<notin> set fl" using bounded [OF assms] by auto
  then show ?thesis using x' pt_law [OF x'(2)] by blast
qed

lemma take_many_frees:
  "frees x fl \<Longrightarrow> k \<le> length fl \<Longrightarrow>
   \<exists>x'. take_many tk k x = Done (map addr (take k fl), x') \<and> frees x' (drop k fl)"
proof (induction k arbitrary: x fl)
  case (Suc k)
  then obtain i gl where fl: "fl = i # gl" by (cases fl) auto
  then obtain x1 where "tk x = Done (addr i, x1)" "frees x1 gl" using tk_law Suc.prems by blast
  then show ?case using Suc.IH [of x1 gl] Suc.prems fl by auto
qed simp

end

interpretation sp: object_pool "take_object z" "\<lambda>i. put_object (of_nat i)" "pool n z sm" "object z sm" n
proof unfold_locales
  fix x i fl
  show "pool n z sm x (i # fl) \<Longrightarrow> \<exists>x'. take_object z x = Done (object z sm i, x') \<and> pool n z sm x' fl"
    using pool_take by blast
  show "pool n z sm x fl \<Longrightarrow> i < n \<Longrightarrow> i \<notin> set fl \<Longrightarrow>
      \<exists>x'. put_object (of_nat i) x = Done x' \<and> pool n z sm x' (i # fl)"
    using pool_put by blast
  show "pool n z sm x fl \<Longrightarrow> set fl \<subseteq> {..<n} \<and> distinct fl"
    using chain_bound by (auto simp: pool_def)
qed

text \<open>Different objects of a slab do not overlap, and each lies within the object area.\<close>

lemma unat_object_offset:
  assumes "pool n z sm x fl" and "i < n"
  shows "unat (object z sm i - sm) = i * unat z" and "i * unat z + unat z \<le> n * unat z"
proof -
  have le: "i * unat z + unat z \<le> n * unat z"
    using assms(2) mult_le_mono1 [of "Suc i" n "unat z"] by simp
  then show "i * unat z + unat z \<le> n * unat z" .
  have "n * unat z < 2 ^ 64" "n < 2 ^ 64" using assms(1) by (simp_all add: pool_def)
  moreover from this assms(2) have u: "unat (of_nat i :: u64) = i" by (intro unat_of_nat_u64) simp
  ultimately have "unat (of_nat i * z) = i * unat z" using le u by (subst unat_mult_u64) simp_all
  then show "unat (object z sm i - sm) = i * unat z" by (simp add: object_def)
qed

lemma object_region:
  assumes "pool n z sm x fl" and "i < n" and "a \<in> region (object z sm i) (unat z)"
  shows "i * unat z \<le> unat (a - sm)" and "unat (a - sm) < i * unat z + unat z"
proof -
  note u = unat_object_offset [OF assms(1,2)]
  have "i * unat z + unat z \<le> 2 ^ 64"
    using u(2) assms(1) by (simp add: pool_def)
  moreover have "object z sm i = sm + of_nat (i * unat z)"
    by (simp add: object_def)
  ultimately show "i * unat z \<le> unat (a - sm)" "unat (a - sm) < i * unat z + unat z"
    using assms(3) region_shift [of "i * unat z" "unat z" a sm] by simp_all
qed

lemma objects_disjoint:
  assumes p: "pool n z sm x fl" and "i < n" "j < n" "i \<noteq> j"
  shows "region (object z sm i) (unat z) \<inter> region (object z sm j) (unat z) = {}"
proof -
  have "False" if a: "a \<in> region (object z sm i) (unat z)" "a \<in> region (object z sm j) (unat z)"
    and ij: "i < j" "j < n" for a i j
  proof -
    have "i < n" using ij by simp
    from object_region(2) [OF p this a(1)] object_region(1) [OF p ij(2) a(2)]
    have "j * unat z < Suc i * unat z" by simp
    then have "j < Suc i" by (rule mult_less_cancel2 [THEN iffD1, THEN conjunct2])
    then show False using ij by simp
  qed
  then show ?thesis using assms(2-4) by (metis disjoint_iff linorder_less_linear)
qed

end
