(* ===== verification/Slab_Inv.thy ===== *)
theory Slab_Inv
  imports Slab
begin

text \<open>
  The invariant of the object allocator and what \<^verbatim>\<open>caos_kmalloc\<close>, \<^verbatim>\<open>caos_kfree\<close>,
  \<^verbatim>\<open>kmem_cache_grow\<close> and \<^verbatim>\<open>kmem_cache_create\<close> do to it.
\<close>

subsection \<open>The invariant\<close>

definition named :: "slab_state \<Rightarrow> nat \<Rightarrow> bool" where
  "named s i \<longleftrightarrow> i < length (cache_cache s) \<and> kc_name (cache_cache s ! i) \<noteq> None"

text \<open>Room for the \<^verbatim>\<open>bufctl\<close> array before the objects and for the objects in the pages.\<close>

definition cache_ok :: "kmem_cache \<Rightarrow> bool" where
  "cache_ok c \<longleftrightarrow> kc_gfporder c \<le> MAX_PAGE_ORDER \<and> 0 < unat (kc_objsize c) \<and>
     0 < unat (kc_num c) \<and> unat (kc_num c) < 0xFFFF \<and>
     64 + 2 * unat (kc_num c) \<le> unat (kc_colour_off c) \<and>
     unat (kc_colour_off c) + unat (kc_num c) * unat (kc_objsize c) \<le> 4096 * 2 ^ unat (kc_gfporder c)"

text \<open>Slab \<open>a\<close> of cache \<open>i\<close> with free objects \<open>fl\<close>, and the pages it occupies.\<close>

definition slab_ok :: "slab_state \<Rightarrow> nat \<Rightarrow> u64 \<Rightarrow> nat list \<Rightarrow> bool" where
  "slab_ok s i a fl \<longleftrightarrow>
     (let c = cache_cache s ! i; f = virt_to_page a
      in a = va (0x1000 * of_nat f) \<and> a \<noteq> 0 \<and> allocated (mem_map s) f (kc_gfporder c) \<and>
         (\<forall>j\<in>block f (kc_gfporder c). pg_slab (mem_map s ! j) = a) \<and>
         (\<exists>x. slabs s a = Some x \<and> sl_cache x = Some i \<and> sl_offset x = kc_colour_off c \<and>
              pool (unat (kc_num c)) (kc_objsize c) (a + kc_colour_off c) x fl))"

text \<open>The frames of the slab at \<open>a\<close> in cache \<open>i\<close>.\<close>

definition slab_block :: "slab_state \<Rightarrow> nat \<Rightarrow> u64 \<Rightarrow> nat set" where
  "slab_block s i a = block (virt_to_page a) (kc_gfporder (cache_cache s ! i))"

text \<open>\<open>L i\<close> are the slabs of cache \<open>i\<close>, in the order of its list; \<open>F a\<close> the free objects of slab \<open>a\<close>.\<close>

definition slab_inv :: "slab_state \<Rightarrow> (nat \<Rightarrow> u64 list) \<Rightarrow> (u64 \<Rightarrow> nat list) \<Rightarrow> bool" where
  "slab_inv s L F \<longleftrightarrow>
     mm_inv s \<and> (\<forall>i<length (mem_map s). pg_virtual (mem_map s ! i) = va (0x1000 * of_nat i)) \<and>
     length (cache_cache s) = unat (cache_cache_max s) \<and> length (cache_cache s) \<le> 128 \<and>
     unat (cache_base s) mod 64 = 0 \<and>
     (\<forall>i. named s i \<longrightarrow> cache_ok (cache_cache s ! i) \<and> dlist (lists s) (slabs_head s i) (L i) \<and>
        (\<forall>a\<in>set (L i). slab_ok s i a (F a))) \<and>
     (\<forall>i j a b. named s i \<and> named s j \<and> a \<in> set (L i) \<and> b \<in> set (L j) \<and> (i, a) \<noteq> (j, b) \<longrightarrow>
        slab_block s i a \<inter> slab_block s j b = {})"

lemma slab_invD:
  assumes "slab_inv s L F"
  shows "mm_inv s" and "i < length (mem_map s) \<Longrightarrow> pg_virtual (mem_map s ! i) = va (0x1000 * of_nat i)"
    and "length (cache_cache s) = unat (cache_cache_max s)"
    and "named s i \<Longrightarrow> cache_ok (cache_cache s ! i)"
    and "named s i \<Longrightarrow> dlist (lists s) (slabs_head s i) (L i)"
    and "named s i \<Longrightarrow> a \<in> set (L i) \<Longrightarrow> slab_ok s i a (F a)"
    and "named s i \<Longrightarrow> named s j \<Longrightarrow> a \<in> set (L i) \<Longrightarrow> b \<in> set (L j) \<Longrightarrow> (i, a) \<noteq> (j, b) \<Longrightarrow>
      slab_block s i a \<inter> slab_block s j b = {}"
  using assms unfolding slab_inv_def by blast+

lemma slab_distinct:
  assumes inv: "slab_inv s L F" and "named s i" "named s j" "a \<in> set (L i)" "a \<in> set (L j)"
  shows "i = j"
proof (rule ccontr)
  assume "i \<noteq> j"
  then have "slab_block s i a \<inter> slab_block s j a = {}" using slab_invD(7) [OF inv] assms by blast
  then show False using block_start unfolding slab_block_def by blast
qed

subsection \<open>Finding a slab\<close>

lemma pool_usable:
  assumes "pool (unat (kc_num c)) z sm x fl"
  shows "(sl_free x \<noteq> ucast BUFCTL_END \<and> sl_inuse x < kc_num c) \<longleftrightarrow> fl \<noteq> []"
proof (cases fl)
  case Nil
  then show ?thesis using assms by (simp add: pool_def)
next
  case (Cons i gl)
  then have "sl_free x = of_nat i" "i < 0xFFFF" and "unat (sl_inuse x) < unat (kc_num c)"
    using assms by (auto simp: pool_def)
  then have "unat (sl_free x) \<noteq> unat (ucast BUFCTL_END :: u64)" by (simp add: kconst)
  then have "sl_free x \<noteq> ucast BUFCTL_END" by metis
  then show ?thesis using Cons \<open>unat (sl_inuse x) < _\<close> by (simp add: word_less_nat_alt)
qed

lemma usable_slab:
  assumes "slab_ok s i a fl" and "c = cache_cache s ! i"
  shows "usable s c a u = Done ((), fl \<noteq> [])"
  using assms pool_usable [of c "kc_objsize c" "a + kc_colour_off c"]
  by (auto simp: usable_def slab_ok_def slab_at_def Let_def)

lemma usable_loop:
  assumes "\<forall>a\<in>set xs. slab_ok s i a (F a)" and "c = cache_cache s ! i"
  shows "entry_loop (usable s c) xs hp () =
    Done ((), case find (\<lambda>a. F a \<noteq> []) xs of None \<Rightarrow> hp | Some a \<Rightarrow> a)"
  using assms by (induction xs) (auto simp: usable_slab)

lemma find_usable:
  assumes inv: "slab_inv s L F" and i: "named s i"
  shows "list_for_each_entry (usable s (cache_cache s ! i)) (lists s) (slabs_head s i) () =
    Done ((), case find (\<lambda>a. F a \<noteq> []) (L i) of None \<Rightarrow> slabs_head s i | Some a \<Rightarrow> a)"
  using usable_loop [of "L i" s i F, OF _ refl] slab_invD(6) [OF inv i]
  by (simp add: list_for_each_entry_dlist [OF slab_invD(5) [OF inv i]])

lemma find_split:
  "find P xs = Some a \<Longrightarrow> a \<in> set xs \<and> P a"
  by (induction xs) (auto split: if_splits)

subsection \<open>Taking an object from a slab\<close>

lemma put_slab_simps [simp]:
  "mem_map (put_slab a x s) = mem_map s" "cache_cache (put_slab a x s) = cache_cache s"
  "cache_cache_max (put_slab a x s) = cache_cache_max s" "cache_base (put_slab a x s) = cache_base s"
  "lists (put_slab a x s) = lists s" "contig_page_data (put_slab a x s) = contig_page_data s"
  "named (put_slab a x s) = named s" "slabs_head (put_slab a x s) = slabs_head s"
  "slab_block (put_slab a x s) = slab_block s" "mem_map_base (put_slab a x s) = mem_map_base s"
  by (simp_all add: put_slab_def named_def slabs_head_def slab_block_def fun_eq_iff)

lemma mm_inv_put_slab [simp]: "mm_inv (put_slab a x s) = mm_inv s"
  by (simp add: mm_inv_def put_slab_def split: list.split)

lemma slab_ok_other:
  "b \<noteq> a \<Longrightarrow> slab_ok (put_slab a x s) i b fl = slab_ok s i b fl"
  by (simp add: slab_ok_def Let_def put_slab_def)

lemma slab_inv_put:
  assumes inv: "slab_inv s L F" and i: "named s i" and a: "a \<in> set (L i)"
    and new: "slab_ok (put_slab a x s) i a fl"
  shows "slab_inv (put_slab a x s) L (F(a := fl))"
proof -
  have "slab_ok (put_slab a x s) j b ((F(a := fl)) b)" if "named s j" "b \<in> set (L j)" for j b
  proof (cases "b = a")
    case True
    then have "j = i" using slab_distinct [OF inv that(1) i] that(2) a by blast
    then show ?thesis using True new by simp
  next
    case False
    then show ?thesis using slab_invD(6) [OF inv that] by (simp add: slab_ok_other)
  qed
  then show ?thesis using inv unfolding slab_inv_def by simp
qed

lemma slab_ok_take:
  assumes ok: "slab_ok s i a (k # fl)" and c: "c = cache_cache s ! i"
  shows "\<exists>x x'. slab_at s a = Done x \<and>
    take_object (kc_objsize c) x = Done (object (kc_objsize c) (a + kc_colour_off c) k, x') \<and>
    slab_ok (put_slab a x' s) i a fl"
proof -
  obtain x where x: "slabs s a = Some x" "sl_cache x = Some i" "sl_offset x = kc_colour_off c"
    "pool (unat (kc_num c)) (kc_objsize c) (a + kc_colour_off c) x (k # fl)"
    using ok c by (auto simp: slab_ok_def Let_def)
  obtain x' where "take_object (kc_objsize c) x = Done (object (kc_objsize c) (a + kc_colour_off c) k, x')"
    "pool (unat (kc_num c)) (kc_objsize c) (a + kc_colour_off c) x' fl"
    "sl_offset x' = sl_offset x" "sl_cache x' = sl_cache x"
    using pool_take [OF x(4)] by blast
  then show ?thesis using x ok c
    by (auto simp: slab_at_def slab_ok_def Let_def put_slab_def)
qed

text \<open>The step of \<^verbatim>\<open>caos_kmalloc\<close> when the cache has a slab with a free object.\<close>

lemma unat_mod_64:
  "unat (a + b :: u64) mod 64 = (unat a + unat b) mod 64"
  "unat (a * b :: u64) mod 64 = (unat a * unat b) mod 64"
  by (simp_all add: unat_word_ariths mod_mod_cancel)

lemma page_mod_64: "unat (va (0x1000 * of_nat f)) mod 64 = 0"
proof -
  have "unat (0x1000 * of_nat f :: u64) mod 64 = 0" by (simp add: unat_mod_64)
  then show ?thesis
    using mod_add_left_eq [of "unat (0x1000 * of_nat f :: u64)" 64 "unat PAGE_OFFSET"]
    by (simp add: va_def unat_mod_64(1) PAGE_OFFSET_def)
qed

lemma head_mod_64: "unat (cache_base s) mod 64 = 0 \<Longrightarrow> unat (slabs_head s j) mod 64 = 32"
proof -
  assume b: "unat (cache_base s) mod 64 = 0"
  have k: "unat (sizeof_kmem_cache * of_nat j) mod 64 = 0" by (simp add: unat_mod_64 sizeof_kmem_cache_def)
  have "unat (slabs_head s j) mod 64 =
      ((unat (cache_base s) + unat (sizeof_kmem_cache * of_nat j)) mod 64 + 32) mod 64"
    unfolding slabs_head_def unat_mod_64(1) [of _ 32]
    by (subst mod_add_left_eq [symmetric], subst unat_mod_64(1)) simp
  also have "(unat (cache_base s) + unat (sizeof_kmem_cache * of_nat j)) mod 64 = 0"
    using b k by (metis add_0 mod_0 mod_add_eq)
  finally show ?thesis by simp
qed

lemma slab_not_head:
  assumes inv: "slab_inv s L F" and i: "named s i" and a: "a \<in> set (L i)"
  shows "a \<noteq> slabs_head s j"
proof -
  have "a = va (0x1000 * of_nat (virt_to_page a))"
    using slab_invD(6) [OF inv i a] unfolding slab_ok_def Let_def by blast
  then have "unat a mod 64 = 0" using page_mod_64 by metis
  moreover have "unat (slabs_head s j) mod 64 = 32" using inv by (simp add: head_mod_64 slab_inv_def)
  ultimately show ?thesis by auto
qed

lemma kmalloc_from_slab:
  assumes inv: "slab_inv s L F" and i: "named s i" and r: "r \<le> KMALLOC_RETRY_MAX"
    and a: "find (\<lambda>a. F a \<noteq> []) (L i) = Some a" and fl: "F a = k # fl"
  shows "\<exists>s'. kmalloc_retry sz flags i r s =
      Done (object (kc_objsize (cache_cache s ! i)) (a + kc_colour_off (cache_cache s ! i)) k, s') \<and>
    slab_inv s' L (F(a := fl)) \<and> mem_map s' = mem_map s \<and> cache_cache s' = cache_cache s"
proof -
  define c where "c = cache_cache s ! i"
  have aL: "a \<in> set (L i)" using find_split [OF a] by simp
  have len: "i < length (cache_cache s)" using i by (simp add: named_def)
  obtain x x' where x: "slab_at s a = Done x"
    "take_object (kc_objsize c) x = Done (object (kc_objsize c) (a + kc_colour_off c) k, x')"
    "slab_ok (put_slab a x' s) i a fl"
    using slab_ok_take [of s i a k fl c] slab_invD(6) [OF inv i aL] fl by (auto simp: c_def)
  have "kmalloc_retry sz flags i r s = Done (object (kc_objsize c) (a + kc_colour_off c) k, put_slab a x' s)"
    using find_usable [OF inv i] slab_not_head [OF inv i aL, of i] r a x len
    by (subst kmalloc_retry.simps) (simp add: outcome_simps c_def)
  then show ?thesis using slab_inv_put [OF inv i aL x(3)] by (auto simp: c_def)
qed

subsection \<open>Giving an object back\<close>

lemma slab_page_of:
  assumes f: "f < 2 ^ 32" and d: "unat d < 2 ^ 40"
  shows "virt_to_page (va (0x1000 * of_nat f) + d) = f + unat d div 4096"
proof -
  have pf: "unat (0x1000 * of_nat f :: u64) = 4096 * f"
    using f by (simp add: unat_word_ariths unat_of_nat)
  then have "unat (0x1000 * of_nat f + d) = 4096 * f + unat d"
    using f d by (subst unat_add_u64) simp_all
  moreover have "pa (va (0x1000 * of_nat f) + d) = 0x1000 * of_nat f + d" by (simp add: pa_def va_def)
  ultimately show ?thesis
    by (simp add: virt_to_page_def kconst unat_drop_bit_eq drop_bit_eq_div [of 12 "4096 * f + unat d"])
qed

lemma object_page:
  assumes ok: "slab_ok s i a fl" and c: "c = cache_cache s ! i" "cache_ok c" and k: "k < unat (kc_num c)"
    and len: "length (mem_map s) < 2 ^ 32"
  shows "virt_to_page (object (kc_objsize c) (a + kc_colour_off c) k) \<in> block (virt_to_page a) (kc_gfporder c)"
    and "unat (object (kc_objsize c) (a + kc_colour_off c) k - (a + kc_colour_off c)) = k * unat (kc_objsize c)"
proof -
  define f where "f = virt_to_page a"
  define z where "z = kc_objsize c"
  have a: "a = va (0x1000 * of_nat f)" "allocated (mem_map s) f (kc_gfporder c)"
    using ok c(1) by (simp_all add: slab_ok_def Let_def f_def)
  obtain x where p: "pool (unat (kc_num c)) z (a + kc_colour_off c) x fl"
    using ok c(1) by (auto simp: slab_ok_def Let_def z_def)
  have fit: "unat (kc_colour_off c) + unat (kc_num c) * unat z \<le> 4096 * 2 ^ unat (kc_gfporder c)"
    "kc_gfporder c \<le> MAX_PAGE_ORDER" "0 < unat z"
    using c(2) by (simp_all add: cache_ok_def z_def)
  note off = unat_object_offset [OF p k]
  show "unat (object (kc_objsize c) (a + kc_colour_off c) k - (a + kc_colour_off c)) = k * unat (kc_objsize c)"
    using off(1) by (simp add: z_def)
  define d where "d = kc_colour_off c + of_nat k * z"
  have kz: "unat (of_nat k * z) = k * unat z" using off(1) by (simp add: object_def)
  have lt: "unat (kc_colour_off c) + k * unat z < 4096 * 2 ^ unat (kc_gfporder c)"
    using fit off(2) by linarith
  have small: "(4096::nat) * 2 ^ unat (kc_gfporder c) \<le> 131072" using pow_order_le [OF fit(2)] by simp
  then have ud: "unat d = unat (kc_colour_off c) + k * unat z"
    using lt kz unfolding d_def by (subst unat_add_u64) simp_all
  have "f < 2 ^ 32" using a(2) len by (simp add: allocated_def order_less_le_trans [of f "f + 2 ^ unat (kc_gfporder c)"])
  then have "virt_to_page (va (0x1000 * of_nat f) + d) = f + unat d div 4096"
    by (rule slab_page_of) (use ud lt small in simp)
  moreover have "object z (a + kc_colour_off c) k = va (0x1000 * of_nat f) + d"
    by (simp add: object_def d_def a(1))
  moreover have "unat d div 4096 < 2 ^ unat (kc_gfporder c)"
    using lt ud by (simp add: less_mult_imp_div_less mult.commute)
  ultimately show "virt_to_page (object (kc_objsize c) (a + kc_colour_off c) k) \<in> block (virt_to_page a) (kc_gfporder c)"
    by (simp add: block_def z_def f_def)
qed

lemma kfree_object:
  assumes inv: "slab_inv s L F" and i: "named s i" and a: "a \<in> set (L i)"
    and k: "k < unat (kc_num (cache_cache s ! i))" "k \<notin> set (F a)"
  shows "\<exists>s'. caos_kfree (object (kc_objsize (cache_cache s ! i)) (a + kc_colour_off (cache_cache s ! i)) k) s = Done s' \<and>
    slab_inv s' L (F(a := k # F a)) \<and> mem_map s' = mem_map s \<and> cache_cache s' = cache_cache s"
proof -
  define c where "c = cache_cache s ! i"
  define z where "z = kc_objsize c"
  define obj where "obj = object z (a + kc_colour_off c) k"
  have ok: "slab_ok s i a (F a)" and cok: "cache_ok c" and mm: "mm_inv s"
    using slab_invD [OF inv] i a by (auto simp: c_def)
  have len: "length (mem_map s) < 2 ^ 32" using mm by (rule mm_invE)
  have kn: "k < unat (kc_num c)" using k by (simp add: c_def)
  note page = object_page [OF ok c_def cok kn len, folded z_def, folded obj_def]
  obtain x where x: "slabs s a = Some x" "sl_cache x = Some i" "sl_offset x = kc_colour_off c"
    "pool (unat (kc_num c)) z (a + kc_colour_off c) x (F a)"
    using ok by (auto simp: slab_ok_def Let_def z_def c_def)
  have al: "allocated (mem_map s) (virt_to_page a) (kc_gfporder c)" and a0: "a \<noteq> 0"
    and ps: "pg_slab (mem_map s ! virt_to_page obj) = a"
    using ok page(1) by (auto simp: slab_ok_def Let_def c_def)
  obtain x' where x': "put_object (of_nat k) x = Done x'"
    "pool (unat (kc_num c)) z (a + kc_colour_off c) x' (k # F a)"
    "sl_offset x' = sl_offset x" "sl_cache x' = sl_cache x"
    using pool_put [OF x(4) kn k(2)] by blast
  have "sl_inuse x \<noteq> 0"
  proof
    assume "sl_inuse x = 0"
    then have "length (F a) = unat (kc_num c)" "distinct (F a)" "set (F a) \<subseteq> {..<unat (kc_num c)}"
      using x(4) sp.bounded [OF x(4)] by (auto simp: pool_def)
    then have "set (F a) = {..<unat (kc_num c)}"
      by (intro card_subset_eq) (simp_all add: distinct_card)
    then show False using kn k(2) by simp
  qed
  moreover have idx: "(obj - sl_s_mem x) div z = of_nat k"
  proof -
    have "unat ((obj - sl_s_mem x) div z) = k"
      using page(2) x(4) by (simp add: unat_div pool_def)
    then show ?thesis by (metis of_nat_unat ucast_id)
  qed
  moreover have "z \<noteq> 0" using cok by (auto simp: cache_ok_def z_def)
  ultimately have "caos_kfree obj s = Done (put_slab a x' s)"
    using x x' a0 ps i allocated_in_range [OF al page(1)]
    by (simp add: caos_kfree_def outcome_simps slab_at_def Let_def named_def c_def [symmetric] z_def [symmetric])
  moreover have "slab_ok (put_slab a x' s) i a (k # F a)"
    using ok x x' by (auto simp: slab_ok_def Let_def c_def z_def put_slab_def)
  ultimately show ?thesis using slab_inv_put [OF inv i a]
    by (auto simp: obj_def z_def c_def)
qed

subsection \<open>Growing a cache\<close>

text \<open>Two descriptor tables that agree on what the page allocator looks at.\<close>

definition same_alloc :: "page list \<Rightarrow> page list \<Rightarrow> bool" where
  "same_alloc m m' \<longleftrightarrow> length m' = length m \<and>
     (\<forall>i<length m. pg_count (m' ! i) = pg_count (m ! i) \<and> pg_private (m' ! i) = pg_private (m ! i) \<and>
        pg_zone (m' ! i) = pg_zone (m ! i) \<and> pg_virtual (m' ! i) = pg_virtual (m ! i))"

lemma same_alloc_mm_inv:
  assumes "same_alloc (mem_map s) (mem_map s')" and "contig_page_data s' = contig_page_data s" and "mm_inv s"
  shows "mm_inv s'"
proof -
  have "free_count (mem_map s') = free_count (mem_map s)"
    using assms(1) by (intro free_count_cong) (auto simp: same_alloc_def)
  then show ?thesis using assms by (auto simp: mm_inv_def same_alloc_def list_all_length split: list.splits)
qed

lemma same_alloc_free_set: "same_alloc m m' \<Longrightarrow> free_set m' = free_set m"
  by (auto simp: same_alloc_def free_set_def)

lemma same_alloc_allocated: "same_alloc m m' \<Longrightarrow> allocated m f order \<Longrightarrow> allocated m' f order"
  by (auto simp: same_alloc_def allocated_def order_less_le_trans [of f "f + 2 ^ unat order"])

lemma mark_slab_fold:
  "\<forall>i\<in>set is. pg + i < length (mem_map s) \<Longrightarrow>
   mark_slab pg v is s = Done (s\<lparr>mem_map :=
     fold (\<lambda>l m. m[l := (m ! l)\<lparr>pg_flags := SetPageSlab (pg_flags (m ! l)), pg_slab := v\<rparr>])
       (map ((+) pg) is) (mem_map s)\<rparr>)"
  by (induction "is" arbitrary: s) (auto simp: outcome_simps)

lemma mark_slab_ok:
  assumes "pg + n \<le> length (mem_map s)"
  shows "\<exists>m. mark_slab pg v (rev [0..<n]) s = Done (s\<lparr>mem_map := m\<rparr>) \<and> same_alloc (mem_map s) m \<and>
    (\<forall>i<length (mem_map s). pg_slab (m ! i) = (if pg \<le> i \<and> i < pg + n then v else pg_slab (mem_map s ! i)))"
proof -
  let ?f = "\<lambda>p. p\<lparr>pg_flags := SetPageSlab (pg_flags p), pg_slab := v\<rparr>"
  let ?ls = "map ((+) pg) (rev [0..<n])"
  define m where "m = fold (\<lambda>l m. m[l := ?f (m ! l)]) ?ls (mem_map s)"
  have mem: "i \<in> set ?ls \<longleftrightarrow> pg \<le> i \<and> i < pg + n" for i
    by (auto simp: image_iff Bex_def intro: exI [of _ "i - pg"])
  have "length m = length (mem_map s)" and
    "\<forall>i<length (mem_map s). m ! i = (if i \<in> set ?ls then ?f (mem_map s ! i) else mem_map s ! i)"
    using fold_set_zone [of ?ls "mem_map s" ?f] assms unfolding m_def by (auto simp: distinct_map)
  moreover have "mark_slab pg v (rev [0..<n]) s = Done (s\<lparr>mem_map := m\<rparr>)"
    unfolding m_def using assms by (subst mark_slab_fold) auto
  ultimately show ?thesis
    by (intro exI [of _ m]) (auto simp: same_alloc_def mem simp del: set_map)
qed

lemma unat_va_page: "f < 2 ^ 32 \<Longrightarrow> unat (va (0x1000 * of_nat f)) = 4096 * f + 0xFFFF800000000000"
proof -
  assume f: "f < 2 ^ 32"
  then have "unat (0x1000 * of_nat f :: u64) = 4096 * f" by (simp add: unat_word_ariths unat_of_nat)
  then show ?thesis using f unfolding va_def PAGE_OFFSET_def by (subst unat_add_u64) simp_all
qed

lemma heads_differ:
  assumes "i < 128" "j < 128" "i \<noteq> j"
  shows "slabs_head s i \<noteq> slabs_head s j"
proof
  assume "slabs_head s i = slabs_head s j"
  then have "sizeof_kmem_cache * of_nat i = sizeof_kmem_cache * of_nat j" by (simp add: slabs_head_def)
  then have "unat (sizeof_kmem_cache * of_nat i) = unat (sizeof_kmem_cache * of_nat j)" by simp
  then show False using assms by (simp add: sizeof_kmem_cache_def unat_word_ariths unat_of_nat)
qed

lemma getpages_ok:
  assumes inv: "slab_inv s L F" and i: "named s i" and c: "c = cache_cache s ! i"
    and alloc: "alloc_pages flags (kc_gfporder c) s = Done (Some f, s1)"
  shows "\<exists>m. kmem_getpages i flags s = Done (va (0x1000 * of_nat f), s1\<lparr>mem_map := m\<rparr>) \<and>
    same_alloc (mem_map s1) m \<and>
    (\<forall>j<length (mem_map s). pg_slab (m ! j) =
       (if j \<in> block f (kc_gfporder c) then va (0x1000 * of_nat f) else pg_slab (mem_map s ! j)))"
proof -
  have mm: "mm_inv s" using slab_invD(1) [OF inv] .
  note a = alloc_pages_Some [OF mm alloc]
  have "run_free (mem_map s) f (2 ^ unat (kc_gfporder c))" using a(3) by (simp add: run_free_subset)
  then have fl: "f + 2 ^ unat (kc_gfporder c) \<le> length (mem_map s1)" by (simp add: a(2) run_free_def)
  then have f: "f < length (mem_map s1)" by (rule order_less_le_trans [rotated]) simp
  have v: "pg_virtual (mem_map s1 ! f) = va (0x1000 * of_nat f)"
    using slab_invD(2) [OF inv] f by (simp add: a(2) taken_def)
  have ps: "pg_slab (mem_map s1 ! j) = pg_slab (mem_map s ! j)" if "j < length (mem_map s)" for j
    using that by (simp add: a(2) taken_def)
  obtain m where "mark_slab f (va (0x1000 * of_nat f)) (rev [0..<2 ^ unat (kc_gfporder c)]) s1 = Done (s1\<lparr>mem_map := m\<rparr>)"
    "same_alloc (mem_map s1) m"
    "\<forall>j<length (mem_map s1). pg_slab (m ! j) =
      (if f \<le> j \<and> j < f + 2 ^ unat (kc_gfporder c) then va (0x1000 * of_nat f) else pg_slab (mem_map s1 ! j))"
    using mark_slab_ok [OF fl] by blast
  then show ?thesis
    using i c alloc f v ps
    by (intro exI [of _ m]) (auto simp: kmem_getpages_def named_def outcome_simps block_def a(2))
qed

text \<open>The list operations of \<^verbatim>\<open>kmem_cache_grow\<close> on a slab that is in no list.\<close>

lemma grow_lists:
  assumes inv: "slab_inv s L F" and i: "named s i"
    and fresh: "\<And>j. named s j \<Longrightarrow> a \<notin> set (L j)" and nohead: "\<And>j. a \<noteq> slabs_head s j"
    and j: "named s j"
  shows "dlist (list_add a (slabs_head s i) (INIT_LIST_HEAD a (lists s))) (slabs_head s j)
    ((L(i := a # L i)) j)"
proof -
  define h where "h = INIT_LIST_HEAD a (lists s)"
  have hk: "dlist h (slabs_head s k) (L k)" if "named s k" for k
    using slab_invD(5) [OF inv that] fresh [OF that] nohead [of k]
    by (subst (asm) dlist_frame [symmetric, of _ _ h]) (auto simp: h_def lh_defs)
  show ?thesis
  proof (cases "j = i")
    case True
    then show ?thesis using dlist_add [OF hk [OF i], of a] fresh [OF i] nohead [of i] by (simp add: h_def)
  next
    case False
    have "list_add a (slabs_head s i) h b = h b" if b: "b \<in> set (slabs_head s j # L j)" for b
    proof (rule list_add_other [OF hk [OF i]])
      have "length (cache_cache s) \<le> 128" using inv by (simp add: slab_inv_def)
      then have "slabs_head s j \<noteq> slabs_head s i"
        using heads_differ [of j i s] False i j by (simp add: named_def)
      moreover have "b \<in> set (L j) \<Longrightarrow> b \<notin> set (L i)" using slab_distinct [OF inv j i] False by blast
      ultimately show "b \<notin> set (a # slabs_head s i # L i)"
        using b fresh [OF j] nohead [of j] slab_not_head [OF inv i] slab_not_head [OF inv j] by auto
    qed
    then have "dlist (list_add a (slabs_head s i) h) (slabs_head s j) (L j) = dlist h (slabs_head s j) (L j)"
      by (rule dlist_frame)
    then show ?thesis using False hk [OF j] by (simp add: h_def)
  qed
qed

lemma pool_new:
  assumes "cache_ok c" and "new_bufctl (unat (kc_num c)) = Done b"
  shows "pool (unat (kc_num c)) (kc_objsize c) (a + kc_colour_off c)
    \<lparr>sl_s_mem = a + kc_colour_off c, sl_inuse = 0, sl_free = 0, sl_offset = kc_colour_off c,
     sl_bufctl = b, sl_cache = Some i\<rparr> [0..<unat (kc_num c)]"
proof -
  have c: "0 < unat (kc_num c)" "unat (kc_num c) < 0xFFFF" "0 < unat (kc_objsize c)"
    "unat (kc_num c) * unat (kc_objsize c) \<le> 4096 * 2 ^ unat (kc_gfporder c)"
    "kc_gfporder c \<le> MAX_PAGE_ORDER"
    using assms(1) unfolding cache_ok_def by auto
  have "length b = unat (kc_num c)" "chain b 0 [0..<unat (kc_num c)]"
    using new_bufctl_chain [OF c(1,2)] assms(2) by auto
  moreover have "unat (kc_num c) * unat (kc_objsize c) < 2 ^ 64"
    using c(4) pow_order_le [OF c(5)] by simp
  ultimately show ?thesis using c by (simp add: pool_def)
qed

text \<open>Entering a new slab at the head of the list of cache \<open>i\<close>.\<close>

lemma slab_inv_insert:
  assumes inv: "slab_inv s L F" and i: "named s i"
    and frame: "cache_cache s' = cache_cache s" "cache_cache_max s' = cache_cache_max s"
      "cache_base s' = cache_base s" "lists s' = list_add a (slabs_head s i) (INIT_LIST_HEAD a (lists s))"
    and mm': "mm_inv s'" and virt: "\<And>j. j < length (mem_map s') \<Longrightarrow> pg_virtual (mem_map s' ! j) = va (0x1000 * of_nat j)"
    and new: "slab_ok s' i a fl" and keep: "\<And>j b. named s j \<Longrightarrow> b \<in> set (L j) \<Longrightarrow> slab_ok s' j b (F b)"
    and apart: "\<And>j b. named s j \<Longrightarrow> b \<in> set (L j) \<Longrightarrow> slab_block s j b \<inter> slab_block s i a = {}"
    and nohead: "\<And>j. a \<noteq> slabs_head s j"
  shows "slab_inv s' (L(i := a # L i)) (F(a := fl))"
proof -
  have eqs: "named s' = named s" "slabs_head s' = slabs_head s" "slab_block s' = slab_block s"
    using frame by (simp_all add: named_def slabs_head_def slab_block_def fun_eq_iff)
  have fresh: "a \<notin> set (L j)" if j: "named s j" for j
  proof
    assume a: "a \<in> set (L j)"
    have "virt_to_page a \<in> slab_block s j a" "virt_to_page a \<in> slab_block s i a"
      by (simp_all add: slab_block_def)
    then show False using apart [OF j a] by blast
  qed
  have lists': "dlist (lists s') (slabs_head s j) ((L(i := a # L i)) j)" if "named s j" for j
    unfolding frame using grow_lists [OF inv i fresh nohead that] .
  have mem: "(j, b) = (i, a) \<or> b \<in> set (L j)" if "b \<in> set ((L(i := a # L i)) j)" for j b
    using that by (auto split: if_splits)
  have oks: "slab_ok s' j b ((F(a := fl)) b)" if "named s j" "b \<in> set ((L(i := a # L i)) j)" for j b
    using mem [OF that(2)] new keep [OF that(1)] fresh [OF that(1)] by auto
  have disj: "slab_block s j b \<inter> slab_block s k d = {}"
    if n: "named s j" "named s k" and b: "b \<in> set ((L(i := a # L i)) j)" and d: "d \<in> set ((L(i := a # L i)) k)"
      and ne: "(j, b) \<noteq> (k, d)" for j k b d
    using mem [OF b] mem [OF d] ne apart [OF n(1), of b] apart [OF n(2), of d]
      slab_invD(7) [OF inv n, of b d] by auto
  show ?thesis
    unfolding slab_inv_def eqs frame(1-3)
    by (intro conjI allI impI ballI; (elim conjE)?)
      (use mm' virt lists' oks disj slab_invD(3,4) [OF inv] inv in \<open>simp_all add: slab_inv_def\<close>)
qed

text \<open>What the page operations of \<^verbatim>\<open>kmem_getpages\<close> keep of the slabs that exist.\<close>

lemma slab_ok_keep:
  assumes ok: "slab_ok s j b fl" and sub: "block f order \<subseteq> free_set (mem_map s)"
    and m: "same_alloc (took gm order f (mem_map s)) (mem_map s')"
    and ps: "\<forall>k<length (mem_map s). k \<notin> block f order \<longrightarrow> pg_slab (mem_map s' ! k) = pg_slab (mem_map s ! k)"
    and frame: "cache_cache s' = cache_cache s" "slabs s' b = slabs s b"
  shows "slab_ok s' j b fl"
proof -
  have al: "allocated (mem_map s) (virt_to_page b) (kc_gfporder (cache_cache s ! j))"
    using ok by (simp add: slab_ok_def Let_def)
  have "allocated (mem_map s') (virt_to_page b) (kc_gfporder (cache_cache s ! j))"
    by (rule same_alloc_allocated [OF m allocated_took_other [OF al sub]])
  moreover have "pg_slab (mem_map s' ! k) = pg_slab (mem_map s ! k)"
    if "k \<in> block (virt_to_page b) (kc_gfporder (cache_cache s ! j))" for k
    using that ps allocated_in_range [OF al that] allocated_block [OF al] sub by blast
  ultimately show ?thesis using ok frame by (auto simp: slab_ok_def Let_def)
qed

lemma grow_ok:
  assumes inv: "slab_inv s L F" and i: "named s i" and c: "c = cache_cache s ! i"
    and alloc: "alloc_pages flags (kc_gfporder c) s = Done (Some f, s1)"
  defines "a \<equiv> va (0x1000 * of_nat f)"
  shows "\<exists>s'. kmem_cache_grow i flags s = Done (1, s') \<and> cache_cache s' = cache_cache s \<and>
    slab_inv s' (L(i := a # L i)) (F(a := [0..<unat (kc_num c)])) \<and> (\<forall>j. named s j \<longrightarrow> a \<notin> set (L j))"
proof -
  have mm: "mm_inv s" using slab_invD(1) [OF inv] .
  note al = alloc_pages_Some [OF mm alloc]
  have cok: "cache_ok c" using slab_invD(4) [OF inv i] c by simp
  have same: "same_caches s s1" using alloc_pages_keeps [OF alloc] .
  obtain m where m: "kmem_getpages i flags s = Done (a, s1\<lparr>mem_map := m\<rparr>)" "same_alloc (mem_map s1) m"
    "\<forall>j<length (mem_map s). pg_slab (m ! j) = (if j \<in> block f (kc_gfporder c) then a else pg_slab (mem_map s ! j))"
    using getpages_ok [OF inv i c alloc] by (auto simp: a_def)
  have "f < length (mem_map s)" using subsetD [OF al(3) block_start] by (simp add: free_set_def)
  moreover have "length (mem_map s) < 2 ^ 32" using mm by (rule mm_invE)
  ultimately have f: "f < 2 ^ 32" by simp
  have vp: "virt_to_page a = f" by (simp add: a_def virt_to_page_virt [OF f])
  have "unat a \<noteq> 0" unfolding a_def using unat_va_page [OF f] by simp
  then have a0: "a \<noteq> 0" by auto
  have nohead: "a \<noteq> slabs_head s j" for j
    using page_mod_64 [of f] head_mod_64 [of s j] inv by (auto simp: a_def slab_inv_def)
  have apart: "slab_block s j b \<inter> block f (kc_gfporder c) = {}" if "named s j" "b \<in> set (L j)" for j b
  proof -
    have "allocated (mem_map s) (virt_to_page b) (kc_gfporder (cache_cache s ! j))"
      using slab_invD(6) [OF inv that] by (simp add: slab_ok_def Let_def)
    then show ?thesis using al(3) allocated_block unfolding slab_block_def by blast
  qed
  have blk: "slab_block s i a = block f (kc_gfporder c)" by (simp add: slab_block_def vp c)
  have fresh: "a \<notin> set (L j)" if "named s j" for j
    using apart [OF that, of a] vp block_start [of f] unfolding slab_block_def by (metis disjoint_iff)
  obtain bc where bc: "new_bufctl (unat (kc_num c)) = Done bc"
    using new_bufctl_chain [of "unat (kc_num c)"] cok by (auto simp: cache_ok_def)
  define x where "x = \<lparr>sl_s_mem = a + kc_colour_off c, sl_inuse = 0, sl_free = 0,
     sl_offset = kc_colour_off c, sl_bufctl = bc, sl_cache = Some i\<rparr>"
  define s' where "s' = (put_slab a x (s1\<lparr>mem_map := m\<rparr>))
     \<lparr>lists := list_add a (slabs_head s i) (INIT_LIST_HEAD a (lists s))\<rparr>"
  have eqs: "cache_cache s' = cache_cache s" "cache_cache_max s' = cache_cache_max s" "cache_base s' = cache_base s"
    "named s' = named s" "slabs_head s' = slabs_head s" "slab_block s' = slab_block s" "mem_map s' = m"
    "slabs s' = (slabs s)(a \<mapsto> x)" "contig_page_data s' = contig_page_data s1"
    "lists s' = list_add a (slabs_head s i) (INIT_LIST_HEAD a (lists s))"
    using same by (simp_all add: s'_def put_slab_def same_caches_def named_def slabs_head_def slab_block_def fun_eq_iff)
  have heads: "slabs_head (put_slab a x (s1\<lparr>mem_map := m\<rparr>)) i = slabs_head s i" "lists s1 = lists s"
    using same by (simp_all add: put_slab_def same_caches_def slabs_head_def)
  have run: "kmem_cache_grow i flags s = Done (1, s')"
    using m(1) a0 i same bc c heads
    by (simp add: kmem_cache_grow_def outcome_simps same_caches_def named_def Let_def s'_def x_def)
  have len: "length m = length (mem_map s)" using m(2) by (simp add: same_alloc_def al(2))
  have inv1: "mm_inv s1" using alloc_at_inv [OF mm al(1,3)] al(2) by simp
  have mm': "mm_inv s'"
    by (rule same_alloc_mm_inv [OF _ _ inv1]) (simp_all add: eqs m(2))
  have virt: "pg_virtual (m ! j) = va (0x1000 * of_nat j)" if "j < length m" for j
    using that m(2) slab_invD(2) [OF inv] len by (auto simp: same_alloc_def al(2) taken_def)
  have new: "slab_ok s' i a [0..<unat (kc_num c)]"
  proof -
    have alf: "allocated m f (kc_gfporder c)"
      using same_alloc_allocated [OF m(2)] allocated_took [OF al(1,3)] al(2) by simp
    have "pg_slab (m ! j) = a" if "j \<in> block f (kc_gfporder c)" for j
      using that m(3) allocated_in_range [OF alf that] len by simp
    then show ?thesis
      using a0 alf pool_new [OF cok bc] c vp
      by (auto simp: slab_ok_def Let_def eqs x_def a_def)
  qed
  have keep: "slab_ok s' j b (F b)" if jb: "named s j" "b \<in> set (L j)" for j b
  proof (rule slab_ok_keep [OF slab_invD(6) [OF inv jb] al(3)])
    show "same_alloc (took flags (kc_gfporder c) f (mem_map s)) (mem_map s')"
      using m(2) by (simp add: eqs al(2))
    show "slabs s' b = slabs s b" using jb fresh by (auto simp: eqs)
  qed (use m(3) eqs in auto)
  have "slab_inv s' (L(i := a # L i)) (F(a := [0..<unat (kc_num c)]))"
    by (rule slab_inv_insert [OF inv i eqs(1-3,10) mm' _ new keep _ nohead])
      (use virt apart blk eqs in auto)
  then show ?thesis using run fresh eqs(1) by blast
qed

subsection \<open>Allocating an object\<close>

lemma kmalloc_growing:
  assumes inv: "slab_inv s L F" and i: "named s i"
    and none: "find (\<lambda>a. F a \<noteq> []) (L i) = None"
    and alloc: "alloc_pages flags (kc_gfporder (cache_cache s ! i)) s = Done (Some f, s1)"
  defines "a \<equiv> va (0x1000 * of_nat f)" and "c \<equiv> cache_cache s ! i"
  shows "\<exists>s'. kmalloc_retry sz flags i 0 s = Done (object (kc_objsize c) (a + kc_colour_off c) 0, s') \<and>
    slab_inv s' (L(i := a # L i)) (F(a := [1..<unat (kc_num c)])) \<and> cache_cache s' = cache_cache s \<and>
    (\<forall>j. named s j \<longrightarrow> a \<notin> set (L j))"
proof -
  have len: "i < length (cache_cache s)" using i by (simp add: named_def)
  obtain s2 where s2: "kmem_cache_grow i flags s = Done (1, s2)" "cache_cache s2 = cache_cache s"
    "slab_inv s2 (L(i := a # L i)) (F(a := [0..<unat (kc_num c)]))" "\<forall>j. named s j \<longrightarrow> a \<notin> set (L j)"
    using grow_ok [OF inv i refl alloc] by (auto simp: a_def c_def)
  have n: "0 < unat (kc_num c)" using slab_invD(4) [OF inv i] by (simp add: cache_ok_def c_def)
  then have full: "[0..<unat (kc_num c)] = 0 # [1..<unat (kc_num c)]" by (simp add: upt_rec)
  have i2: "named s2 i" using i s2(2) by (simp add: named_def)
  have r: "(1::nat) \<le> KMALLOC_RETRY_MAX" by (simp add: kconst)
  have "find (\<lambda>b. (F(a := [0..<unat (kc_num c)])) b \<noteq> []) ((L(i := a # L i)) i) = Some a"
    "(F(a := [0..<unat (kc_num c)])) a = 0 # [1..<unat (kc_num c)]"
    using n full by simp_all
  from kmalloc_from_slab [OF s2(3) i2 r this, where sz = sz and flags = flags]
  obtain s' where "kmalloc_retry sz flags i 1 s2 =
      Done (object (kc_objsize (cache_cache s2 ! i)) (a + kc_colour_off (cache_cache s2 ! i)) 0, s')"
    "slab_inv s' (L(i := a # L i)) ((F(a := [0..<unat (kc_num c)]))(a := [1..<unat (kc_num c)]))"
    "cache_cache s' = cache_cache s2"
    by blast
  note s' = this [unfolded fun_upd_upd s2(2), folded c_def]
  have "kmalloc_retry sz flags i 0 s = kmalloc_retry sz flags i 1 s2"
    using find_usable [OF inv i] none s2(1) len by (subst kmalloc_retry.simps) (simp add: outcome_simps)
  then show ?thesis using s' s2(2,4) by auto
qed

text \<open>The cache a request is served from: the first one whose objects are large enough.\<close>

definition serves :: "slab_state \<Rightarrow> u64 \<Rightarrow> nat \<Rightarrow> bool" where
  "serves s sz i \<longleftrightarrow> named s i \<and> sz \<le> kc_objsize (cache_cache s ! i) \<and>
     (\<forall>j<i. named s j \<and> kc_objsize (cache_cache s ! j) < sz)"

lemma seek_serves:
  assumes "serves s sz i" and "k \<le> i" and "length (cache_cache s) = mx"
  shows "seek_cache (cache_cache s) mx sz k = Done i"
  using assms(2)
proof (induction "i - k" arbitrary: k)
  case 0
  then have "k = i" by simp
  then show ?case using assms by (subst seek_cache.simps) (auto simp: serves_def named_def outcome_simps)
next
  case (Suc d)
  then have k: "k < i" by simp
  then have "named s k" "kc_objsize (cache_cache s ! k) < sz" using assms(1) by (auto simp: serves_def)
  then show ?case using Suc.hyps(1) [of "Suc k"] Suc.hyps(2) k assms(3)
    by (subst seek_cache.simps) (auto simp: named_def outcome_simps not_le)
qed

lemma kmalloc_serves:
  assumes inv: "slab_inv s L F" and sv: "serves s sz i"
  shows "caos_kmalloc sz flags s = kmalloc_retry sz flags i 0 s"
  using seek_serves [OF sv _ slab_invD(3) [OF inv]] sv slab_invD(3) [OF inv]
  by (auto simp: caos_kmalloc_def serves_def named_def outcome_simps)

subsection \<open>Live objects\<close>

text \<open>The objects handed out and not yet freed, as slab and number, with the bytes they occupy.\<close>

definition live :: "slab_state \<Rightarrow> (nat \<Rightarrow> u64 list) \<Rightarrow> (u64 \<Rightarrow> nat list) \<Rightarrow> (nat \<times> u64 \<times> nat) set" where
  "live s L F = {(i, a, k). named s i \<and> a \<in> set (L i) \<and> k < unat (kc_num (cache_cache s ! i)) \<and> k \<notin> set (F a)}"

definition obj_addr :: "slab_state \<Rightarrow> nat \<times> u64 \<times> nat \<Rightarrow> u64" where
  "obj_addr s ob = (case ob of (i, a, k) \<Rightarrow>
     object (kc_objsize (cache_cache s ! i)) (a + kc_colour_off (cache_cache s ! i)) k)"

definition obj_bytes :: "slab_state \<Rightarrow> nat \<times> u64 \<times> nat \<Rightarrow> u64 set" where
  "obj_bytes s ob = region (obj_addr s ob) (unat (kc_objsize (cache_cache s ! fst ob)))"

lemma obj_bytes_page:
  assumes inv: "slab_inv s L F" and i: "named s i" and a: "a \<in> set (L i)"
    and k: "k < unat (kc_num (cache_cache s ! i))" and y: "y \<in> obj_bytes s (i, a, k)"
  shows "virt_to_page y \<in> slab_block s i a"
proof -
  define c where "c = cache_cache s ! i"
  define f where "f = virt_to_page a"
  define sm where "sm = a + kc_colour_off c"
  have ok: "slab_ok s i a (F a)" and cok: "cache_ok c" and mm: "mm_inv s"
    using slab_invD [OF inv] i a by (auto simp: c_def)
  have len: "length (mem_map s) < 2 ^ 32" using mm by (rule mm_invE)
  have af: "a = va (0x1000 * of_nat f)" and al: "allocated (mem_map s) f (kc_gfporder c)"
    using ok by (simp_all add: slab_ok_def Let_def f_def c_def)
  obtain x where p: "pool (unat (kc_num c)) (kc_objsize c) sm x (F a)"
    using ok by (auto simp: slab_ok_def Let_def c_def sm_def)
  have kn: "k < unat (kc_num c)" using k by (simp add: c_def)
  have "y \<in> region (object (kc_objsize c) sm k) (unat (kc_objsize c))"
    using y by (simp add: obj_bytes_def obj_addr_def c_def sm_def)
  from object_region(2) [OF p kn this] unat_object_offset(2) [OF p kn]
  have d: "unat (y - sm) < unat (kc_num c) * unat (kc_objsize c)" by linarith
  have fit: "unat (kc_colour_off c) + unat (kc_num c) * unat (kc_objsize c) \<le> 4096 * 2 ^ unat (kc_gfporder c)"
    "kc_gfporder c \<le> MAX_PAGE_ORDER"
    using cok by (simp_all add: cache_ok_def)
  have lt: "unat (kc_colour_off c) + unat (y - sm) < 4096 * 2 ^ unat (kc_gfporder c)" using fit d by linarith
  have small: "(4096::nat) * 2 ^ unat (kc_gfporder c) \<le> 131072" using pow_order_le [OF fit(2)] by simp
  have ud: "unat (kc_colour_off c + (y - sm)) = unat (kc_colour_off c) + unat (y - sm)"
    using lt small by (subst unat_add_u64) simp_all
  have "f < 2 ^ 32" using al len by (simp add: allocated_def order_less_le_trans [of f "f + 2 ^ unat (kc_gfporder c)"])
  then have "virt_to_page (va (0x1000 * of_nat f) + (kc_colour_off c + (y - sm))) =
      f + unat (kc_colour_off c + (y - sm)) div 4096"
    by (rule slab_page_of) (use ud lt small in simp)
  moreover have "va (0x1000 * of_nat f) + (kc_colour_off c + (y - sm)) = y"
    unfolding af [symmetric] sm_def by simp
  moreover have "unat (kc_colour_off c + (y - sm)) div 4096 < 2 ^ unat (kc_gfporder c)"
    using lt ud by (simp add: less_mult_imp_div_less mult.commute)
  ultimately have "f \<le> virt_to_page y \<and> virt_to_page y < f + 2 ^ unat (kc_gfporder c)" by simp
  then show ?thesis by (simp add: slab_block_def block_def f_def c_def)
qed

lemma live_disjoint:
  assumes inv: "slab_inv s L F" and i: "named s i" "named s j"
    and a: "a \<in> set (L i)" "b \<in> set (L j)"
    and k: "k < unat (kc_num (cache_cache s ! i))" "l < unat (kc_num (cache_cache s ! j))"
    and ne: "(i, a, k) \<noteq> (j, b, l)"
  shows "obj_bytes s (i, a, k) \<inter> obj_bytes s (j, b, l) = {}"
proof (cases "(i, a) = (j, b)")
  case True
  obtain x where "pool (unat (kc_num (cache_cache s ! i))) (kc_objsize (cache_cache s ! i))
      (a + kc_colour_off (cache_cache s ! i)) x (F a)"
    using slab_invD(6) [OF inv i(1) a(1)] by (auto simp: slab_ok_def Let_def)
  from objects_disjoint [OF this, of k l] show ?thesis
    using True k ne by (simp add: obj_bytes_def obj_addr_def)
next
  case False
  then have "slab_block s i a \<inter> slab_block s j b = {}" using slab_invD(7) [OF inv i a] by blast
  then show ?thesis
    using obj_bytes_page [OF inv i(1) a(1) k(1)] obj_bytes_page [OF inv i(2) a(2) k(2)] by blast
qed

text \<open>
  What a successful \<^verbatim>\<open>caos_kmalloc\<close> promises: a new object that overlaps no live one, and
  nothing else of the set of live objects changes.
\<close>

definition fresh_object :: "slab_state \<Rightarrow> (nat \<Rightarrow> u64 list) \<Rightarrow> (u64 \<Rightarrow> nat list) \<Rightarrow> u64 \<Rightarrow> nat \<Rightarrow>
    slab_state \<Rightarrow> bool" where
  "fresh_object s L F obj i s' \<longleftrightarrow>
     (\<exists>a k L' F'. slab_inv s' L' F' \<and> cache_cache s' = cache_cache s \<and> obj = obj_addr s (i, a, k) \<and>
        (i, a, k) \<notin> live s L F \<and> live s' L' F' = insert (i, a, k) (live s L F) \<and>
        (\<forall>ob\<in>live s L F. obj_bytes s ob \<inter> obj_bytes s (i, a, k) = {}))"

lemma live_named: "cache_cache s' = cache_cache s \<Longrightarrow>
    named s' = named s \<and> obj_bytes s' = obj_bytes s \<and> obj_addr s' = obj_addr s"
  by (simp add: named_def obj_bytes_def obj_addr_def fun_eq_iff)

lemma fresh_objectI:
  assumes inv: "slab_inv s' L' F'" and cc: "cache_cache s' = cache_cache s"
    and new: "(i, a, k) \<notin> live s L F" and live: "live s' L' F' = insert (i, a, k) (live s L F)"
  shows "fresh_object s L F (obj_addr s (i, a, k)) i s'"
proof -
  have "obj_bytes s ob \<inter> obj_bytes s (i, a, k) = {}" if ob: "ob \<in> live s L F" for ob
  proof -
    obtain j b l where jbl: "ob = (j, b, l)" by (cases ob)
    have "(j, b, l) \<in> live s' L' F'" "(i, a, k) \<in> live s' L' F'" "(j, b, l) \<noteq> (i, a, k)"
      using live ob new jbl by auto
    then show ?thesis
      using live_disjoint [OF inv, of j i b a l k] live_named [OF cc] by (auto simp: live_def jbl)
  qed
  then show ?thesis unfolding fresh_object_def using assms by blast
qed

lemma live_take:
  assumes "named s i" "a \<in> set (L i)" "F a = k # fl" "k < unat (kc_num (cache_cache s ! i))" "distinct (k # fl)"
    and cc: "cache_cache s' = cache_cache s" and uniq: "\<And>j. named s j \<Longrightarrow> a \<in> set (L j) \<Longrightarrow> j = i"
  shows "live s' L (F(a := fl)) = insert (i, a, k) (live s L F)" and "(i, a, k) \<notin> live s L F"
proof -
  have n: "named s' = named s" using live_named [OF cc] by simp
  show "(i, a, k) \<notin> live s L F" using assms(3) by (simp add: live_def)
  have "(j, b, l) \<in> live s' L (F(a := fl)) \<longleftrightarrow> (j, b, l) = (i, a, k) \<or> (j, b, l) \<in> live s L F" for j b l
  proof (cases "b = a \<and> named s j \<and> a \<in> set (L j)")
    case True
    then have "j = i" using uniq by blast
    then show ?thesis using True assms(1-5) by (auto simp: live_def n cc)
  next
    case False
    then show ?thesis using assms(1,2) by (auto simp: live_def n cc)
  qed
  then show "live s' L (F(a := fl)) = insert (i, a, k) (live s L F)" by (auto 0 3)
qed

lemma pool_of:
  assumes "slab_inv s L F" "named s i" "a \<in> set (L i)"
  obtains x where "pool (unat (kc_num (cache_cache s ! i))) (kc_objsize (cache_cache s ! i))
      (a + kc_colour_off (cache_cache s ! i)) x (F a)"
  using slab_invD(6) [OF assms] by (auto simp: slab_ok_def Let_def)

lemma kmalloc_fresh_slab:
  assumes inv: "slab_inv s L F" and sv: "serves s sz i"
    and a: "find (\<lambda>a. F a \<noteq> []) (L i) = Some a"
  shows "\<exists>obj s'. caos_kmalloc sz flags s = Done (obj, s') \<and> fresh_object s L F obj i s'"
proof -
  have i: "named s i" using sv by (simp add: serves_def)
  have aL: "a \<in> set (L i)" and "F a \<noteq> []" using find_split [OF a] by simp_all
  then obtain k fl where fl: "F a = k # fl" by (cases "F a") auto
  obtain x where "pool (unat (kc_num (cache_cache s ! i))) (kc_objsize (cache_cache s ! i))
      (a + kc_colour_off (cache_cache s ! i)) x (F a)"
    using pool_of [OF inv i aL] .
  then have k: "k < unat (kc_num (cache_cache s ! i))" "distinct (k # fl)"
    using sp.bounded fl by fastforce+
  have "(0::nat) \<le> KMALLOC_RETRY_MAX" by simp
  from kmalloc_from_slab [OF inv i this a fl, of sz flags]
  obtain s' where s': "kmalloc_retry sz flags i 0 s = Done (obj_addr s (i, a, k), s')"
    "slab_inv s' L (F(a := fl))" "cache_cache s' = cache_cache s"
    by (auto simp: obj_addr_def)
  have uniq: "\<And>j. named s j \<Longrightarrow> a \<in> set (L j) \<Longrightarrow> j = i" using slab_distinct [OF inv _ i _ aL] by blast
  note lv = live_take [where L = L and F = F, OF i aL fl k s'(3) uniq]
  show ?thesis
    using fresh_objectI [OF s'(2,3) lv(2,1)] s'(1) kmalloc_serves [OF inv sv] by auto
qed

lemma kmalloc_fresh_grow:
  assumes inv: "slab_inv s L F" and sv: "serves s sz i"
    and none: "find (\<lambda>a. F a \<noteq> []) (L i) = None"
    and alloc: "alloc_pages flags (kc_gfporder (cache_cache s ! i)) s = Done (Some f, s1)"
  shows "\<exists>obj s'. caos_kmalloc sz flags s = Done (obj, s') \<and> fresh_object s L F obj i s'"
proof -
  have i: "named s i" using sv by (simp add: serves_def)
  define a where "a = va (0x1000 * of_nat f)"
  define n where "n = unat (kc_num (cache_cache s ! i))"
  have n: "0 < n" using slab_invD(4) [OF inv i] by (simp add: cache_ok_def n_def)
  from kmalloc_growing [OF inv i none alloc, of sz]
  obtain s' where s': "kmalloc_retry sz flags i 0 s = Done (obj_addr s (i, a, 0), s')"
    "slab_inv s' (L(i := a # L i)) (F(a := [1..<n]))" "cache_cache s' = cache_cache s"
    "\<forall>j. named s j \<longrightarrow> a \<notin> set (L j)"
    by (auto simp: obj_addr_def a_def n_def)
  have "live s' (L(i := a # L i)) (F(a := [1..<n])) = insert (i, a, 0) (live s L F)"
    using s'(3,4) i n live_named [OF s'(3)] by (auto simp: live_def n_def split: if_splits)
  moreover have "(i, a, 0) \<notin> live s L F" using s'(4) by (auto simp: live_def)
  ultimately show ?thesis
    using fresh_objectI [OF s'(2,3)] s'(1) kmalloc_serves [OF inv sv] by auto
qed

lemma fresh_not_null:
  assumes "fresh_object s L F obj i s'"
  shows "obj \<noteq> 0"
proof
  assume "obj = 0"
  obtain a k L' F' where inv: "slab_inv s' L' F'" and cc: "cache_cache s' = cache_cache s"
    and obj: "obj = obj_addr s (i, a, k)" and lv: "(i, a, k) \<in> live s' L' F'"
    using assms unfolding fresh_object_def by blast
  have i: "named s' i" and a: "a \<in> set (L' i)" and k: "k < unat (kc_num (cache_cache s' ! i))"
    using lv by (auto simp: live_def)
  have "0 < unat (kc_objsize (cache_cache s' ! i))"
    using slab_invD(4) [OF inv i] by (simp add: cache_ok_def)
  then have "obj \<in> obj_bytes s' (i, a, k)"
    using live_named [OF cc] by (simp add: obj_bytes_def obj cc region_def)
  then have "virt_to_page obj \<in> slab_block s' i a" using obj_bytes_page [OF inv i a k] by blast
  then have "virt_to_page obj < length (mem_map s')"
    using slab_invD(6) [OF inv i a] allocated_in_range by (auto simp: slab_ok_def Let_def slab_block_def)
  also have "\<dots> < 2 ^ 32" using slab_invD(1) [OF inv] by (rule mm_invE)
  finally show False using \<open>obj = 0\<close> by (simp add: virt_to_page_def pa_def kconst)
qed

subsection \<open>Creating a cache\<close>

text \<open>Entry \<open>i\<close> is the first free one, and no entry before it has the name \<open>nm\<close>.\<close>

definition free_entry :: "slab_state \<Rightarrow> string \<Rightarrow> nat \<Rightarrow> bool" where
  "free_entry s nm i \<longleftrightarrow> i < length (cache_cache s) \<and> kc_name (cache_cache s ! i) = None \<and>
     (\<forall>j<i. case kc_name (cache_cache s ! j) of
              None \<Rightarrow> False | Some n \<Rightarrow> strcmp_str (bytes n) (bytes nm) \<noteq> 0)"

lemma find_entry_free:
  assumes "free_entry s nm i" and "k \<le> i" and "length (cache_cache s) = mx"
  shows "find_entry (cache_cache s) mx nm k = Done (Inr i)"
  using assms(2)
proof (induction "i - k" arbitrary: k)
  case 0
  then have "k = i" by simp
  then show ?case using assms(1) by (subst find_entry.simps) (simp add: outcome_simps free_entry_def)
next
  case (Suc d)
  then have k: "k < i" by simp
  then obtain n where "kc_name (cache_cache s ! k) = Some n" "strcmp_str (bytes n) (bytes nm) \<noteq> 0"
    using assms(1) by (auto simp: free_entry_def split: option.splits)
  then show ?case using Suc.hyps(1) [of "Suc k"] Suc.hyps(2) k assms(1,3)
    by (subst find_entry.simps) (simp add: outcome_simps free_entry_def)
qed

definition new_cache :: "string \<Rightarrow> u64 \<Rightarrow> u64 \<Rightarrow> kmem_cache \<Rightarrow> kmem_cache" where
  "new_cache nm sz flags c =
     slab_geometry (round_long sz) X86_64_CACHE_ALIGN (c\<lparr>kc_name := Some nm, kc_objsize := round_long sz, kc_flag := flags\<rparr>)"

lemma new_cache_simps [simp]:
  "kc_name (new_cache nm sz flags c) = Some nm" "kc_objsize (new_cache nm sz flags c) = round_long sz"
  by (simp_all add: new_cache_def slab_geometry_def Let_def)

lemma new_cache_ok:
  assumes "8 \<le> unat sz" and "unat sz \<le> 2048"
  shows "cache_ok (new_cache nm sz flags c)"
proof -
  define z where "z = unat (round_long sz)"
  have z: "8 \<le> z" "z \<le> 2048" using assms by (auto simp: z_def unat_round_long)
  have fits: "geo_fits (int z)" using geo_fits_round [OF assms] by (simp add: z_def)
  note g = slab_geometry_geo [OF z [unfolded z_def] fits [unfolded z_def], folded z_def]
  note n = geo_fits_nat [OF fits]
  have "geo_order z \<le> 5" using geo_bounds(1) [OF z] by simp
  then show ?thesis
    using n z by (simp add: cache_ok_def new_cache_def X86_64_CACHE_ALIGN_def g MAX_PAGE_ORDER_def word_le_nat_alt)
      (simp add: slab_geometry_def Let_def z_def)
qed

lemma create_run:
  assumes "length (cache_cache s) = unat (cache_cache_max s)" and fe: "free_entry s nm i"
    and sz: "8 \<le> unat sz" "unat sz \<le> 2048"
  shows "kmem_cache_create (Some nm) sz X86_64_CACHE_ALIGN flags s =
    Done (Some i, s\<lparr>cache_cache := (cache_cache s)[i := new_cache nm sz flags (cache_cache s ! i)],
                    lists := INIT_LIST_HEAD (slabs_head s i) (lists s)\<rparr>)"
proof -
  have "\<not> (sz < BYTES_PER_LONG \<or> KMALLOC_MAX_SIZE < sz)"
    using sz by (simp add: kconst word_less_nat_alt)
  moreover have "round_long X86_64_CACHE_ALIGN = X86_64_CACHE_ALIGN" by (simp add: round_long_def kconst)
  moreover have "i < length (cache_cache s)" using fe by (simp add: free_entry_def)
  ultimately show ?thesis
    using find_entry_free [OF fe _ assms(1), of 0] assms(1)
    by (simp add: kmem_cache_create_def Let_def outcome_simps new_cache_def)
qed

lemma create_inv:
  fixes flags :: u64
  assumes inv: "slab_inv s L F" and fe: "free_entry s nm i" and sz: "8 \<le> unat sz" "unat sz \<le> 2048"
  defines "s' \<equiv> s\<lparr>cache_cache := (cache_cache s)[i := new_cache nm sz flags (cache_cache s ! i)],
                    lists := INIT_LIST_HEAD (slabs_head s i) (lists s)\<rparr>"
  shows "slab_inv s' (L(i := [])) F" and "named s' j \<longleftrightarrow> j = i \<or> named s j"
proof -
  have i: "i < length (cache_cache s)" and un: "\<not> named s i" and i128: "i < 128"
    using fe inv by (auto simp: free_entry_def named_def slab_inv_def)
  show nm: "named s' j \<longleftrightarrow> j = i \<or> named s j" for j
    using i by (auto simp: named_def s'_def nth_list_update)
  have heads: "slabs_head s' = slabs_head s" by (simp add: slabs_head_def s'_def fun_eq_iff)
  have cc: "j \<noteq> i \<Longrightarrow> cache_cache s' ! j = cache_cache s ! j" for j by (simp add: s'_def)
  have ok: "j \<noteq> i \<Longrightarrow> slab_ok s' j b fl = slab_ok s j b fl" for j b fl
    using cc by (simp add: slab_ok_def Let_def) (simp add: s'_def)
  have blk: "j \<noteq> i \<Longrightarrow> slab_block s' j b = slab_block s j b" for j b by (simp add: slab_block_def cc)
  have dl: "dlist (lists s') (slabs_head s j) ((L(i := [])) j)" if "named s' j" for j
  proof (cases "j = i")
    case True
    then show ?thesis by (simp add: s'_def dlist_init)
  next
    case False
    then have j: "named s j" using that nm by simp
    have "slabs_head s j \<noteq> slabs_head s i"
      using heads_differ [of j i s] j i128 False inv by (auto simp: named_def slab_inv_def)
    moreover have "slabs_head s i \<notin> set (L j)" using slab_not_head [OF inv j] by blast
    ultimately have "dlist (lists s') (slabs_head s j) (L j) = dlist (lists s) (slabs_head s j) (L j)"
      by (intro dlist_frame) (auto simp: s'_def lh_defs)
    then show ?thesis using slab_invD(5) [OF inv j] False by simp
  qed
  have cok: "cache_ok (cache_cache s' ! j)" if "named s' j" for j
    using that nm i new_cache_ok [OF sz] slab_invD(4) [OF inv] cc [of j] by (cases "j = i") (auto simp: s'_def)
  have "mm_inv s'" using slab_invD(1) [OF inv] by (simp add: mm_inv_def s'_def split: list.splits)
  then show "slab_inv s' (L(i := [])) F"
    unfolding slab_inv_def heads
  proof (intro conjI allI impI ballI; (elim conjE)?)
    fix j b assume "named s' j" "b \<in> set ((L(i := [])) j)"
    then show "slab_ok s' j b (F b)" using slab_invD(6) [OF inv] nm ok by (cases "j = i") auto
  next
    fix j k b d
    assume "named s' j" "named s' k" "b \<in> set ((L(i := [])) j)" "d \<in> set ((L(i := [])) k)" "(j, b) \<noteq> (k, d)"
    then show "slab_block s' j b \<inter> slab_block s' k d = {}"
      using slab_invD(7) [OF inv, of j k b d] nm blk by (cases "j = i"; cases "k = i") auto
  qed (use dl cok inv in \<open>auto simp: slab_inv_def s'_def\<close>)
qed

subsection \<open>The initial caches\<close>

definition defaults :: "nat \<Rightarrow> slab_state \<Rightarrow> bool" where
  "defaults k s \<longleftrightarrow> slab_inv s (\<lambda>_. []) (\<lambda>_. []) \<and> length (cache_cache s) = 128 \<and>
     (\<forall>j<k. cache_cache s ! j = new_cache (cache_names ! j) (16 * 2 ^ j) 0 zero_cache) \<and>
     (\<forall>j<128. k \<le> j \<longrightarrow> cache_cache s ! j = zero_cache)"

lemma cache_names_differ:
  assumes "j < k" and "k < 8"
  shows "strcmp_str (bytes (cache_names ! j)) (bytes (cache_names ! k)) \<noteq> 0"
proof -
  have "\<forall>k<8. \<forall>j<k. strcmp_str (bytes (cache_names ! j)) (bytes (cache_names ! k)) \<noteq> 0" by code_simp
  then show ?thesis using assms by blast
qed

lemma default_sizes:
  assumes "k < 8"
  shows "8 \<le> unat (16 * 2 ^ k :: u64)" "unat (16 * 2 ^ k :: u64) \<le> 2048" "round_long (16 * 2 ^ k) = 16 * 2 ^ k"
proof -
  have "k = 0 \<or> k = 1 \<or> k = 2 \<or> k = 3 \<or> k = 4 \<or> k = 5 \<or> k = 6 \<or> k = 7" using assms by auto
  then show "8 \<le> unat (16 * 2 ^ k :: u64)" "unat (16 * 2 ^ k :: u64) \<le> 2048" "round_long (16 * 2 ^ k) = 16 * 2 ^ k"
    by (auto simp: round_long_def kconst)
qed

lemma create_default:
  assumes d: "defaults k s" and k: "k < 8"
  shows "\<exists>s'. kmem_cache_create (Some (cache_names ! k)) (16 * 2 ^ k) X86_64_CACHE_ALIGN 0 s = Done (Some k, s') \<and>
    defaults (Suc k) s' \<and> mem_map s' = mem_map s"
proof -
  have inv: "slab_inv s (\<lambda>_. []) (\<lambda>_. [])" using d by (simp add: defaults_def)
  have fe: "free_entry s (cache_names ! k) k"
    using d k cache_names_differ [of _ k] by (auto simp: free_entry_def defaults_def zero_cache_def)
  note sz = default_sizes [OF k]
  define s' where "s' = s\<lparr>cache_cache := (cache_cache s)[k := new_cache (cache_names ! k) (16 * 2 ^ k) 0 (cache_cache s ! k)],
                    lists := INIT_LIST_HEAD (slabs_head s k) (lists s)\<rparr>"
  have "slab_inv s' (\<lambda>_. []) (\<lambda>_. [])"
    using create_inv(1) [OF inv fe sz(1,2), of 0] by (simp add: s'_def fun_upd_idem)
  then have "defaults (Suc k) s'"
    using d k by (auto simp: defaults_def s'_def nth_list_update less_Suc_eq)
  moreover have "mem_map s' = mem_map s" by (simp add: s'_def)
  ultimately show ?thesis
    using create_run [OF slab_invD(3) [OF inv] fe sz(1,2), of 0] unfolding s'_def [symmetric] by blast
qed

lemma create_defaults_ok:
  assumes "defaults k s" and "k \<le> 8"
  shows "\<exists>s'. create_defaults (drop k cache_names) (16 * 2 ^ k) s = Done s' \<and> defaults 8 s' \<and>
    mem_map s' = mem_map s"
  using assms
proof (induction "8 - k" arbitrary: k s)
  case 0
  then show ?case by (auto simp: cache_names_def)
next
  case (Suc d)
  then have k: "k < 8" by simp
  have names: "drop k cache_names = cache_names ! k # drop (Suc k) cache_names"
    using k by (intro Cons_nth_drop_Suc [symmetric]) (simp add: cache_names_def)
  obtain s1 where s1: "kmem_cache_create (Some (cache_names ! k)) (16 * 2 ^ k) X86_64_CACHE_ALIGN 0 s = Done (Some k, s1)"
    "defaults (Suc k) s1" "mem_map s1 = mem_map s"
    using create_default [OF Suc.prems(1) k] by blast
  then show ?case using Suc.hyps(1) [of "Suc k" s1] Suc.hyps(2) k names by (simp add: mult.commute)
qed

lemma set_slab_flag_ok:
  assumes "\<forall>i\<in>set is. i < length m"
  shows "\<exists>m'. set_slab_flag is m = Done m' \<and> same_alloc m m'"
  using assms
proof (induction "is" arbitrary: m)
  case Nil
  then show ?case by (simp add: same_alloc_def)
next
  case (Cons i "is")
  let ?m = "m[i := (m ! i)\<lparr>pg_flags := SetPageSlab (pg_flags (m ! i))\<rparr>]"
  obtain m' where m': "set_slab_flag is ?m = Done m'" "same_alloc ?m m'"
    using Cons.IH [of ?m] Cons.prems by auto
  have "same_alloc m ?m" using Cons.prems by (auto simp: same_alloc_def nth_list_update)
  then have "same_alloc m m'" using m'(2) by (simp add: same_alloc_def)
  then show ?case using m' Cons.prems by (auto simp: outcome_simps)
qed

lemma kmem_cache_init_defaults:
  assumes mm: "mm_inv s" and virt: "\<forall>i<length (mem_map s). pg_virtual (mem_map s ! i) = va (0x1000 * of_nat i)"
    and alloc: "alloc_pages 0 1 s = Done (Some f, s1)"
  shows "\<exists>s'. kmem_cache_init s = Done s' \<and> defaults 8 s' \<and> same_alloc (mem_map s1) (mem_map s')"
proof -
  note al = alloc_pages_Some [OF mm alloc]
  have len: "length (mem_map s) < 2 ^ 32" using mm by (rule mm_invE)
  have "run_free (mem_map s) f 2" using al(3) run_free_subset [of "mem_map s" f 1] by simp
  then have f: "f + 1 < length (mem_map s1)" by (simp add: run_free_def al(2))
  then have f32: "f < 2 ^ 32" using len by (simp add: al(2))
  define base where "base = va (0x1000 * of_nat f)"
  define s2 where "s2 = s1\<lparr>cache_cache_max := 128, cache_page := Some f, cache_base := base,
                         cache_cache := replicate 128 zero_cache\<rparr>"
  define s3 where "s3 = s2\<lparr>lists := fold (\<lambda>i h. h(slabs_head s2 i := \<lparr>lh_next = 0, lh_prev = 0\<rparr>)) [0..<128] (lists s2)\<rparr>"
  obtain m where m: "set_slab_flag [f + 1, f] (mem_map s3) = Done m" "same_alloc (mem_map s3) m"
    using set_slab_flag_ok [of "[f + 1, f]" "mem_map s3"] f by (auto simp: s3_def s2_def)
  define s4 where "s4 = s3\<lparr>mem_map := m\<rparr>"
  have "mm_inv s1" using alloc_at_inv [OF mm al(1,3)] al(2) by simp
  then have "mm_inv s4"
    by (rule same_alloc_mm_inv [rotated 2]) (use m(2) in \<open>simp_all add: s4_def s3_def s2_def\<close>)
  moreover have "pg_virtual (mem_map s4 ! i) = va (0x1000 * of_nat i)" if "i < length (mem_map s4)" for i
    using that m(2) virt by (auto simp: s4_def s3_def s2_def same_alloc_def al(2) taken_def)
  moreover have "unat base mod 64 = 0" unfolding base_def by (rule page_mod_64)
  ultimately have "slab_inv s4 (\<lambda>_. []) (\<lambda>_. [])"
    unfolding slab_inv_def named_def by (auto simp: s4_def s3_def s2_def zero_cache_def)
  then have "defaults 0 s4" by (simp add: defaults_def s4_def s3_def s2_def)
  then obtain s' where s': "create_defaults cache_names 16 s4 = Done s'" "defaults 8 s'" "mem_map s' = mem_map s4"
    using create_defaults_ok [of 0 s4] by auto
  have up: "map ((+) f) (rev [0..<2]) = [f + 1, f]" by (simp add: numeral_2_eq_2)
  have "kmem_cache_init s = Done (say ''cache_cache created at <%x>\<newline>'' [ArgInt base] s')"
    using alloc m(1) s'(1) page_to_virt_index [OF f32, of s1]
    by (simp add: kmem_cache_init_def Let_def kconst base_def [symmetric] up)
      (simp add: s4_def s3_def s2_def)
  moreover have "defaults 8 (say fmt args s')" for fmt args
    using s'(2) by (simp add: defaults_def slab_inv_def mm_inv_def named_def slabs_head_def slab_ok_def say_def split: list.splits)
  moreover have "same_alloc (mem_map s1) (mem_map (say fmt args s'))" for fmt args
    using m(2) s'(3) by (simp add: say_def s4_def s3_def s2_def)
  ultimately show ?thesis by blast
qed

subsection \<open>Failing requests\<close>

lemma seek_none:
  assumes "\<forall>j<i. named s j \<and> kc_objsize (cache_cache s ! j) < sz"
    and "i < length (cache_cache s)" "\<not> named s i" and "k \<le> i" and "length (cache_cache s) = mx"
  shows "seek_cache (cache_cache s) mx sz k = Done i"
  using assms(4)
proof (induction "i - k" arbitrary: k)
  case 0
  then have "k = i" by simp
  then show ?case using assms(2,3) by (subst seek_cache.simps) (auto simp: named_def outcome_simps)
next
  case (Suc d)
  then have k: "k < i" by simp
  then have "named s k" "kc_objsize (cache_cache s ! k) < sz" using assms(1) by auto
  then show ?case using Suc.hyps(1) [of "Suc k"] Suc.hyps(2) k assms(5)
    by (subst seek_cache.simps) (auto simp: named_def outcome_simps not_le)
qed

lemma grow_refused:
  assumes i: "named s i" and mm: "mm_inv s"
    and refused: "alloc_pages flags (kc_gfporder (cache_cache s ! i)) s = Done (None, s1)"
  shows "kmem_cache_grow i flags s = Done (0, s)"
proof -
  have "s1 = s" using alloc_pages_None [OF mm refused] .
  then show ?thesis using i refused by (simp add: kmem_cache_grow_def kmem_getpages_def named_def outcome_simps)
qed

lemma kmalloc_unnamed:
  assumes "Suc i < length (cache_cache s)" and "unat (cache_base s) mod 64 = 0"
    and "lists s (slabs_head s (Suc i)) = \<lparr>lh_next = 0, lh_prev = 0\<rparr>" and "slabs s 0 = None"
  shows "kmalloc_retry sz flags (Suc i) 0 s = Fault"
proof -
  have "unat (slabs_head s (Suc i)) \<noteq> unat (0::u64)" using head_mod_64 [OF assms(2), of "Suc i"] by auto
  then have "slabs_head s (Suc i) \<noteq> 0" by metis
  then have "list_for_each_entry (usable s (cache_cache s ! Suc i)) (lists s) (slabs_head s (Suc i)) () = Fault"
    using assms(3,4) unfolding list_for_each_entry_def
    by (subst list_loop.simps) (simp add: usable_def slab_at_def)
  then show ?thesis using assms(1) by (subst kmalloc_retry.simps) (simp add: outcome_simps)
qed

subsection \<open>Properties\<close>

text \<open>A machine of sixteen frames before the object allocator is set up.\<close>

definition small_slab :: slab_state where
  "small_slab = mm_state.extend (small_mm [0])
     (slab_state.fields 0 [] 0 None (\<lambda>_. None))"

lemma small_slab_mem: "mem_map small_slab = map (small_page [0]) [0..<16]"
  by (simp add: small_slab_def mm_state.defs small_mm_def Let_def)

lemma small_slab_mm:
  shows "mm_inv small_slab"
    and "\<forall>i<length (mem_map small_slab). pg_virtual (mem_map small_slab ! i) = va (0x1000 * of_nat i)"
proof -
  show "\<forall>i<length (mem_map small_slab). pg_virtual (mem_map small_slab ! i) = va (0x1000 * of_nat i)"
    by (simp add: small_slab_mem small_page_def)
  show "mm_inv small_slab"
    by (simp add: small_slab_def mm_state.defs mm_inv_def small_mm_def Let_def upt_rec
      small_page_def free_count_def)
qed

lemma small_free: "free_set (map (small_page [0]) [0..<16]) = {1..<16}"
proof -
  have "pg_count (map (small_page [0]) [0..<16] ! i) = 0 \<longleftrightarrow> i \<noteq> 0" if "i < 16" for i
    using that by (simp add: small_page_def)
  then show ?thesis by (auto simp: free_set_def Suc_le_eq)
qed

lemma small_slab_alloc: "alloc_pages 0 1 small_slab = Done (Some 1, alloc_at 0 1 1 small_slab)"
proof -
  have "run_free (mem_map small_slab) 1 (2 ^ unat (1::u64))"
    unfolding run_free_subset small_slab_mem small_free by (auto simp: block_def)
  moreover have "2 ^ unat (1::u64) < free_count (mem_map small_slab)"
    unfolding free_count_card small_slab_mem small_free by simp
  moreover have "(1::u64) \<le> MAX_PAGE_ORDER" by (simp add: kconst)
  ultimately obtain f where f: "f \<le> 1" "block f 1 \<subseteq> free_set (mem_map small_slab)"
    "alloc_pages 0 1 small_slab = Done (Some f, alloc_at 0 1 f small_slab)"
    using alloc_pages_cases(2) [OF small_slab_mm(1)] unfolding run_free_subset by blast
  then have "f \<noteq> 0" unfolding small_slab_mem small_free by (auto simp: block_def)
  then show ?thesis using f by (cases f) auto
qed

text \<open>
  C7 (\<^verbatim>\<open>kmem_cache_init\<close>). When two adjacent frames can be allocated for the table, set-up
  succeeds, establishes the invariant of the object allocator with no slab at all, and the
  first eight of the 128 table entries are the caches of 16 to 2048 bytes under their names.
\<close>

theorem kmem_cache_init_ok:
  assumes "mm_inv s" and "\<forall>i<length (mem_map s). pg_virtual (mem_map s ! i) = va (0x1000 * of_nat i)"
    and "alloc_pages 0 1 s = Done (Some f, s1)"
  shows "\<exists>s'. kmem_cache_init s = Done s' \<and> slab_inv s' (\<lambda>_. []) (\<lambda>_. []) \<and> length (cache_cache s') = 128 \<and>
    (\<forall>j<8. kc_name (cache_cache s' ! j) = Some (cache_names ! j) \<and> kc_objsize (cache_cache s' ! j) = 16 * 2 ^ j) \<and>
    (\<forall>j. 8 \<le> j \<longrightarrow> \<not> named s' j)"
  using kmem_cache_init_defaults [OF assms]
  by (force simp: defaults_def named_def default_sizes(3) zero_cache_def)

theorem kmem_cache_init_ok_witness:
  "\<exists>s'. kmem_cache_init small_slab = Done s' \<and> slab_inv s' (\<lambda>_. []) (\<lambda>_. []) \<and>
    kc_objsize (cache_cache s' ! 7) = 2048"
proof -
  from kmem_cache_init_ok [OF small_slab_mm small_slab_alloc] show ?thesis by force
qed

text \<open>
  C8 (\<^verbatim>\<open>kmem_cache_create\<close>, layout). For every object size the function accepts, at the
  kernel's alignment of 16, the \<^verbatim>\<open>bufctl\<close> array ends before the first object, the last object
  ends within the pages of the slab, a slab has at least one object and fewer than the end
  mark can distinguish, and the page order is one the page allocator accepts.
\<close>

theorem slab_layout_fits:
  assumes "BYTES_PER_LONG \<le> sz" and "sz \<le> KMALLOC_MAX_SIZE" and "slab_inv s L F" and "free_entry s nm i"
  shows "\<exists>s'. kmem_cache_create (Some nm) sz X86_64_CACHE_ALIGN flags s = Done (Some i, s') \<and>
    slab_inv s' (L(i := [])) F \<and>
    (let c = cache_cache s' ! i
     in unat sz \<le> unat (kc_objsize c) \<and> kc_gfporder c \<le> MAX_PAGE_ORDER \<and>
        0 < unat (kc_num c) \<and> unat (kc_num c) < 0xFFFF \<and>
        64 + 2 * unat (kc_num c) \<le> unat (kc_colour_off c) \<and>
        unat (kc_colour_off c) + unat (kc_num c) * unat (kc_objsize c) \<le> 4096 * 2 ^ unat (kc_gfporder c))"
proof -
  have sz: "8 \<le> unat sz" "unat sz \<le> 2048" using assms(1,2) by (simp_all add: kconst word_le_nat_alt)
  have "unat sz \<le> (unat sz + 7) div 8 * 8" by presburger
  then have ge: "unat sz \<le> unat (round_long sz)" using unat_round_long [OF sz(2)] by simp
  have i: "i < length (cache_cache s)" using assms(4) by (simp add: free_entry_def)
  show ?thesis
    using create_run [OF slab_invD(3) [OF assms(3)] assms(4) sz, of flags]
      create_inv(1) [OF assms(3,4) sz, of flags] new_cache_ok [OF sz, of nm flags "cache_cache s ! i"] ge i
    by (simp add: cache_ok_def Let_def)
qed

lemma small_slab_ready:
  obtains s where "kmem_cache_init small_slab = Done s" "defaults 8 s"
    "same_alloc (took 0 1 1 (map (small_page [0]) [0..<16])) (mem_map s)"
  using kmem_cache_init_defaults [OF small_slab_mm small_slab_alloc] by (auto simp: small_slab_mem)

theorem slab_layout_fits_witness:
  "\<exists>s s'. kmem_cache_create (Some ''mbox'') 100 X86_64_CACHE_ALIGN 0 s = Done (Some 8, s') \<and>
    unat (100::u64) \<le> unat (kc_objsize (cache_cache s' ! 8))"
proof -
  obtain s where s: "defaults 8 s" using small_slab_ready by blast
  have "\<forall>j<8. strcmp_str (bytes (cache_names ! j)) (bytes ''mbox'') \<noteq> 0" by code_simp
  then have "free_entry s ''mbox'' 8" "slab_inv s (\<lambda>_. []) (\<lambda>_. [])"
    using s by (auto simp: free_entry_def defaults_def zero_cache_def)
  moreover have "BYTES_PER_LONG \<le> 100" "100 \<le> KMALLOC_MAX_SIZE" by (simp_all add: kconst)
  ultimately show ?thesis using slab_layout_fits by (metis (no_types, lifting))
qed

lemma small_slab_room:
  obtains s f s1 where "slab_inv s (\<lambda>_. []) (\<lambda>_. [])" "serves s 20 1"
    "alloc_pages 0 (kc_gfporder (cache_cache s ! 1)) s = Done (Some f, s1)"
proof -
  obtain s where s: "defaults 8 s" "same_alloc (took 0 1 1 (map (small_page [0]) [0..<16])) (mem_map s)"
    using small_slab_ready by blast
  have inv: "slab_inv s (\<lambda>_. []) (\<lambda>_. [])" using s(1) by (simp add: defaults_def)
  have sv: "serves s 20 1"
  proof -
    have "cache_cache s ! 0 = new_cache (cache_names ! 0) 16 0 zero_cache"
      "cache_cache s ! 1 = new_cache (cache_names ! 1) 32 0 zero_cache" "length (cache_cache s) = 128"
      using s(1) unfolding defaults_def by force+
    then show ?thesis by (simp add: serves_def named_def) (simp add: round_long_def kconst)
  qed
  have order: "kc_gfporder (cache_cache s ! 1) = 1"
  proof -
    have "kc_gfporder (new_cache (cache_names ! 1) (16 * 2 ^ 1) 0 zero_cache) = 1" by code_simp
    then show ?thesis using s(1) by (simp add: defaults_def)
  qed
  have free: "free_set (mem_map s) = {3..<16}"
  proof -
    have "free_set (mem_map s) = free_set (took 0 1 1 (map (small_page [0]) [0..<16]))"
      by (rule same_alloc_free_set [OF s(2)])
    also have "\<dots> = {1..<16} - block 1 1" by (simp only: free_set_took small_free)
    also have "\<dots> = {3..<16}"
      by (rule set_eqI) (simp add: block_def, arith)
    finally show ?thesis .
  qed
  have "block 3 1 \<subseteq> free_set (mem_map s)" unfolding free by (auto simp: block_def)
  moreover have "2 ^ unat (1::u64) < free_count (mem_map s)" unfolding free_count_card free by simp
  moreover have "(1::u64) \<le> MAX_PAGE_ORDER" by (simp add: kconst)
  ultimately have "\<exists>f s1. alloc_pages 0 1 s = Done (Some f, s1)"
    using alloc_pages_cases(2) [OF slab_invD(1) [OF inv]] unfolding run_free_subset by blast
  then show thesis using that inv sv order by metis
qed

text \<open>
  C1 (\<^verbatim>\<open>caos_kmalloc\<close>, memory safety). A request served by cache \<open>i\<close>, the first whose
  objects are large enough, succeeds whenever a slab of the cache has a free object or pages for
  a new slab can be had. The object returned is not null, overlaps no object that is in
  use, and is the only change to the set of objects in use; the invariant is kept.
\<close>

theorem kmalloc_fresh:
  assumes inv: "slab_inv s L F" and sv: "serves s sz i"
    and room: "(\<exists>a\<in>set (L i). F a \<noteq> []) \<or>
      (\<exists>f s1. alloc_pages flags (kc_gfporder (cache_cache s ! i)) s = Done (Some f, s1))"
  shows "\<exists>obj s'. caos_kmalloc sz flags s = Done (obj, s') \<and> obj \<noteq> 0 \<and> fresh_object s L F obj i s'"
proof -
  obtain obj s' where o: "caos_kmalloc sz flags s = Done (obj, s')" "fresh_object s L F obj i s'"
  proof (cases "find (\<lambda>a. F a \<noteq> []) (L i)")
    case None
    then have "\<forall>a\<in>set (L i). F a = []" by (simp add: find_None_iff)
    then show thesis using kmalloc_fresh_grow [OF inv sv None] room that by blast
  next
    case (Some a)
    then show thesis using kmalloc_fresh_slab [OF inv sv Some] that by blast
  qed
  moreover have "obj \<noteq> 0" by (rule fresh_not_null [OF o(2)])
  ultimately show ?thesis by blast
qed

theorem kmalloc_fresh_witness:
  "\<exists>s obj s'. caos_kmalloc 20 0 s = Done (obj, s') \<and> obj \<noteq> 0 \<and> fresh_object s (\<lambda>_. []) (\<lambda>_. []) obj 1 s'"
proof -
  obtain s f s1 where "slab_inv s (\<lambda>_. []) (\<lambda>_. [])" "serves s 20 1"
    "alloc_pages 0 (kc_gfporder (cache_cache s ! 1)) s = Done (Some f, s1)"
    using small_slab_room by blast
  then show ?thesis using kmalloc_fresh [of s "\<lambda>_. []" "\<lambda>_. []" 20 1 0] by blast
qed

text \<open>
  C3 (\<^verbatim>\<open>caos_kfree\<close>). Freeing an object in use succeeds, keeps the invariant and removes
  exactly this object from the set of objects in use; it becomes the first free object of
  its slab, so the next request the slab serves returns it again.
\<close>

theorem kfree_live:
  assumes inv: "slab_inv s L F" and ob: "(i, a, k) \<in> live s L F"
  shows "\<exists>s'. caos_kfree (obj_addr s (i, a, k)) s = Done s' \<and> slab_inv s' L (F(a := k # F a)) \<and>
    live s' L (F(a := k # F a)) = live s L F - {(i, a, k)}"
proof -
  have i: "named s i" and a: "a \<in> set (L i)" and k: "k < unat (kc_num (cache_cache s ! i))" "k \<notin> set (F a)"
    using ob by (auto simp: live_def)
  obtain s' where s': "caos_kfree (obj_addr s (i, a, k)) s = Done s'" "slab_inv s' L (F(a := k # F a))"
    "cache_cache s' = cache_cache s"
    using kfree_object [OF inv i a k] by (auto simp: obj_addr_def)
  have F: "(F(a := k # F a))(a := F a) = F" by simp
  have uniq: "\<And>j. named s j \<Longrightarrow> a \<in> set (L j) \<Longrightarrow> j = i" using slab_distinct [OF inv _ i _ a] by blast
  obtain x where "pool (unat (kc_num (cache_cache s ! i))) (kc_objsize (cache_cache s ! i))
      (a + kc_colour_off (cache_cache s ! i)) x (F a)"
    using pool_of [OF inv i a] .
  then have "distinct (k # F a)" using sp.bounded k(2) by fastforce
  then have "live s L F = insert (i, a, k) (live s L (F(a := k # F a)))" "(i, a, k) \<notin> live s L (F(a := k # F a))"
    using live_take [where s = s and s' = s and L = L and F = "F(a := k # F a)" and fl = "F a" and a = a and i = i and k = k,
        OF i a fun_upd_same k(1) _ refl] uniq unfolding F by blast+
  moreover have "live s' L (F(a := k # F a)) = live s L (F(a := k # F a))"
    using live_named [OF s'(3)] s'(3) by (simp add: live_def)
  ultimately show ?thesis using s' by auto
qed

theorem kfree_live_witness:
  "\<exists>s obj s1 s2. caos_kmalloc 20 0 s = Done (obj, s1) \<and> caos_kfree obj s1 = Done s2"
proof -
  obtain s f t where "slab_inv s (\<lambda>_. []) (\<lambda>_. [])" "serves s 20 1"
    "alloc_pages 0 (kc_gfporder (cache_cache s ! 1)) s = Done (Some f, t)"
    using small_slab_room by blast
  then obtain obj s1 where s: "caos_kmalloc 20 0 s = Done (obj, s1)" "fresh_object s (\<lambda>_. []) (\<lambda>_. []) obj 1 s1"
    using kmalloc_fresh_grow [of s "\<lambda>_. []" "\<lambda>_. []" 20 1 0] by auto
  then obtain a k L F where "slab_inv s1 L F" "(1, a, k) \<in> live s1 L F" "obj = obj_addr s1 (1, a, k)"
    using live_named unfolding fresh_object_def by (metis insertI1)
  then show ?thesis using kfree_live s(1) by blast
qed

text \<open>
  Supplement (\<^verbatim>\<open>caos_kmalloc\<close>, too large). When no cache has objects that large and the table
  has an unused entry behind the caches, the request is refused with the null pointer, a
  message is printed and nothing else changes.
\<close>

theorem kmalloc_no_cache:
  assumes "slab_inv s L F" and "\<forall>j<i. named s j \<and> kc_objsize (cache_cache s ! j) < sz"
    and "i < length (cache_cache s)" and "\<not> named s i"
  shows "caos_kmalloc sz flags s =
    Done (0, say ''FAIL TO caos_kmalloc(%d), <no cache>\<newline>'' [ArgInt sz] s)"
  using seek_none [OF assms(2-4) _ slab_invD(3) [OF assms(1)], of 0] assms(3,4)
  by (simp add: caos_kmalloc_def outcome_simps named_def)

theorem kmalloc_no_cache_witness:
  "\<exists>s. caos_kmalloc 4096 0 s = Done (0, say ''FAIL TO caos_kmalloc(%d), <no cache>\<newline>'' [ArgInt 4096] s)"
proof -
  obtain s where s: "defaults 8 s" using small_slab_ready by blast
  have "slab_inv s (\<lambda>_. []) (\<lambda>_. [])" "8 < length (cache_cache s)" "\<not> named s 8"
    using s by (simp_all add: defaults_def named_def zero_cache_def)
  moreover have "named s j \<and> kc_objsize (cache_cache s ! j) < 4096" if "j < 8" for j
  proof -
    have "cache_cache s ! j = new_cache (cache_names ! j) (16 * 2 ^ j) 0 zero_cache" "length (cache_cache s) = 128"
      using s that unfolding defaults_def by blast+
    moreover have "unat (16 * 2 ^ j :: u64) < unat (4096::u64)"
      using default_sizes(2) [OF that] by (rule order_le_less_trans) simp
    ultimately show ?thesis
      using that default_sizes(3) [OF that] by (simp add: named_def) (simp add: word_less_nat_alt)
  qed
  ultimately show ?thesis using kmalloc_no_cache by blast
qed

text \<open>
  C30 (\<^verbatim>\<open>caos_kmalloc\<close>, memory exhausted). When the largest cache has no free object and the
  page allocator refuses, the retry loop does not return \<^verbatim>\<open>NULL\<close>: it moves on to the unused
  table entry behind the caches, whose list head is zero, and dereferences the null pointer.
  The limit on retries is never reached.
\<close>

theorem kmalloc_exhausted:
  assumes inv: "slab_inv s L F" and sv: "serves s sz i" and none: "\<forall>a\<in>set (L i). F a = []"
    and refused: "alloc_pages flags (kc_gfporder (cache_cache s ! i)) s = Done (None, s1)"
    and behind: "Suc i < length (cache_cache s)"
      "lists s (slabs_head s (Suc i)) = \<lparr>lh_next = 0, lh_prev = 0\<rparr>" "slabs s 0 = None"
  shows "caos_kmalloc sz flags s = Fault"
proof -
  have i: "named s i" using sv by (simp add: serves_def)
  have nf: "find (\<lambda>a. F a \<noteq> []) (L i) = None" using none by (simp add: find_None_iff)
  note grow = grow_refused [OF i slab_invD(1) [OF inv] refused]
  have base: "unat (cache_base s) mod 64 = 0" using inv by (simp add: slab_inv_def)
  have len: "i < length (cache_cache s)" using i by (simp add: named_def)
  have "kmalloc_retry sz flags i 1 s = Fault"
    using find_usable [OF inv i] nf grow len kmalloc_unnamed [OF behind(1) base behind(2,3)]
    by (subst kmalloc_retry.simps) (simp add: outcome_simps kconst)
  then have "kmalloc_retry sz flags i 0 s = Fault"
    using find_usable [OF inv i] nf grow len
    by (subst kmalloc_retry.simps) (simp add: outcome_simps)
  then show ?thesis using kmalloc_serves [OF inv sv] by simp
qed

text \<open>A machine with one cache and no free frame.\<close>

definition full_slab :: slab_state where
  "full_slab = mm_state.extend
     ((small_mm [0..<16])\<lparr>lists := INIT_LIST_HEAD (va 0x1000 + 32) (\<lambda>_. \<lparr>lh_next = 0, lh_prev = 0\<rparr>)\<rparr>)
     (slab_state.fields (va 0x1000) [new_cache ''16bytes'' 16 0 zero_cache, zero_cache] 2 (Some 1) (\<lambda>_. None))"

lemma full_slab_simps:
  "cache_cache full_slab = [new_cache ''16bytes'' 16 0 zero_cache, zero_cache]" "cache_base full_slab = va 0x1000"
  "cache_cache_max full_slab = 2" "slabs full_slab = (\<lambda>_. None)"
  "lists full_slab = INIT_LIST_HEAD (va 0x1000 + 32) (\<lambda>_. \<lparr>lh_next = 0, lh_prev = 0\<rparr>)"
  "mem_map full_slab = map (small_page [0..<16]) [0..<16]"
  by (simp_all add: full_slab_def mm_state.defs slab_state.defs small_mm_def Let_def)

lemma full_slab_inv: "slab_inv full_slab (\<lambda>_. []) (\<lambda>_. [])"
proof -
  have nm: "named full_slab j \<longleftrightarrow> j = 0" for j
    by (auto simp: named_def full_slab_simps zero_cache_def less_Suc_eq)
  have "mm_inv full_slab"
    by (simp add: full_slab_def mm_state.defs mm_inv_def small_mm_def Let_def upt_rec small_page_def free_count_def)
  moreover have "cache_ok (new_cache ''16bytes'' 16 0 zero_cache)" by (rule new_cache_ok) simp_all
  moreover have "dlist (lists full_slab) (slabs_head full_slab 0) []"
    by (simp add: full_slab_simps slabs_head_def dlist_init)
  moreover have "unat (va 0x1000) mod 64 = 0" using page_mod_64 [of 1] by simp
  ultimately show ?thesis
    unfolding slab_inv_def nm by (simp add: full_slab_simps small_page_def)
qed

theorem kmalloc_exhausted_witness: "caos_kmalloc 10 0 full_slab = Fault"
proof (rule kmalloc_exhausted [OF full_slab_inv])
  show "serves full_slab 10 0"
    by (simp add: serves_def named_def full_slab_simps) (simp add: round_long_def kconst)
  have "kc_gfporder (new_cache ''16bytes'' 16 0 zero_cache) = 1" by code_simp
  moreover have "free_count (mem_map full_slab) = 0"
    by (simp add: full_slab_simps free_count_def small_page_def upt_rec)
  ultimately show "alloc_pages 0 (kc_gfporder (cache_cache full_slab ! 0)) full_slab = Done (None, full_slab)"
    using alloc_pages_cases(1) [OF slab_invD(1) [OF full_slab_inv], of 1 0] by (simp add: full_slab_simps kconst)
qed (simp_all add: full_slab_simps slabs_head_def kconst lh_defs va_def)

end
