(* ===== verification/Console.thy ===== *)
theory Console
  imports Bitops Kstring
begin

text \<open>
  The text console: the video memory and cursor of \<^verbatim>\<open>screen.c\<close> and \<^verbatim>\<open>include/screen.h\<close>,
  and the formatted output of \<^verbatim>\<open>printf.c\<close> through its static buffer of 128 bytes. The
  visible screen is the whole array: a store outside of it is a fault.
\<close>

subsection \<open>The screen\<close>

definition SCREEN_ROW :: nat where [kconst]: "SCREEN_ROW = 25"
definition SCREEN_COL :: nat where [kconst]: "SCREEN_COL = 80"
definition BG_BLACK :: u16 where [kconst]: "BG_BLACK = 0x0700"

text \<open>
  \<open>ports\<close> records the writes to the cursor registers of the display controller, newest last;
  \<open>sz\<close> is the static buffer of \<^verbatim>\<open>printf.c\<close>. \<open>lock_bt\<close> is not a variable of the program: it says
  whether the processor that prints executes \<^verbatim>\<open>bt\<close> with a lock prefix, on which the printing of
  decimal numbers depends. No operation changes it.
\<close>

record console =
  cursor_offset :: u64
  video_mem :: "u16 list"
  ports :: "(u16 \<times> u8) list"
  sz :: "u8 list"
  lock_bt :: bool

definition outb :: "u16 \<Rightarrow> u8 \<Rightarrow> console \<Rightarrow> console" where
  "outb port v s = s\<lparr>ports := ports s @ [(port, v)]\<rparr>"

definition set_screen :: "u64 \<Rightarrow> u8 \<Rightarrow> console \<Rightarrow> console outcome" where
  "set_screen offset c s =
     obind (aput (video_mem s) (unat offset) (BG_BLACK OR ucast c)) (\<lambda>v. Done (s\<lparr>video_mem := v\<rparr>))"

text \<open>The two loops of \<^verbatim>\<open>scroll_screen\<close>: move the lines up, then blank the rest.\<close>

fun copy_cells :: "int \<Rightarrow> nat list \<Rightarrow> u16 list \<Rightarrow> u16 list outcome" where
  "copy_cells off [] v = Done v"
| "copy_cells off (i # is) v =
     (if off + int i < 0 then Fault
      else obind (aget v (nat (off + int i))) (\<lambda>c. obind (aput v i c) (copy_cells off is)))"

fun blank_cells :: "nat list \<Rightarrow> u16 list \<Rightarrow> u16 list outcome" where
  "blank_cells [] v = Done v"
| "blank_cells (i # is) v = obind (aput v i BG_BLACK) (blank_cells is)"

definition scroll_screen :: "int \<Rightarrow> console \<Rightarrow> console outcome" where
  "scroll_screen line s =
     (if int SCREEN_ROW - 1 < line then Done s
      else let n = nat ((int SCREEN_ROW - line) * int SCREEN_COL)
           in obind (copy_cells (line * int SCREEN_COL) [0..<n] (video_mem s)) (\<lambda>v.
              obind (blank_cells [n..<SCREEN_ROW * SCREEN_COL] v) (\<lambda>v'.
              Done (s\<lparr>video_mem := v'\<rparr>))))"

definition clear_screen :: "console \<Rightarrow> console outcome" where
  "clear_screen s =
     obind (blank_cells [0..<SCREEN_ROW * SCREEN_COL] (video_mem s)) (\<lambda>v. Done (s\<lparr>video_mem := v\<rparr>))"

definition set_cursor :: "u64 \<Rightarrow> console \<Rightarrow> console outcome" where
  "set_cursor new s =
     (let s1 = s\<lparr>cursor_offset := new\<rparr>
      in obind (if of_nat SCREEN_ROW \<le> cursor_offset s1 div of_nat SCREEN_COL
                then obind (scroll_screen 1 s1) (\<lambda>s2.
                     Done (s2\<lparr>cursor_offset := cursor_offset s2 - of_nat SCREEN_COL\<rparr>))
                else Done s1) (\<lambda>s3.
         Done (outb 0x3d5 (ucast (cursor_offset s3 AND 0xff))
              (outb 0x3d4 0x0f
              (outb 0x3d5 (ucast (drop_bit 8 (cursor_offset s3)))
              (outb 0x3d4 0x0e s3))))))"

definition init_screen :: "console \<Rightarrow> console outcome" where
  "init_screen s = obind (set_cursor 0 (s\<lparr>cursor_offset := 0\<rparr>)) clear_screen"

subsection \<open>Characters\<close>

text \<open>A \<^verbatim>\<open>char\<close> is signed: it is sign extended before it is combined with the attribute.\<close>

definition caos_putchar :: "u8 \<Rightarrow> console \<Rightarrow> console outcome" where
  "caos_putchar c s =
     obind (aput (video_mem s) (unat (cursor_offset s)) (BG_BLACK OR scast c)) (\<lambda>v.
     let s1 = s\<lparr>video_mem := v, cursor_offset := cursor_offset s + 1\<rparr>
     in set_cursor (cursor_offset s1) s1)"

primrec caos_delchar :: "nat \<Rightarrow> console \<Rightarrow> console outcome" where
  "caos_delchar 0 s = Done s"
| "caos_delchar (Suc cnt) s =
     obind (set_cursor (cursor_offset s - 1) (s\<lparr>cursor_offset := cursor_offset s - 1\<rparr>)) (\<lambda>s1.
     obind (aput (video_mem s1) (unat (cursor_offset s1)) BG_BLACK) (\<lambda>v.
     caos_delchar cnt (s1\<lparr>video_mem := v\<rparr>)))"

subsection \<open>Formatting\<close>

text \<open>A buffer and the index of the next byte to be written.\<close>

type_synonym wbuf = "nat \<times> u8 list"

definition emit :: "u8 \<Rightarrow> wbuf \<Rightarrow> wbuf outcome" where
  "emit c w = (case w of (p, b) \<Rightarrow> obind (aput b p c) (\<lambda>b'. Done (Suc p, b')))"

primrec emits :: "u8 list \<Rightarrow> wbuf \<Rightarrow> wbuf outcome" where
  "emits [] w = Done w"
| "emits (c # cs) w = obind (emit c w) (emits cs)"

text \<open>
  The digits \<^verbatim>\<open>print_decimal\<close> collects in \<^verbatim>\<open>v\<close>, least significant first. The sign is read with
  \<^verbatim>\<open>test_bit\<close>; \<open>lb\<close> is its parameter.
\<close>

fun dec_digits :: "nat \<Rightarrow> u8 list" where
  "dec_digits a = (if a = 0 then [] else of_nat (a mod 10) # dec_digits (a div 10))"

declare dec_digits.simps [simp del]

definition print_decimal :: "bool \<Rightarrow> u64 \<Rightarrow> wbuf \<Rightarrow> wbuf outcome" where
  "print_decimal lb a w =
     (if a = 0 then emit 0x30 w
      else obind (test_bit_m lb 63 [a]) (\<lambda>t.
        if t \<noteq> 0
        then let a' = - a
             in obind (emit 0x2d w) (emits (map (\<lambda>d. d + 0x30) (rev (if 0 < sint a' then dec_digits (unat a') else []))))
        else emits (map (\<lambda>d. d + 0x30) (rev (if 0 < sint a then dec_digits (unat a) else []))) w))"

definition hex_digit :: "u8 \<Rightarrow> u8" where
  "hex_digit d = (if d \<le> 9 then d + 0x30 else d + 0x37)"

text \<open>The sixteen digits of \<^verbatim>\<open>v\<close>, from the most significant byte, high half first.\<close>

definition hex_table :: "u64 \<Rightarrow> u8 list" where
  "hex_table a =
     concat (map (\<lambda>i. let p = ucast (drop_bit (8 * i) a) :: u8
                      in [hex_digit (drop_bit 4 p), hex_digit (p AND 0x0f)]) (rev [0..<8]))"

definition print_hex :: "u64 \<Rightarrow> wbuf \<Rightarrow> wbuf outcome" where
  "print_hex a w = (if a = 0 then emit 0x30 w else emits (dropWhile (\<lambda>c. c = 0x30) (hex_table a)) w)"

text \<open>
  The conversion a format position asks for: the letter after a percent sign if it is one of
  \<^verbatim>\<open>d\<close>, \<^verbatim>\<open>x\<close>, \<^verbatim>\<open>s\<close> and \<^verbatim>\<open>c\<close>, else zero. A percent sign at the end is an ordinary character.
\<close>

definition conversion :: "u8 \<Rightarrow> u8 list \<Rightarrow> u8" where
  "conversion f fs =
     (case fs of [] \<Rightarrow> 0 | g # _ \<Rightarrow> if f = 0x25 \<and> (g = 0x64 \<or> g = 0x78 \<or> g = 0x73 \<or> g = 0x63) then g else 0)"

text \<open>
  One converted argument. An argument that is missing or of the other kind is a fault: the
  variable argument list is then read as something it is not.
\<close>

fun print_arg :: "bool \<Rightarrow> u8 \<Rightarrow> printf_arg list \<Rightarrow> wbuf \<Rightarrow> (wbuf \<times> printf_arg list) outcome" where
  "print_arg lb d [] w = Fault"
| "print_arg lb d (ArgInt a # rest) w =
     obind (if d = 0x64 then print_decimal lb a w else if d = 0x78 then print_hex a w
            else if d = 0x63 then emit (ucast a) w else Fault) (\<lambda>w'. Done (w', rest))"
| "print_arg lb d (ArgStr t # rest) w =
     obind (if d = 0x73 then emits (bytes t) w else Fault) (\<lambda>w'. Done (w', rest))"

function caos_vsprintf :: "bool \<Rightarrow> u8 list \<Rightarrow> printf_arg list \<Rightarrow> wbuf \<Rightarrow> wbuf outcome" where
  "caos_vsprintf lb [] args w = (case w of (p, b) \<Rightarrow> obind (aput b p 0) (\<lambda>b'. Done (p, b')))"
| "caos_vsprintf lb (f # fs) args w =
     (if conversion f fs \<noteq> 0
      then obind (print_arg lb (conversion f fs) args w) (\<lambda>(w', rest). caos_vsprintf lb (tl fs) rest w')
      else obind (emit f w) (caos_vsprintf lb fs args))"
  by pat_completeness auto
termination by (relation "measure (\<lambda>(lb, fs, args, w). length fs)") (auto simp: less_Suc_eq_le)

text \<open>The loop of \<^verbatim>\<open>caos_printf\<close> over the buffer: it reads on until it meets a zero byte.\<close>

fun print_loop :: "u8 list \<Rightarrow> console \<Rightarrow> console outcome" where
  "print_loop [] s = Fault"
| "print_loop (c # cs) s =
     (if c = 0 then Done s
      else if c = 0x0a
      then obind (set_cursor ((cursor_offset s div of_nat SCREEN_COL + 1) * of_nat SCREEN_COL) s) (print_loop cs)
      else if c = 0x08 then obind (caos_delchar 1 s) (print_loop cs)
      else obind (caos_putchar c s) (print_loop cs))"

definition caos_printf :: "string \<Rightarrow> printf_arg list \<Rightarrow> console \<Rightarrow> console outcome" where
  "caos_printf format args s =
     obind (caos_vsprintf (lock_bt s) (bytes format) args (0, sz s)) (\<lambda>(_, b).
       print_loop b (s\<lparr>sz := b\<rparr>))"

definition caos_sprintf :: "bool \<Rightarrow> string \<Rightarrow> printf_arg list \<Rightarrow> u8 list \<Rightarrow> u8 list outcome" where
  "caos_sprintf lb format args outbuf =
     obind (caos_vsprintf lb (bytes format) args (0, outbuf)) (\<lambda>(_, b). Done b)"

subsection \<open>Lemmas: the screen\<close>

declare upt_rec_numeral [simp del]

lemma copy_cells_up:
  assumes "0 < off" and "k \<le> n" and "n + off \<le> length v"
  shows "copy_cells (int off) [k..<n] v = Done (take k v @ map (\<lambda>i. v ! (i + off)) [k..<n] @ drop n v)"
  using assms
proof (induction "n - k" arbitrary: k v)
  case 0
  then show ?case by simp
next
  case (Suc d)
  then have k: "k < n" by simp
  let ?v = "v[k := v ! (k + off)]"
  have step: "copy_cells (int off) [k..<n] v = copy_cells (int off) [Suc k..<n] ?v"
    using k Suc.prems by (simp add: upt_conv_Cons outcome_simps nat_add_distrib add.commute)
  have "copy_cells (int off) [Suc k..<n] ?v =
      Done (take (Suc k) ?v @ map (\<lambda>i. ?v ! (i + off)) [Suc k..<n] @ drop n ?v)"
    using Suc.hyps(1) [of "Suc k" ?v] Suc.hyps(2) Suc.prems k by simp
  moreover have "take (Suc k) ?v = take k v @ [v ! (k + off)]"
    using k Suc.prems by (simp add: take_Suc_conv_app_nth)
  moreover have "map (\<lambda>i. ?v ! (i + off)) [Suc k..<n] = map (\<lambda>i. v ! (i + off)) [Suc k..<n]" by simp
  moreover have "drop n ?v = drop n v" using k by simp
  ultimately show ?case using step k by (simp add: upt_conv_Cons)
qed

lemma blank_cells_ok:
  assumes "n \<le> k" and "k \<le> length v"
  shows "blank_cells [n..<k] v = Done (take n v @ replicate (k - n) BG_BLACK @ drop k v)"
  using assms
proof (induction "k - n" arbitrary: n v)
  case 0
  then show ?case by simp
next
  case (Suc d)
  then have n: "n < k" by simp
  let ?v = "v[n := BG_BLACK]"
  have "blank_cells [n..<k] v = blank_cells [Suc n..<k] ?v"
    using n Suc.prems by (simp add: upt_conv_Cons outcome_simps)
  also have "\<dots> = Done (take (Suc n) ?v @ replicate (k - Suc n) BG_BLACK @ drop k ?v)"
    using Suc.hyps(1) [of "Suc n" ?v] Suc.hyps(2) Suc.prems n by simp
  also have "take (Suc n) ?v = take n v @ [BG_BLACK]"
    using n Suc.prems by (simp add: take_Suc_conv_app_nth)
  finally show ?case using n by (simp add: Suc_diff_Suc replicate_Suc [symmetric] del: replicate_Suc)
qed

text \<open>The screen one line further up, with a blank last line.\<close>

definition scrolled :: "u16 list \<Rightarrow> u16 list" where
  "scrolled v = drop SCREEN_COL v @ replicate SCREEN_COL BG_BLACK"

lemma scroll_one:
  assumes "length (video_mem s) = 2000"
  shows "scroll_screen 1 s = Done (s\<lparr>video_mem := scrolled (video_mem s)\<rparr>)"
proof -
  define v where "v = video_mem s"
  have len: "length v = 2000" using assms by (simp add: v_def)
  have "map (\<lambda>i. v ! (i + 80)) [0..<1920] = drop 80 v"
    by (rule nth_equalityI) (simp_all add: len add.commute)
  then have "copy_cells (int 80) [0..<1920] v = Done (drop 80 v @ drop 1920 v)"
    using copy_cells_up [of 80 0 1920 v] len by simp
  moreover have "blank_cells [1920..<2000] (drop 80 v @ drop 1920 v) = Done (drop 80 v @ replicate 80 BG_BLACK)"
    using blank_cells_ok [of 1920 2000 "drop 80 v @ drop 1920 v"] len by simp
  ultimately show ?thesis
    by (simp add: scroll_screen_def kconst scrolled_def Let_def v_def [symmetric])
qed

definition screen_ok :: "console \<Rightarrow> bool" where
  "screen_ok s \<longleftrightarrow> length (video_mem s) = 2000 \<and> length (sz s) = 128 \<and> unat (cursor_offset s) < 2000"

lemma set_cursor_cases:
  assumes len: "length (video_mem s) = 2000" and new: "unat new < 2080"
  shows "\<exists>io. set_cursor new s =
    Done (s\<lparr>video_mem := (if unat new < 2000 then video_mem s else scrolled (video_mem s)),
            cursor_offset := (if unat new < 2000 then new else new - 80), ports := io\<rparr>)"
proof -
  have div: "(25::u64) \<le> new div 80 \<longleftrightarrow> 2000 \<le> unat new"
    by (auto simp: word_le_nat_alt unat_div)
  show ?thesis
  proof (cases "unat new < 2000")
    case True
    then have "\<not> (25::u64) \<le> new div 80" using div by simp
    then show ?thesis using True by (auto simp: set_cursor_def Let_def kconst outb_def)
  next
    case False
    then have "(25::u64) \<le> new div 80" using div by simp
    then show ?thesis
      using False len scroll_one [of "s\<lparr>cursor_offset := new\<rparr>"]
      by (auto simp: set_cursor_def Let_def kconst outb_def)
  qed
qed

lemma unat_sub_80: "2000 \<le> unat (n::u64) \<Longrightarrow> unat (n - 80) = unat n - 80"
  by (subst unat_sub_u64) (simp_all add: word_le_nat_alt)

lemma scrolled_length [simp]: "length v = 2000 \<Longrightarrow> length (scrolled v) = 2000"
  by (simp add: scrolled_def kconst)

lemma set_cursor_ok:
  assumes "length (video_mem s) = 2000" "length (sz s) = 128" "unat new < 2080"
  shows "\<exists>s'. set_cursor new s = Done s' \<and> screen_ok s' \<and> sz s' = sz s"
  using set_cursor_cases [OF assms(1,3)] assms unat_sub_80 [of new]
  by (cases "unat new < 2000") (auto simp: screen_ok_def)

lemma putchar_ok:
  assumes "screen_ok s"
  shows "\<exists>s'. caos_putchar c s = Done s' \<and> screen_ok s' \<and> sz s' = sz s"
proof -
  have s: "length (video_mem s) = 2000" "length (sz s) = 128" "unat (cursor_offset s) < 2000"
    using assms by (simp_all add: screen_ok_def)
  have "unat (cursor_offset s + 1) < 2080" using s(3) by (subst unat_add_u64) simp_all
  then show ?thesis
    using s set_cursor_ok [of "s\<lparr>video_mem := (video_mem s)[unat (cursor_offset s) := BG_BLACK OR scast c],
        cursor_offset := cursor_offset s + 1\<rparr>" "cursor_offset s + 1"]
    by (simp add: caos_putchar_def outcome_simps Let_def)
qed

lemma newline_ok:
  assumes "screen_ok s"
  shows "\<exists>s'. set_cursor ((cursor_offset s div of_nat SCREEN_COL + 1) * of_nat SCREEN_COL) s = Done s' \<and>
    screen_ok s' \<and> sz s' = sz s"
proof -
  have s: "length (video_mem s) = 2000" "length (sz s) = 128" "unat (cursor_offset s) < 2000"
    using assms by (simp_all add: screen_ok_def)
  define q where "q = unat (cursor_offset s) div 80"
  have q: "q < 25" using s(3) by (simp add: q_def less_mult_imp_div_less)
  have "unat (cursor_offset s div 80 + 1 :: u64) = q + 1"
    using q by (subst unat_add_u64) (simp_all add: unat_div q_def)
  then have "unat ((cursor_offset s div 80 + 1) * 80 :: u64) = (q + 1) * 80"
    using q by (subst unat_mult_u64) simp_all
  then show ?thesis using set_cursor_ok [OF s(1,2)] q by (simp add: kconst)
qed

lemma delchar_ok:
  assumes "screen_ok s" and "cursor_offset s \<noteq> 0"
  shows "\<exists>s'. caos_delchar 1 s = Done s' \<and> screen_ok s' \<and> sz s' = sz s"
proof -
  have s: "length (video_mem s) = 2000" "length (sz s) = 128" "unat (cursor_offset s) < 2000"
    using assms by (simp_all add: screen_ok_def)
  have "unat (cursor_offset s - 1) = unat (cursor_offset s) - 1"
    using assms(2) by (subst unat_sub_u64) (simp_all add: word_le_nat_alt Suc_le_eq unat_gt_0)
  then have "unat (cursor_offset s - 1) < 2080" using s(3) by simp
  then obtain s1 where "set_cursor (cursor_offset s - 1) (s\<lparr>cursor_offset := cursor_offset s - 1\<rparr>) = Done s1"
    "screen_ok s1" "sz s1 = sz s"
    using set_cursor_ok [of "s\<lparr>cursor_offset := cursor_offset s - 1\<rparr>" "cursor_offset s - 1"] s by auto
  then show ?thesis by (simp add: outcome_simps screen_ok_def)
qed

text \<open>Printable text keeps the screen in order; a backspace is left out here.\<close>

lemma print_loop_ok:
  assumes "screen_ok s" and "0x08 \<notin> set t" and "0 \<notin> set t"
  shows "\<exists>s'. print_loop (t @ 0 # rest) s = Done s' \<and> screen_ok s' \<and> sz s' = sz s"
  using assms
proof (induction t arbitrary: s)
  case Nil
  then show ?case by simp
next
  case (Cons c t)
  obtain s1 where s1: "(if c = 0x0a
      then set_cursor ((cursor_offset s div of_nat SCREEN_COL + 1) * of_nat SCREEN_COL) s
      else caos_putchar c s) = Done s1" "screen_ok s1" "sz s1 = sz s"
    using putchar_ok [OF Cons.prems(1), of c] newline_ok [OF Cons.prems(1)] by (cases "c = 0x0a") auto
  obtain s2 where "print_loop (t @ 0 # rest) s1 = Done s2" "screen_ok s2" "sz s2 = sz s1"
    using Cons.IH [OF s1(2)] Cons.prems by auto
  then show ?case using s1 Cons.prems(2,3) by (auto split: if_splits)
qed

subsection \<open>Lemmas: the buffer\<close>

lemma emits_spec:
  assumes "p \<le> length b"
  shows "emits cs (p, b) =
    (if p + length cs \<le> length b then Done (p + length cs, take p b @ cs @ drop (p + length cs) b) else Fault)"
  using assms
proof (induction cs arbitrary: p b)
  case Nil
  then show ?case by simp
next
  case (Cons c cs)
  show ?case
  proof (cases "p < length b")
    case True
    then have "emits (c # cs) (p, b) = emits cs (Suc p, b[p := c])"
      by (simp add: emit_def outcome_simps)
    moreover have "take (Suc p) (b[p := c]) = take p b @ [c]" using True by (simp add: take_Suc_conv_app_nth)
    ultimately show ?thesis using Cons.IH [of "Suc p" "b[p := c]"] True by simp
  next
    case False
    then show ?thesis using Cons.prems by (simp add: emit_def outcome_simps)
  qed
qed

lemma emits_Nil [simp]: "emits [] = Done"
  by (simp add: fun_eq_iff)

lemma emits_single [simp]: "obind (emit c w) Done = emit c w"
  by (cases "emit c w") auto

lemma emit_spec:
  "p \<le> length b \<Longrightarrow> emit c (p, b) =
     (if p < length b then Done (Suc p, take p b @ c # drop (Suc p) b) else Fault)"
  by (simp add: emit_def aput_def upd_conv_take_nth_drop)

text \<open>The text a conversion produces.\<close>

definition dec_str :: "u64 \<Rightarrow> u8 list" where
  "dec_str a =
     (if a = 0 then [0x30]
      else if bit a 63
      then 0x2d # map (\<lambda>d. d + 0x30) (rev (if 0 < sint (- a) then dec_digits (unat (- a)) else []))
      else map (\<lambda>d. d + 0x30) (rev (dec_digits (unat a))))"

definition hex_str :: "u64 \<Rightarrow> u8 list" where
  "hex_str a = (if a = 0 then [0x30] else dropWhile (\<lambda>c. c = 0x30) (hex_table a))"

lemma sint_of_low: "\<not> bit (a::u64) 63 \<Longrightarrow> sint a = uint a"
proof -
  assume b: "\<not> bit a 63"
  have "take_bit 64 (uint a) = uint a"
    using unsigned_less [of a, where ?'a = int] by (intro take_bit_int_eq_self) simp_all
  then show ?thesis
    using b by (simp add: sint_uint signed_take_bit_eq_take_bit_minus bit_simps)
qed

lemma print_decimal_emits:
  "print_decimal lb a w = (if a = 0 \<or> lb then emits (dec_str a) w else Fault)"
proof -
  have "unat (63 :: u64) = 63" by simp
  then have test: "test_bit_m lb 63 [a] = (if lb then Done (if bit a 63 then - 1 else 0) else Fault)"
    by (simp add: test_bit_m_def bit_word_def)
  have "0 < sint a" if "a \<noteq> 0" "\<not> bit a 63"
    using that sint_of_low [of a] unsigned_greater_eq [of a, where ?'a = int] unsigned_eq_0_iff [of a, where ?'a = int]
    by linarith
  then show ?thesis unfolding print_decimal_def test by (simp add: dec_str_def Let_def)
qed

lemma print_hex_emits: "print_hex a w = emits (hex_str a) w"
  by (simp add: print_hex_def hex_str_def)

fun arg_str :: "bool \<Rightarrow> u8 \<Rightarrow> printf_arg \<Rightarrow> u8 list option" where
  "arg_str lb d (ArgInt a) =
     (if d = 0x64 then (if a = 0 \<or> lb then Some (dec_str a) else None) else if d = 0x78 then Some (hex_str a)
      else if d = 0x63 then Some [ucast a] else None)"
| "arg_str lb d (ArgStr t) = (if d = 0x73 then Some (bytes t) else None)"

text \<open>
  The text a format produces, without a buffer; \<open>None\<close> when the arguments do not match it, or a
  conversion traps.
\<close>

function render :: "bool \<Rightarrow> u8 list \<Rightarrow> printf_arg list \<Rightarrow> u8 list option" where
  "render lb [] args = Some []"
| "render lb (f # fs) args =
     (if conversion f fs \<noteq> 0
      then case args of
             [] \<Rightarrow> None
           | a # rest \<Rightarrow> (case arg_str lb (conversion f fs) a of
                           None \<Rightarrow> None | Some t \<Rightarrow> map_option ((@) t) (render lb (tl fs) rest))
      else map_option ((#) f) (render lb fs args))"
  by pat_completeness auto
termination by (relation "measure (\<lambda>(lb, fs, args). length fs)") (auto simp: less_Suc_eq_le)

lemma print_arg_emits:
  "print_arg lb d args w =
     (case args of [] \<Rightarrow> Fault
      | a # rest \<Rightarrow> (case arg_str lb d a of None \<Rightarrow> Fault | Some t \<Rightarrow> obind (emits t w) (\<lambda>w'. Done (w', rest))))"
  by (cases "(lb, d, args, w)" rule: print_arg.cases)
    (auto simp: print_decimal_emits print_hex_emits)

lemma vsprintf_render:
  assumes "p \<le> length b"
  shows "caos_vsprintf lb fs args (p, b) =
    (case render lb fs args of
       None \<Rightarrow> Fault
     | Some t \<Rightarrow> if p + length t < length b
                 then Done (p + length t, take p b @ t @ 0 # drop (Suc (p + length t)) b) else Fault)"
  using assms
proof (induction lb fs args arbitrary: p b rule: render.induct)
  case (1 lb args)
  then show ?case by (simp add: aput_def upd_conv_take_nth_drop)
next
  case (2 lb f fs args)
  show ?case
  proof (cases "conversion f fs = 0")
    case True
    then show ?thesis using 2 by (auto simp: emit_spec add.commute split: option.splits)
  next
    case False
    then show ?thesis using 2
      by (auto simp: print_arg_emits emits_spec ac_simps split: option.splits list.splits)
  qed
qed

subsection \<open>Lemmas: numbers\<close>

text \<open>Reading the text of a number back, as reference for the two printing routines.\<close>

definition dec_value :: "u8 list \<Rightarrow> nat" where
  "dec_value cs = foldl (\<lambda>acc c. 10 * acc + (unat c - 48)) 0 cs"

definition read_decimal :: "u8 list \<Rightarrow> int" where
  "read_decimal cs = (case cs of [] \<Rightarrow> 0 | c # ds \<Rightarrow> if c = 0x2d then - int (dec_value ds) else int (dec_value cs))"

definition hex_val :: "u8 \<Rightarrow> nat" where
  "hex_val c = (if c \<le> 0x39 then unat c - 48 else unat c - 55)"

definition read_hex :: "u8 list \<Rightarrow> nat" where
  "read_hex cs = foldl (\<lambda>acc c. 16 * acc + hex_val c) 0 cs"

lemma dec_digits_small: "d \<in> set (dec_digits a) \<Longrightarrow> unat d < 10"
proof (induction a rule: dec_digits.induct)
  case (1 a)
  have "unat (of_nat (a mod 10) :: u8) = a mod 10" by (simp add: unat_of_nat)
  then show ?case using 1 by (subst (asm) (2) dec_digits.simps) (auto split: if_splits)
qed

lemma unat_digit: "unat d < 10 \<Longrightarrow> unat (d + 0x30 :: u8) = unat d + 48"
  by (simp add: unat_word_ariths)

lemma dec_value_digits: "dec_value (map (\<lambda>d. d + 0x30) (rev (dec_digits a))) = a"
proof (induction a rule: dec_digits.induct)
  case (1 a)
  show ?case
  proof (cases "a = 0")
    case True
    then show ?thesis by (simp add: dec_digits.simps dec_value_def)
  next
    case False
    have "unat (of_nat (a mod 10) :: u8) = a mod 10" by (simp add: unat_of_nat)
    moreover have "dec_digits a = of_nat (a mod 10) # dec_digits (a div 10)"
      using False by (subst dec_digits.simps) simp
    ultimately show ?thesis using 1 [OF False] by (simp add: dec_value_def unat_digit)
  qed
qed

lemma dec_digits_length: "a < 10 ^ k \<Longrightarrow> length (dec_digits a) \<le> k"
proof (induction k arbitrary: a)
  case 0
  then show ?case by (subst dec_digits.simps) simp
next
  case (Suc k)
  then have "a div 10 < 10 ^ k" by (simp add: less_mult_imp_div_less mult.commute)
  then show ?case using Suc.IH [of "a div 10"] by (subst dec_digits.simps) simp
qed

lemma dec_str_length: "length (dec_str a) \<le> 21"
proof -
  have "length (dec_digits (unat x)) \<le> 20" for x :: u64
    by (rule dec_digits_length) (rule order_less_trans [OF unat_u64_less], simp)
  from this [of a] this [of "- a"] show ?thesis by (simp add: dec_str_def)
qed

lemma dec_no_minus:
  assumes "cs = map (\<lambda>d. d + 0x30) (rev (dec_digits a))" and "cs = c # ds"
  shows "c \<noteq> 0x2d"
proof -
  have "c \<in> set cs" using assms(2) by simp
  then obtain d where d: "d \<in> set (dec_digits a)" "c = d + 0x30" using assms(1) by auto
  have "unat c = unat d + 48" using unat_digit [OF dec_digits_small [OF d(1)]] d(2) by simp
  then show ?thesis by auto
qed

lemma sint_of_high: "bit (a::u64) 63 \<Longrightarrow> sint a = uint a - 2 ^ 64"
proof -
  assume b: "bit a 63"
  have "take_bit 64 (uint a) = uint a"
    using unsigned_less [of a, where ?'a = int] by (intro take_bit_int_eq_self) simp_all
  then show ?thesis
    using b by (simp add: sint_uint signed_take_bit_eq_take_bit_minus bit_simps)
qed

lemma uint_neg: "(a::u64) \<noteq> 0 \<Longrightarrow> uint (- a) = 2 ^ 64 - uint a"
proof -
  assume "a \<noteq> 0"
  then have "uint a \<noteq> 0" by (simp add: unsigned_eq_0_iff)
  then have "0 < uint a" using unsigned_greater_eq [of a, where ?'a = int] by linarith
  moreover have "uint a < 2 ^ 64" using unsigned_less [of a, where ?'a = int] by simp
  ultimately have "(- uint a) mod 2 ^ 64 = 2 ^ 64 - uint a"
    by (simp add: zmod_zminus1_eq_if)
  then show ?thesis by (simp add: uint_word_ariths)
qed

lemma sint_neg:
  assumes "bit (a::u64) 63" and "a \<noteq> 0x8000000000000000"
  shows "0 < sint (- a) \<and> int (unat (- a)) = - sint a"
proof -
  have a0: "a \<noteq> 0" using assms(1) by auto
  have s: "sint a = uint a - 2 ^ 64" by (rule sint_of_high [OF assms(1)])
  have u: "uint (- a) = - sint a" using uint_neg [OF a0] s by simp
  have "\<not> bit (- a) 63"
  proof
    assume "bit (- a) 63"
    then have "sint (- a) = uint (- a) - 2 ^ 64" by (rule sint_of_high)
    moreover have "- (2 ^ 63) \<le> sint (- a)" using sint_greater_eq [of "- a"] by simp
    moreover have "- (2 ^ 63) \<le> sint a" using sint_greater_eq [of a] by simp
    ultimately have "sint a = - (2 ^ 63)" using u by simp
    then have "uint a = uint (0x8000000000000000 :: u64)" using s by simp
    then show False using assms(2) by (metis unsigned_word_eqI)
  qed
  then have "sint (- a) = - sint a" using sint_of_low u by simp
  moreover have "sint a < 0" using s unsigned_less [of a, where ?'a = int] by simp
  ultimately show ?thesis using u by (simp add: uint_nat [symmetric])
qed

lemma hex_val_digit: "unat d < 16 \<Longrightarrow> hex_val (hex_digit d) = unat d"
proof -
  assume d: "unat d < 16"
  have "unat (d + 0x30) = unat d + 48" "unat (d + 0x37) = unat d + 55"
    using d by (simp_all add: unat_word_ariths)
  then show ?thesis using d by (auto simp: hex_val_def hex_digit_def word_le_nat_alt)
qed

lemma read_hex_append:
  "foldl (\<lambda>acc c. 16 * acc + hex_val c) n (xs @ ys) =
   foldl (\<lambda>acc c. 16 * acc + hex_val c) (foldl (\<lambda>acc c. 16 * acc + hex_val c) n xs) ys"
  by simp

text \<open>The two digits of one byte.\<close>

lemma byte_digits:
  fixes p :: u8
  shows "16 * hex_val (hex_digit (drop_bit 4 p)) + hex_val (hex_digit (p AND 0x0f)) = unat p"
proof -
  have "unat (drop_bit 4 p) = unat p div 16"
    by (simp add: unat_drop_bit_eq drop_bit_eq_div [of 4 "unat p"])
  moreover have "p AND 0x0f = take_bit 4 p" by (simp add: take_bit_eq_mask mask_eq_exp_minus_1)
  then have "unat (p AND 0x0f) = unat p mod 16"
    by (simp add: unsigned_take_bit_eq take_bit_eq_mod [of 4 "unat p"])
  moreover have "unat p < 256" using unsigned_less [of p, where ?'a = nat] by simp
  ultimately show ?thesis by (subst hex_val_digit, simp, subst hex_val_digit) simp_all
qed

lemma unat_byte: "unat (ucast (drop_bit (8 * i) a) :: u8) = unat (a::u64) div 256 ^ i mod 256"
proof -
  have "unat (ucast (drop_bit (8 * i) a) :: u8) = unat (drop_bit (8 * i) a) mod 256"
    by (simp add: unsigned_ucast_eq take_bit_eq_mod)
  also have "unat (drop_bit (8 * i) a) = unat a div 2 ^ (8 * i)"
    by (simp add: unat_drop_bit_eq drop_bit_eq_div [of "8 * i" "unat a"])
  finally show ?thesis by (simp add: power_mult)
qed

definition byte_hex :: "u64 \<Rightarrow> nat \<Rightarrow> u8 list" where
  "byte_hex a i = (let p = ucast (drop_bit (8 * i) a) :: u8
     in [hex_digit (drop_bit 4 p), hex_digit (p AND 0x0f)])"

lemma hex_fold:
  "foldl (\<lambda>acc c. 16 * acc + hex_val c) acc (concat (map (byte_hex a) (rev [0..<n]))) =
   acc * 256 ^ n + unat (a::u64) mod 256 ^ n"
proof (induction n arbitrary: acc)
  case 0
  then show ?case by simp
next
  case (Suc n)
  define p :: u8 where "p = ucast (drop_bit (8 * n) a)"
  have "foldl (\<lambda>acc c. 16 * acc + hex_val c) acc (byte_hex a n) =
      256 * acc + (16 * hex_val (hex_digit (drop_bit 4 p)) + hex_val (hex_digit (p AND 0x0f)))"
    by (simp add: byte_hex_def Let_def p_def)
  also have "\<dots> = 256 * acc + unat a div 256 ^ n mod 256"
    using byte_digits [of p] unat_byte [of n a] by (simp only: p_def)
  finally have "foldl (\<lambda>acc c. 16 * acc + hex_val c) acc (byte_hex a n) = 256 * acc + unat a div 256 ^ n mod 256" .
  moreover have "unat a mod 256 ^ Suc n = 256 ^ n * (unat a div 256 ^ n mod 256) + unat a mod 256 ^ n"
    using mod_mult2_eq [of "unat a" "256 ^ n" 256] by (simp add: mult.commute)
  ultimately show ?case
    using Suc [of "256 * acc + unat a div 256 ^ n mod 256"] by (simp add: algebra_simps)
qed

lemma read_hex_table: "read_hex (hex_table a) = unat a"
proof -
  have "hex_table a = concat (map (byte_hex a) (rev [0..<8]))"
    by (simp add: hex_table_def byte_hex_def [abs_def])
  moreover have "unat a mod 256 ^ 8 = unat a" using unat_u64_less [of a] by simp
  ultimately show ?thesis using hex_fold [of 0 a 8] by (simp only: read_hex_def)
qed

lemma read_hex_zeros: "read_hex (dropWhile (\<lambda>c. c = 0x30) cs) = read_hex cs"
  by (induction cs) (simp_all add: read_hex_def hex_val_def)

lemma hex_table_length: "length (hex_table a) = 16"
  by (simp add: hex_table_def length_concat comp_def Let_def sum_list_triv)

lemma hex_str_length: "length (hex_str a) \<le> 16"
  using length_dropWhile_le [of "\<lambda>c. c = 0x30" "hex_table a"] by (simp add: hex_str_def hex_table_length)

subsection \<open>What a format means\<close>

text \<open>
  The contract of formatted output, written without the routines above: a format is read as a list
  of directives, a number is written with the digits that division by the base gives, and the text
  is the concatenation. A decimal number other than zero needs a processor that executes \<^verbatim>\<open>bt\<close> with
  a lock prefix; the smallest signed number prints as a minus sign alone.
\<close>

datatype directive = Literal char | Decimal | Hexadecimal | Str_arg | Char_arg

fun directives :: "string \<Rightarrow> directive list" where
  "directives [] = []"
| "directives [c] = [Literal c]"
| "directives (c # k # fs) =
     (if c = CHR ''%'' \<and> k = CHR ''d'' then Decimal # directives fs
      else if c = CHR ''%'' \<and> k = CHR ''x'' then Hexadecimal # directives fs
      else if c = CHR ''%'' \<and> k = CHR ''s'' then Str_arg # directives fs
      else if c = CHR ''%'' \<and> k = CHR ''c'' then Char_arg # directives fs
      else Literal c # directives (k # fs))"

definition digit_text :: "nat \<Rightarrow> char" where
  "digit_text k = ''0123456789ABCDEF'' ! k"

fun numeral_text :: "nat \<Rightarrow> nat \<Rightarrow> string" where
  "numeral_text base n =
     (if base < 2 \<or> n < base then [digit_text n]
      else numeral_text base (n div base) @ [digit_text (n mod base)])"

declare numeral_text.simps [simp del]

definition signed_text :: "int \<Rightarrow> string" where
  "signed_text i =
     (if i = - (2 ^ 63) then ''-'' else if i < 0 then CHR ''-'' # numeral_text 10 (nat (- i))
      else numeral_text 10 (nat i))"

fun directive_text :: "bool \<Rightarrow> directive \<Rightarrow> printf_arg \<Rightarrow> string option" where
  "directive_text lb Decimal (ArgInt a) = (if sint a = 0 \<or> lb then Some (signed_text (sint a)) else None)"
| "directive_text lb Hexadecimal (ArgInt a) = Some (numeral_text 16 (unat a))"
| "directive_text lb Char_arg (ArgInt a) = Some [char_of (unat a mod 256)]"
| "directive_text lb Str_arg (ArgStr t) = Some t"
| "directive_text lb _ _ = None"

fun formatted :: "bool \<Rightarrow> directive list \<Rightarrow> printf_arg list \<Rightarrow> string option" where
  "formatted lb [] args = Some []"
| "formatted lb (Literal c # ds) args = map_option (Cons c) (formatted lb ds args)"
| "formatted lb (d # ds) [] = None"
| "formatted lb (d # ds) (a # args) =
     (case directive_text lb d a of None \<Rightarrow> None | Some t \<Rightarrow> map_option ((@) t) (formatted lb ds args))"

subsection \<open>Lemmas: the routines meet the contract\<close>

definition digit_byte :: "nat \<Rightarrow> u8" where
  "digit_byte k = of_nat (if k < 10 then 48 + k else 55 + k)"

lemma bytes_simps [simp]: "bytes [] = []" "bytes (c # t) = of_nat (of_char c) # bytes t"
  "bytes (s @ t) = bytes s @ bytes t"
  by (simp_all add: bytes_def)

lemma less_16_cases: "k < (16::nat) \<Longrightarrow> k \<in> {0,1,2,3,4,5,6,7,8,9,10,11,12,13,14,15}"
  by (simp, presburger)

lemma digit_char: "k < 16 \<Longrightarrow> of_nat (of_char (digit_text k)) = digit_byte k"
  by (drule less_16_cases) (auto simp: digit_byte_def digit_text_def)

lemma decimal_digits:
  "n \<noteq> 0 \<Longrightarrow> map (\<lambda>d. d + 0x30) (rev (dec_digits n)) = bytes (numeral_text 10 n)"
proof (induction n rule: less_induct)
  case (less n)
  have d: "of_nat k + 0x30 = digit_byte k" if "k < 10" for k
    using that by (simp add: digit_byte_def add.commute)
  have "dec_digits n = of_nat (n mod 10) # dec_digits (n div 10)"
    using less.prems by (subst dec_digits.simps) simp
  then show ?case
    using less.IH [of "n div 10"] less.prems d [of "n mod 10"]
    by (subst numeral_text.simps) (auto simp: digit_char dec_digits.simps [of 0] div_eq_0_iff)
qed

lemma dec_str_signed: "dec_str a = bytes (signed_text (sint a))"
proof -
  have z: "bytes (numeral_text 10 0) = [0x30]" by (subst numeral_text.simps) (simp add: digit_char digit_byte_def)
  show ?thesis
  proof (cases "bit a 63")
    case True
    then have "a \<noteq> 0" by auto
    show ?thesis
    proof (cases "a = 0x8000000000000000")
      case True
      have "dec_str 0x8000000000000000 = [0x2d]" "sint (0x8000000000000000 :: u64) = - (2 ^ 63)" by code_simp+
      then show ?thesis using True by (simp add: signed_text_def)
    next
      case False
      have s: "0 < sint (- a)" "int (unat (- a)) = - sint a" using sint_neg [OF \<open>bit a 63\<close> False] by auto
      then have "unat (- a) = nat (- sint a)" by (simp only: nat_int flip: s(2))
      moreover have "sint a < 0" using sint_of_high [OF \<open>bit a 63\<close>] unsigned_less [of a, where ?'a = int] by simp
      moreover have "sint a \<noteq> - (2 ^ 63)"
        using False sint_of_high [OF \<open>bit a 63\<close>] unsigned_word_eqI [of a "0x8000000000000000"] by auto
      ultimately show ?thesis
        using \<open>bit a 63\<close> \<open>a \<noteq> 0\<close> s(1) by (simp add: dec_str_def signed_text_def decimal_digits)
    qed
  next
    case False
    have s: "sint a = int (unat a)" using sint_of_low [OF False] by simp
    have sgn: "signed_text (int n) = numeral_text 10 n" for n by (simp add: signed_text_def)
    show ?thesis using False z unfolding s sgn by (auto simp: dec_str_def decimal_digits unat_eq_zero)
  qed
qed

text \<open>The low \<open>k\<close> hexadecimal digits of a number, most significant first.\<close>

definition hex_row :: "nat \<Rightarrow> nat \<Rightarrow> u8 list" where
  "hex_row k n = map (\<lambda>i. digit_byte (n div 16 ^ i mod 16)) (rev [0..<k])"

lemma hex_row_Suc: "hex_row (Suc k) n = hex_row k (n div 16) @ [digit_byte (n mod 16)]"
proof -
  have "rev [0..<Suc k] = map Suc (rev [0..<k]) @ [0]"
    by (simp add: rev_map [symmetric] map_Suc_upt upt_conv_Cons del: upt_Suc)
  then show ?thesis by (simp add: hex_row_def div_mult2_eq comp_def del: upt_Suc)
qed

lemma hex_row_zero: "hex_row k 0 = replicate k 0x30"
  by (induction k) (simp_all add: hex_row_Suc replicate_append_same [symmetric], simp_all add: hex_row_def digit_byte_def)

lemma digit_byte_zero: "k < 16 \<Longrightarrow> digit_byte k = 0x30 \<longleftrightarrow> k = 0"
  by (drule less_16_cases) (auto simp: digit_byte_def)

lemma hexadecimal_row:
  "0 < n \<Longrightarrow> n < 16 ^ k \<Longrightarrow> dropWhile (\<lambda>c. c = 0x30) (hex_row k n) = bytes (numeral_text 16 n)"
proof (induction k arbitrary: n)
  case (Suc k)
  show ?case
  proof (cases "n < 16")
    case True
    then show ?thesis using Suc.prems(1)
      by (subst numeral_text.simps) (simp add: hex_row_Suc hex_row_zero dropWhile_append digit_byte_zero digit_char)
  next
    case False
    have "n div 16 < 16 ^ k" using Suc.prems(2) by (simp add: less_mult_imp_div_less mult.commute)
    then have IH: "dropWhile (\<lambda>c. c = 0x30) (hex_row k (n div 16)) = bytes (numeral_text 16 (n div 16))"
      using Suc.IH [of "n div 16"] False by simp
    moreover have "bytes (numeral_text 16 m) \<noteq> []" for m
      by (subst numeral_text.simps) simp
    ultimately have "dropWhile (\<lambda>c. c = 0x30) (hex_row k (n div 16)) \<noteq> []" by simp
    then have "\<exists>c \<in> set (hex_row k (n div 16)). c \<noteq> 0x30" unfolding dropWhile_eq_Nil_conv by blast
    then have "dropWhile (\<lambda>c. c = 0x30) (hex_row (Suc k) n) =
        dropWhile (\<lambda>c. c = 0x30) (hex_row k (n div 16)) @ [digit_byte (n mod 16)]"
      unfolding hex_row_Suc by (rule bexE) (rule dropWhile_append1)
    moreover have "numeral_text 16 n = numeral_text 16 (n div 16) @ [digit_text (n mod 16)]"
      using False by (subst numeral_text.simps) simp
    ultimately show ?thesis using IH by (simp add: digit_char)
  qed
qed simp

lemma hex_digit_byte: "unat d < 16 \<Longrightarrow> hex_digit d = digit_byte (unat d)"
proof -
  have "d \<le> 9 \<longleftrightarrow> unat d < 10" unfolding word_le_nat_alt by auto
  then show ?thesis by (simp add: hex_digit_def digit_byte_def add.commute)
qed

lemma byte_hex_row: "byte_hex a i = [digit_byte (unat a div 16 ^ Suc (2 * i) mod 16), digit_byte (unat a div 16 ^ (2 * i) mod 16)]"
proof -
  define p :: u8 where "p = ucast (drop_bit (8 * i) a)"
  have p: "unat p = unat a div 16 ^ (2 * i) mod 256" using unat_byte [of i a] by (simp add: p_def power_mult)
  have "unat (drop_bit 4 p) = unat p div 16"
    by (simp add: unat_drop_bit_eq drop_bit_eq_div [of 4 "unat p"])
  also have "\<dots> = unat a div 16 ^ Suc (2 * i) mod 16"
    using mod_mult2_eq [of "unat a div 16 ^ (2 * i)" 16 16] div_mult2_eq [of "unat a" "16 ^ (2 * i)" 16]
    by (simp add: p mult.commute)
  finally have hi: "unat (drop_bit 4 p) = unat a div 16 ^ Suc (2 * i) mod 16" .
  have "p AND 0x0f = take_bit 4 p" by (simp add: take_bit_eq_mask mask_eq_exp_minus_1)
  then have "unat (p AND 0x0f) = unat p mod 16"
    by (simp add: unsigned_take_bit_eq take_bit_eq_mod [of 4 "unat p"])
  then have lo: "unat (p AND 0x0f) = unat a div 16 ^ (2 * i) mod 16" by (simp add: p mod_mod_cancel)
  show ?thesis
    unfolding byte_hex_def Let_def p_def [symmetric] by (simp add: hex_digit_byte hi lo del: power_Suc)
qed

lemma hex_table_row: "hex_table a = hex_row 16 (unat a)"
proof -
  have "concat (map (byte_hex a) (rev [0..<k])) = hex_row (2 * k) (unat a)" for k
    by (induction k) (simp_all add: byte_hex_row hex_row_def)
  from this [of 8] show ?thesis by (simp add: hex_table_def byte_hex_def [abs_def])
qed

lemma hex_str_numeral: "hex_str a = bytes (numeral_text 16 (unat a))"
proof (cases "a = 0")
  case True
  then show ?thesis by (subst numeral_text.simps) (simp add: hex_str_def digit_char digit_byte_def)
next
  case False
  then have "0 < unat a" by (simp add: unat_gt_0)
  moreover have "unat a < 16 ^ 16" using unat_u64_less [of a] by simp
  ultimately show ?thesis using False hexadecimal_row [of "unat a" 16] by (simp add: hex_str_def hex_table_row)
qed

lemma char_byte: "of_nat (of_char (char_of (unat a mod 256) :: char)) = (ucast (a :: u64) :: u8)"
proof -
  have "unat (ucast a :: u8) = unat a mod 256" by (simp add: unsigned_ucast_eq take_bit_eq_mod)
  moreover have "of_char (char_of (unat a mod 256) :: char) = unat a mod 256" by simp
  ultimately have "of_char (char_of (unat a mod 256) :: char) = unat (ucast a :: u8)" by simp
  then show ?thesis by (simp only: of_nat_unat ucast_id)
qed

text \<open>The bytes of the four letters and of the percent sign.\<close>

lemma conversion_char:
  "conversion (of_nat (of_char c)) (bytes (k # fs)) =
     (if c = CHR ''%'' \<and> k = CHR ''d'' then 0x64 else if c = CHR ''%'' \<and> k = CHR ''x'' then 0x78
      else if c = CHR ''%'' \<and> k = CHR ''s'' then 0x73 else if c = CHR ''%'' \<and> k = CHR ''c'' then 0x63 else 0)"
proof -
  have eq: "of_nat (of_char x) = (of_nat (of_char y) :: u8) \<longleftrightarrow> x = y" for x y :: char
    using bytes_inj [of "[x]" "[y]"] by simp
  have "(of_nat (of_char c) :: u8) = 0x25 \<longleftrightarrow> c = CHR ''%''" "(of_nat (of_char k) :: u8) = 0x64 \<longleftrightarrow> k = CHR ''d''"
    "(of_nat (of_char k) :: u8) = 0x78 \<longleftrightarrow> k = CHR ''x''" "(of_nat (of_char k) :: u8) = 0x73 \<longleftrightarrow> k = CHR ''s''"
    "(of_nat (of_char k) :: u8) = 0x63 \<longleftrightarrow> k = CHR ''c''"
    using eq [of c "CHR ''%''"] eq [of k "CHR ''d''"] eq [of k "CHR ''x''"] eq [of k "CHR ''s''"] eq [of k "CHR ''c''"]
    by simp_all
  then show ?thesis by (auto simp: conversion_def)
qed

lemma arg_str_directive:
  "arg_str lb 0x64 a = map_option bytes (directive_text lb Decimal a)"
  "arg_str lb 0x78 a = map_option bytes (directive_text lb Hexadecimal a)"
  "arg_str lb 0x73 a = map_option bytes (directive_text lb Str_arg a)"
  "arg_str lb 0x63 a = map_option bytes (directive_text lb Char_arg a)"
proof -
  show "arg_str lb 0x64 a = map_option bytes (directive_text lb Decimal a)"
    by (cases a) (simp_all add: dec_str_signed signed_eq_0_iff)
  show "arg_str lb 0x78 a = map_option bytes (directive_text lb Hexadecimal a)"
    by (cases a) (simp_all add: hex_str_numeral)
  show "arg_str lb 0x73 a = map_option bytes (directive_text lb Str_arg a)"
    by (cases a) simp_all
  have "bytes [char_of (unat b mod 256)] = [ucast b]" for b :: u64
    unfolding bytes_simps char_byte ..
  then show "arg_str lb 0x63 a = map_option bytes (directive_text lb Char_arg a)"
    by (cases a) (simp_all only: arg_str.simps directive_text.simps option.map, simp_all)
qed

lemma render_argument:
  assumes "conversion f fs = d" "d \<noteq> 0" "\<And>a. arg_str lb d a = map_option bytes (directive_text lb x a)"
    and "\<And>rest. render lb (tl fs) rest = map_option bytes (formatted lb ds rest)" "\<And>c. x \<noteq> Literal c"
  shows "render lb (f # fs) args = map_option bytes (formatted lb (x # ds) args)"
proof (cases args)
  case Nil
  have "formatted lb (x # ds) [] = None" using assms(5) by (cases x) auto
  then show ?thesis using Nil assms(1,2) by simp
next
  case (Cons a rest)
  have "formatted lb (x # ds) (a # rest) =
      (case directive_text lb x a of None \<Rightarrow> None | Some t \<Rightarrow> map_option ((@) t) (formatted lb ds rest))"
    using assms(5) by (cases x) auto
  then show ?thesis
    unfolding Cons render.simps(2) assms(1) using assms(2)
    by (simp add: assms(3,4) option.map_comp comp_def split: option.split)
qed

lemma render_formatted:
  "render lb (bytes format) args = map_option bytes (formatted lb (directives format) args)"
proof (induction format arbitrary: args rule: directives.induct)
  case (2 c)
  then show ?case by (simp add: conversion_def)
next
  case (3 c k fs)
  have tail: "tl (bytes (k # fs)) = bytes fs" by simp
  note conv = conversion_char [of c k fs] render_argument [where f = "of_nat (of_char c)" and fs = "bytes (k # fs)", unfolded tail]
  consider (d) "c = CHR ''%''" "k = CHR ''d''" | (x) "c = CHR ''%''" "k = CHR ''x''"
    | (s) "c = CHR ''%''" "k = CHR ''s''" | (ch) "c = CHR ''%''" "k = CHR ''c''"
    | (lit) "c \<noteq> CHR ''%'' \<or> k \<notin> {CHR ''d'', CHR ''x'', CHR ''s'', CHR ''c''}" by auto
  then show ?case
  proof cases
    case lit
    then have "conversion (of_nat (of_char c)) (bytes (k # fs)) = 0" using conv(1) by auto
    moreover have "directives (c # k # fs) = Literal c # directives (k # fs)" using lit by auto
    moreover have "render lb (bytes (k # fs)) args = map_option bytes (formatted lb (directives (k # fs)) args)"
      using 3 lit by auto
    ultimately show ?thesis
      by (simp only: bytes_simps(2) [of c] render.simps(2)) (simp add: option.map_comp comp_def)
  next
    case d
    have "render lb (bytes (c # k # fs)) args = map_option bytes (formatted lb (Decimal # directives fs) args)"
      unfolding bytes_simps(2) [of c]
      by (rule conv(2) [OF _ _ arg_str_directive(1) "3.IH"(1)]) (simp only: conv(1), simp_all add: d)
    then show ?thesis by (simp add: d)
  next
    case x
    have "render lb (bytes (c # k # fs)) args = map_option bytes (formatted lb (Hexadecimal # directives fs) args)"
      unfolding bytes_simps(2) [of c]
      by (rule conv(2) [OF _ _ arg_str_directive(2) "3.IH"(2)]) (simp only: conv(1), simp_all add: x)
    then show ?thesis by (simp add: x)
  next
    case s
    have "render lb (bytes (c # k # fs)) args = map_option bytes (formatted lb (Str_arg # directives fs) args)"
      unfolding bytes_simps(2) [of c]
      by (rule conv(2) [OF _ _ arg_str_directive(3) "3.IH"(3)]) (simp only: conv(1), simp_all add: s)
    then show ?thesis by (simp add: s)
  next
    case ch
    have "render lb (bytes (c # k # fs)) args = map_option bytes (formatted lb (Char_arg # directives fs) args)"
      unfolding bytes_simps(2) [of c]
      by (rule conv(2) [OF _ _ arg_str_directive(4) "3.IH"(4)]) (simp only: conv(1), simp_all add: ch)
    then show ?thesis by (simp add: ch)
  qed
qed simp

declare bytes_simps [simp del]

subsection \<open>Lemmas: printing\<close>

lemma printf_ok:
  assumes ok: "screen_ok s" and t: "render (lock_bt s) (bytes format) args = Some t"
    and clean: "0x08 \<notin> set t" "0 \<notin> set t" and short: "length t < 128"
  shows "\<exists>s'. caos_printf format args s = Done s' \<and> screen_ok s'"
proof -
  define b where "b = t @ 0 # drop (Suc (length t)) (sz s)"
  have len: "length (sz s) = 128" using ok by (simp add: screen_ok_def)
  have run: "caos_vsprintf (lock_bt s) (bytes format) args (0, sz s) = Done (length t, b)"
    using vsprintf_render [of 0 "sz s" "lock_bt s" "bytes format" args] t short len by (simp add: b_def)
  have "screen_ok (s\<lparr>sz := b\<rparr>)" using ok short by (simp add: screen_ok_def b_def)
  from print_loop_ok [OF this clean, of "drop (Suc (length t)) (sz s)"]
  show ?thesis using run by (auto simp: caos_printf_def b_def)
qed

lemma render_text: "0x25 \<notin> set t \<Longrightarrow> render lb (t @ fs) args = map_option ((@) t) (render lb fs args)"
proof (induction t)
  case Nil
  then show ?case by (simp add: option.map_ident)
next
  case (Cons c t)
  have "conversion c xs = 0" for xs using Cons.prems by (simp add: conversion_def split: list.split)
  then show ?case using Cons by (simp add: option.map_comp comp_def)
qed

lemma hex_digit_range: "unat (hex_digit d) \<ge> 0x30" if "unat d < 16"
proof -
  have "unat (d + 0x30 :: u8) = unat d + 0x30" "unat (d + 0x37 :: u8) = unat d + 0x37"
    using that by (simp_all add: unat_word_ariths)
  then show ?thesis by (simp add: hex_digit_def)
qed

lemma nibble_less: "unat (drop_bit 4 p) < 16" "unat (p AND 0x0f) < 16" for p :: u8
proof -
  have "unat (drop_bit 4 p) = unat p div 16"
    by (simp add: unat_drop_bit_eq drop_bit_eq_div [of 4 "unat p"])
  then show "unat (drop_bit 4 p) < 16" using unsigned_less [of p, where ?'a = nat] by simp
  have "p AND 0x0f = take_bit 4 p" by (simp add: take_bit_eq_mask mask_eq_exp_minus_1)
  then show "unat (p AND 0x0f) < 16" by (simp add: unsigned_take_bit_eq take_bit_eq_mod [of 4 "unat p"])
qed

lemma hex_str_range: "c \<in> set (hex_str a) \<Longrightarrow> 0x30 \<le> unat c"
proof -
  assume c: "c \<in> set (hex_str a)"
  have "0x30 \<le> unat c" if "c \<in> set (hex_table a)"
  proof -
    from that obtain i where "i < 8" "c = hex_digit (drop_bit 4 (ucast (drop_bit (8 * i) a) :: u8)) \<or>
        c = hex_digit ((ucast (drop_bit (8 * i) a) :: u8) AND 0x0f)"
      by (auto simp: hex_table_def Let_def)
    then show ?thesis using hex_digit_range nibble_less by blast
  qed
  then show ?thesis using c by (auto simp: hex_str_def split: if_splits dest: set_dropWhileD)
qed

lemma dec_str_range: "c \<in> set (dec_str a) \<Longrightarrow> 0x2d \<le> unat c"
  using dec_digits_small unat_digit by (fastforce simp: dec_str_def split: if_splits)

lemma clean_range:
  assumes "\<And>c. c \<in> set t \<Longrightarrow> 0x2d \<le> unat (c :: u8)"
  shows "0x08 \<notin> set t" "0 \<notin> set t" "0x25 \<notin> set t"
  using assms [of "0x08"] assms [of 0] assms [of "0x25"] by auto

lemma hex_str_clean: "0x08 \<notin> set (hex_str a)" "0 \<notin> set (hex_str a)" "0x25 \<notin> set (hex_str a)"
  by (rule clean_range, drule hex_str_range, simp)+

lemma dec_str_clean: "0x08 \<notin> set (dec_str a)" "0 \<notin> set (dec_str a)" "0x25 \<notin> set (dec_str a)"
  by (rule clean_range, drule dec_str_range, simp)+

subsection \<open>Lemmas: the processor stays the same\<close>

named_theorems lock_bt_kept \<open>operations that leave the kind of processor alone\<close>

lemma set_screen_lock_bt [lock_bt_kept]: "set_screen p c s = Done s' \<Longrightarrow> lock_bt s' = lock_bt s"
  by (auto simp: set_screen_def)

lemma scroll_lock_bt [lock_bt_kept]: "scroll_screen n s = Done s' \<Longrightarrow> lock_bt s' = lock_bt s"
  by (auto simp: scroll_screen_def Let_def split: if_splits)

lemma set_cursor_lock_bt [lock_bt_kept]: "set_cursor n s = Done s' \<Longrightarrow> lock_bt s' = lock_bt s"
  by (auto simp: set_cursor_def Let_def outb_def split: if_splits dest!: scroll_lock_bt)

lemma clear_screen_lock_bt [lock_bt_kept]: "clear_screen s = Done s' \<Longrightarrow> lock_bt s' = lock_bt s"
  by (auto simp: clear_screen_def)

lemma init_screen_lock_bt [lock_bt_kept]: "init_screen s = Done s' \<Longrightarrow> lock_bt s' = lock_bt s"
  by (auto simp: init_screen_def dest!: set_cursor_lock_bt clear_screen_lock_bt)

lemma putchar_lock_bt [lock_bt_kept]: "caos_putchar c s = Done s' \<Longrightarrow> lock_bt s' = lock_bt s"
  by (auto simp: caos_putchar_def Let_def dest!: set_cursor_lock_bt)

lemma delchar_lock_bt [lock_bt_kept]: "caos_delchar n s = Done s' \<Longrightarrow> lock_bt s' = lock_bt s"
  by (induction n arbitrary: s) (fastforce dest: set_cursor_lock_bt)+

lemma print_loop_lock_bt [lock_bt_kept]: "print_loop b s = Done s' \<Longrightarrow> lock_bt s' = lock_bt s"
  by (induction b arbitrary: s)
    (fastforce split: if_splits dest: set_cursor_lock_bt delchar_lock_bt putchar_lock_bt)+

lemma printf_lock_bt [lock_bt_kept]: "caos_printf f args s = Done s' \<Longrightarrow> lock_bt s' = lock_bt s"
  by (auto simp: caos_printf_def dest!: print_loop_lock_bt)

text \<open>A console on which every text of the kernel can be printed, and one that refuses a decimal.\<close>

definition console_up :: "console \<Rightarrow> bool" where
  "console_up s \<longleftrightarrow> screen_ok s \<and> lock_bt s"

lemma printf_up:
  assumes "console_up s" "render True (bytes format) args = Some t" "0x08 \<notin> set t" "0 \<notin> set t" "length t < 128"
  shows "\<exists>s'. caos_printf format args s = Done s' \<and> console_up s'"
  using printf_ok [of s format args t] assms printf_lock_bt by (auto simp: console_up_def)

lemma printf_trap:
  assumes "render (lock_bt s) (bytes format) args = None"
  shows "caos_printf format args s = Fault"
  using vsprintf_render [of 0 "sz s" "lock_bt s" "bytes format" args] assms by (simp add: caos_printf_def)

lemma bytes_length: "length (bytes t) = length t"
  by (simp add: bytes_def)

lemma bytes_clean: "0x08 \<in> set (bytes t) \<longleftrightarrow> CHR 0x08 \<in> set t" "0 \<in> set (bytes t) \<longleftrightarrow> CHR 0x00 \<in> set t"
proof -
  have eq: "of_nat (of_char x) = (of_nat (of_char y) :: u8) \<longleftrightarrow> x = y" for x y :: char
    using bytes_inj [of "[x]" "[y]"] by (simp add: bytes_simps)
  have "of_nat (of_char x) = (0x08 :: u8) \<longleftrightarrow> x = CHR 0x08" "of_nat (of_char x) = (0 :: u8) \<longleftrightarrow> x = CHR 0x00" for x :: char
    using eq [of x "CHR 0x08"] eq [of x "CHR 0x00"] by simp_all
  then show "0x08 \<in> set (bytes t) \<longleftrightarrow> CHR 0x08 \<in> set t" "0 \<in> set (bytes t) \<longleftrightarrow> CHR 0x00 \<in> set t"
    by (auto simp: bytes_def image_iff)
qed

subsection \<open>Properties\<close>

text \<open>
  C26 (\<^verbatim>\<open>print_hex\<close> and \<^verbatim>\<open>print_decimal\<close>). The text printed for a 64-bit value reads back as
  that value: unsigned in base sixteen, and signed in base ten, except for the smallest signed
  number. Neither needs more than 21 bytes of the buffer. The sign of a number other than zero is
  tested with a locked \<^verbatim>\<open>bt\<close>: on a processor that refuses it, printing such a number in base ten
  traps.
\<close>

theorem printed_numbers_read_back:
  assumes "a \<noteq> 0x8000000000000000" and "21 \<le> length b"
  shows "(if a = 0 \<or> lb
     then \<exists>t b'. print_decimal lb a (0, b) = Done (length t, b') \<and> take (length t) b' = t \<and> read_decimal t = sint a
     else print_decimal lb a (0, b) = Fault) \<and>
    (\<exists>t b'. print_hex c (0, b) = Done (length t, b') \<and> take (length t) b' = t \<and> read_hex t = unat c)"
proof
  have "emits t (0, b) = Done (length t, t @ drop (length t) b)" if "length t \<le> 21" for t
    using emits_spec [of 0 b t] that assms(2) by simp
  note out = this [OF dec_str_length] this [OF order_trans [OF hex_str_length]]
  have "read_decimal (dec_str a) = sint a"
  proof (cases "a = 0 \<or> bit a 63")
    case True
    then show ?thesis
      using sint_neg [OF _ assms(1)] by (auto simp: dec_str_def read_decimal_def dec_value_digits dec_value_def [of "[0x30]"])
  next
    case False
    define cs where "cs = map (\<lambda>d. d + 0x30) (rev (dec_digits (unat a)))"
    have "dec_str a = cs" using False by (simp add: dec_str_def cs_def)
    moreover have "read_decimal cs = int (dec_value cs)"
    proof (cases cs)
      case (Cons c ds)
      then show ?thesis using dec_no_minus [OF cs_def Cons] by (simp add: read_decimal_def)
    qed (simp add: read_decimal_def dec_value_def)
    ultimately have "read_decimal (dec_str a) = int (dec_value (dec_str a))" by simp
    also have "\<dots> = int (unat a)" using False by (simp add: dec_str_def dec_value_digits)
    finally show ?thesis using False sint_of_low [of a] by simp
  qed
  then have "\<exists>t b'. print_decimal lb a (0, b) = Done (length t, b') \<and> take (length t) b' = t \<and> read_decimal t = sint a"
    if "a = 0 \<or> lb" using out(1) that by (simp add: print_decimal_emits) (rule exI [of _ "dec_str a"], simp)
  then show "if a = 0 \<or> lb
     then \<exists>t b'. print_decimal lb a (0, b) = Done (length t, b') \<and> take (length t) b' = t \<and> read_decimal t = sint a
     else print_decimal lb a (0, b) = Fault" by (simp add: print_decimal_emits)
  have "read_hex (hex_str c) = unat c"
    by (auto simp: hex_str_def read_hex_zeros read_hex_table) (simp add: read_hex_def hex_val_def)
  then show "\<exists>t b'. print_hex c (0, b) = Done (length t, b') \<and> take (length t) b' = t \<and> read_hex t = unat c"
    using out(2) [of c] by (simp add: print_hex_emits) (rule exI [of _ "hex_str c"], simp)
qed

theorem printed_numbers_read_back_witness:
  "(\<exists>t b'. print_decimal True (- 42) (0, replicate 128 0) = Done (length t, b') \<and> take (length t) b' = t \<and>
      read_decimal t = sint (- 42 :: u64)) \<and> print_decimal False (- 42) (0, replicate 128 0) = Fault"
proof -
  have a: "(- 42 :: u64) \<noteq> 0x8000000000000000" "21 \<le> length (replicate 128 (0 :: u8))" by simp_all
  have n: "(- 42 :: u64) \<noteq> 0" by simp
  show ?thesis using printed_numbers_read_back [OF a, of True] printed_numbers_read_back [OF a, of False] n by auto
qed

text \<open>
  Supplement (\<^verbatim>\<open>print_decimal\<close>, smallest number). The negation of \<^verbatim>\<open>LONG_MIN\<close> is \<^verbatim>\<open>LONG_MIN\<close> again,
  the digit loop does not run, and only the minus sign is printed.
\<close>

theorem print_decimal_long_min:
  "print_decimal True 0x8000000000000000 (0, replicate 128 0) = Done (1, 0x2d # replicate 127 0)"
proof -
  have "dec_str 0x8000000000000000 = [0x2d]" by code_simp
  then show ?thesis by (simp add: print_decimal_emits emit_spec)
qed

text \<open>
  C25 (\<^verbatim>\<open>caos_vsprintf\<close>, reference semantics and bounds). For every format, every list of arguments
  and every buffer: where the format and its arguments stand for a text, exactly this text is
  written, followed by a zero, if it is shorter than the buffer, and a text of the buffer's size or
  more is written past its end. There is no text, and the conversion goes wrong, when an argument
  is missing or of the wrong kind, and when a decimal other than zero is printed on a processor
  that refuses \<^verbatim>\<open>bt\<close> with a lock prefix. The text is the one of the independent contract above.
\<close>

theorem vsprintf_bounds:
  "caos_sprintf lb format args b =
    (case formatted lb (directives format) args of
       None \<Rightarrow> Fault
     | Some t \<Rightarrow> if length t < length b then Done (bytes t @ 0 # drop (Suc (length t)) b) else Fault)"
  using vsprintf_render [of 0 b lb "bytes format" args]
  by (simp add: caos_sprintf_def render_formatted bytes_length split: option.split)

text \<open>
  Supplement (\<^verbatim>\<open>caos_vsprintf\<close>, examples). A format with every conversion, and the refused decimal.
\<close>

theorem vsprintf_examples:
  "formatted True (directives ''%d:%x %s%c%%d'') [ArgInt 0xFFFFFFFFFFFFFF97, ArgInt 0x2fb, ArgStr ''ok'', ArgInt 0x21, ArgInt 0] =
     Some ''-105:2FB ok!%0''"
  "formatted False (directives ''%d'') [ArgInt 1] = None" "formatted False (directives ''%d'') [ArgInt 0] = Some ''0''"
  subgoal by code_simp
  subgoal by code_simp
  subgoal by code_simp
  done

text \<open>
  C27 (\<^verbatim>\<open>caos_printf\<close>, safety). As long as the text is shorter than the static buffer of 128
  bytes and has no backspace or zero in it, printing returns with the cursor on the screen
  and writes no cell outside it, whatever scrolling the text causes; with 128 bytes or more
  it overruns the buffer. Where the format stands for no text, which includes a decimal other
  than zero on a processor that refuses \<^verbatim>\<open>bt\<close> with a lock prefix, it does not return.
\<close>

theorem printf_stays_on_screen:
  assumes ok: "screen_ok s"
    and clean: "\<And>t. formatted (lock_bt s) (directives format) args = Some t \<Longrightarrow> CHR 0x08 \<notin> set t \<and> CHR 0x00 \<notin> set t"
  shows "case formatted (lock_bt s) (directives format) args of
      None \<Rightarrow> caos_printf format args s = Fault
    | Some t \<Rightarrow> if length t < 128 then \<exists>s'. caos_printf format args s = Done s' \<and> screen_ok s'
        else caos_printf format args s = Fault"
proof (cases "formatted (lock_bt s) (directives format) args")
  case None
  then show ?thesis by (simp add: printf_trap render_formatted)
next
  case (Some t)
  have r: "render (lock_bt s) (bytes format) args = Some (bytes t)" using Some by (simp add: render_formatted)
  have "length (sz s) = 128" using ok by (simp add: screen_ok_def)
  then have "caos_printf format args s = Fault" if "\<not> length t < 128"
    using that vsprintf_render [of 0 "sz s" "lock_bt s" "bytes format" args] r
    by (simp add: caos_printf_def bytes_length)
  then show ?thesis
    using printf_ok [OF ok r] clean [OF Some] Some by (auto simp: bytes_length bytes_clean)
qed

definition blank_console :: console where
  "blank_console = \<lparr>cursor_offset = 1999, video_mem = replicate 2000 BG_BLACK, ports = [],
     sz = replicate 128 0, lock_bt = True\<rparr>"

lemma blank_console_ok: "screen_ok blank_console" "lock_bt blank_console"
  by (simp_all add: screen_ok_def blank_console_def)

theorem printf_stays_on_screen_witness:
  "(\<exists>s'. caos_printf ''bootmem %d MB, page %x~%x\<newline>'' [ArgInt 8, ArgInt 0x200, ArgInt 0x7ff] blank_console = Done s' \<and>
      screen_ok s') \<and>
   caos_printf ''bootmem %d MB, page %x~%x\<newline>'' [ArgInt 8, ArgInt 0x200, ArgInt 0x7ff] (blank_console\<lparr>lock_bt := False\<rparr>) = Fault"
proof -
  define f a u where "f = ''bootmem %d MB, page %x~%x\<newline>''" and "a = [ArgInt 8, ArgInt 0x200, ArgInt 0x7ff]"
    and "u = ''bootmem 8 MB, page 200~7FF\<newline>''"
  have t: "formatted True (directives f) a = Some u" "formatted False (directives f) a = None"
    unfolding f_def a_def u_def by code_simp+
  have c: "CHR 0x08 \<notin> set u \<and> CHR 0x00 \<notin> set u" "length u < 128" unfolding u_def by code_simp+
  have "\<exists>s'. caos_printf f a blank_console = Done s' \<and> screen_ok s'"
    using printf_stays_on_screen [of blank_console f a] t(1) c by (simp add: blank_console_ok)
  moreover have "screen_ok (blank_console\<lparr>lock_bt := False\<rparr>)"
    by (simp add: screen_ok_def blank_console_def)
  then have "caos_printf f a (blank_console\<lparr>lock_bt := False\<rparr>) = Fault"
    using printf_stays_on_screen [of "blank_console\<lparr>lock_bt := False\<rparr>" f a] t(2) by simp
  ultimately show ?thesis by (simp only: f_def a_def)
qed

text \<open>
  Supplement (\<^verbatim>\<open>caos_delchar\<close>, top left corner). Deleting with the cursor at the first cell wraps the
  offset below zero: the store goes outside of the video memory. Everywhere else it is safe.
\<close>

theorem delchar_corner:
  assumes "screen_ok s"
  shows "if cursor_offset s = 0 then caos_delchar 1 s = Fault
    else \<exists>s'. caos_delchar 1 s = Done s' \<and> screen_ok s'"
proof (cases "cursor_offset s = 0")
  case True
  have len: "length (video_mem s) = 2000" using assms by (simp add: screen_ok_def)
  then have "scroll_screen 1 (s\<lparr>cursor_offset := - 1\<rparr>) =
      Done (s\<lparr>cursor_offset := - 1, video_mem := scrolled (video_mem s)\<rparr>)"
    using scroll_one [of "s\<lparr>cursor_offset := - 1\<rparr>"] by simp
  then show ?thesis using True len
    by (simp add: set_cursor_def Let_def kconst outb_def outcome_simps)
next
  case False
  then show ?thesis using delchar_ok [OF assms False] by auto
qed

theorem delchar_corner_witness: "caos_delchar 1 (blank_console\<lparr>cursor_offset := 0\<rparr>) = Fault"
  using delchar_corner [of "blank_console\<lparr>cursor_offset := 0\<rparr>"] by (simp add: screen_ok_def blank_console_def)

end
