(* ===== verification/Processor.thy ===== *)
theory Processor
  imports Caos_Prelude
begin

text \<open>
  The processor as \<^verbatim>\<open>include/processor.h\<close> uses it: the control registers, the interrupt flag,
  the translations the processor may have cached and the write-backs of its data cache.
  The effect of \<^verbatim>\<open>mov\<close> to \<^verbatim>\<open>CR3\<close> and \<^verbatim>\<open>CR4\<close> on the cached translations is the documented one:
  loading \<^verbatim>\<open>CR3\<close> drops every translation that is not global, or every one while \<^verbatim>\<open>CR4.PGE\<close> is
  clear; a change of \<^verbatim>\<open>CR4.PGE\<close> drops all of them.
\<close>

definition NR_CPUS :: nat where [kconst]: "NR_CPUS = 2"

definition X86_CR3_PWT :: u64 where [kconst]: "X86_CR3_PWT = 0x00000008"
definition X86_CR3_PCD :: u64 where [kconst]: "X86_CR3_PCD = 0x00000010"
definition X86_CR4_PGE :: u64 where [kconst]: "X86_CR4_PGE = 0x00000080"

text \<open>A cached translation: the linear page, the frame, and whether it is marked global.\<close>

type_synonym tlb_entry = "u64 \<times> u64 \<times> bool"

record cpu =
  cr0 :: u64
  cr2 :: u64
  cr3 :: u64
  cr4 :: u64
  cr8 :: u64
  intr_flag :: bool
  tlb :: "tlb_entry list"
  cache_flushes :: nat

definition read_cr0 :: "cpu \<Rightarrow> u64" where "read_cr0 c = cr0 c"
definition read_cr2 :: "cpu \<Rightarrow> u64" where "read_cr2 c = cr2 c"
definition read_cr3 :: "cpu \<Rightarrow> u64" where "read_cr3 c = cr3 c"
definition read_cr4 :: "cpu \<Rightarrow> u64" where "read_cr4 c = cr4 c"
definition read_cr8 :: "cpu \<Rightarrow> u64" where "read_cr8 c = cr8 c"

definition write_cr0 :: "u64 \<Rightarrow> cpu \<Rightarrow> cpu" where "write_cr0 v c = c\<lparr>cr0 := v\<rparr>"
definition write_cr2 :: "u64 \<Rightarrow> cpu \<Rightarrow> cpu" where "write_cr2 v c = c\<lparr>cr2 := v\<rparr>"
definition write_cr8 :: "u64 \<Rightarrow> cpu \<Rightarrow> cpu" where "write_cr8 v c = c\<lparr>cr8 := v\<rparr>"

definition write_cr3 :: "u64 \<Rightarrow> cpu \<Rightarrow> cpu" where
  "write_cr3 v c =
     c\<lparr>cr3 := v,
       tlb := filter (\<lambda>(_, _, global). global \<and> cr4 c AND X86_CR4_PGE \<noteq> 0) (tlb c)\<rparr>"

definition write_cr4 :: "u64 \<Rightarrow> cpu \<Rightarrow> cpu" where
  "write_cr4 v c =
     c\<lparr>cr4 := v,
       tlb := (if v AND X86_CR4_PGE = cr4 c AND X86_CR4_PGE then tlb c else [])\<rparr>"

definition flush_tlb :: "cpu \<Rightarrow> cpu" where
  "flush_tlb c = write_cr3 (read_cr3 c) c"

definition flush_tlb_all :: "cpu \<Rightarrow> cpu" where
  "flush_tlb_all c =
     (let v = read_cr4 c in write_cr4 v (write_cr4 (v AND NOT X86_CR4_PGE) c))"

definition flush_cache :: "cpu \<Rightarrow> cpu" where
  "flush_cache c = c\<lparr>cache_flushes := Suc (cache_flushes c)\<rparr>"

definition cli :: "cpu \<Rightarrow> cpu" where "cli c = c\<lparr>intr_flag := False\<rparr>"
definition sti :: "cpu \<Rightarrow> cpu" where "sti c = c\<lparr>intr_flag := True\<rparr>"

text \<open>\<^verbatim>\<open>halt()\<close> is an empty endless loop.\<close>

definition halt :: "'a outcome" where "halt = Halt"

lemmas cpu_defs = read_cr0_def read_cr2_def read_cr3_def read_cr4_def read_cr8_def
  write_cr0_def write_cr2_def write_cr3_def write_cr4_def write_cr8_def
  flush_tlb_def flush_tlb_all_def flush_cache_def cli_def sti_def

text \<open>
  Loading \<^verbatim>\<open>CR3\<close> and then toggling \<^verbatim>\<open>CR4.PGE\<close> leaves no cached translation, whether or not
  global pages are enabled, and restores \<^verbatim>\<open>CR4\<close>.
\<close>

lemma load_cr3_flush_all:
  "flush_tlb_all (flush_cache (write_cr3 v c)) =
     c\<lparr>cr3 := v, tlb := [], cache_flushes := Suc (cache_flushes c)\<rparr>"
proof (cases "cr4 c AND X86_CR4_PGE = 0")
  case True
  then show ?thesis by (simp add: cpu_defs Let_def)
next
  case False
  then have "(cr4 c AND NOT X86_CR4_PGE) AND X86_CR4_PGE = 0"
    by (simp add: and.assoc)
  then show ?thesis using False by (simp add: cpu_defs Let_def)
qed

end
