(* ===== verification/Mp_Spec.thy ===== *)
theory Mp_Spec
  imports Kstring Page_Map Processor
begin

text \<open>
  The multiprocessor configuration (\<^verbatim>\<open>mp_spec.c\<close>, \<^verbatim>\<open>include/mp_spec.h\<close>): the search for the
  floating pointer structure the BIOS leaves in low memory, and the parser of the
  configuration table, which records the processors, buses, I/O APICs and interrupt sources.
  The BIOS memory is byte addressed; the globals of the file are a record. \<open>mp_log\<close> is the
  sequence of \<^verbatim>\<open>caos_printf\<close> calls.
\<close>

subsection \<open>Constants and packed structures\<close>

definition virt_to_phys :: "u64 \<Rightarrow> u64" where "virt_to_phys a = pa a"
definition phys_to_virt :: "u64 \<Rightarrow> u64" where "phys_to_virt a = va a"

definition SMP_MAGIC_IDENT :: u32 where [kconst]:
  "SMP_MAGIC_IDENT = push_bit 24 0x5F OR push_bit 16 0x50 OR push_bit 8 0x4D OR 0x5F"
definition MAX_IO_APICS :: nat where [kconst]: "MAX_IO_APICS = 2"
definition MAX_MP_BUSSES :: nat where [kconst]: "MAX_MP_BUSSES = 256"
definition MAX_IRQ_SOURCES :: nat where [kconst]: "MAX_IRQ_SOURCES = MAX_MP_BUSSES * 4"
definition MPC_SIGNATURE :: string where "MPC_SIGNATURE = ''PCMP''"
definition CPU_ENABLED :: u8 where [kconst]: "CPU_ENABLED = 1"
definition CPU_BOOTPROCESSOR :: u8 where [kconst]: "CPU_BOOTPROCESSOR = 2"
definition MPC_APIC_USABLE :: u8 where [kconst]: "MPC_APIC_USABLE = 1"
definition MP_PROCESSOR :: u8 where [kconst]: "MP_PROCESSOR = 0"
definition MP_BUS :: u8 where [kconst]: "MP_BUS = 1"
definition MP_IOAPIC :: u8 where [kconst]: "MP_IOAPIC = 2"
definition MP_INTSRC :: u8 where [kconst]: "MP_INTSRC = 3"
definition MP_LINTSRC :: u8 where [kconst]: "MP_LINTSRC = 4"

text \<open>Little-endian fields of a packed structure.\<close>

definition rd16 :: "bmem \<Rightarrow> u64 \<Rightarrow> u16" where
  "rd16 m a = ucast (m a) OR push_bit 8 (ucast (m (a + 1)))"

definition rd32 :: "bmem \<Rightarrow> u64 \<Rightarrow> u32" where
  "rd32 m a = ucast (rd16 m a) OR push_bit 16 (ucast (rd16 m (a + 2)))"

record intel_mp_floating =
  mpf_signature :: u32
  mpf_physptr :: u32
  mpf_length :: u8
  mpf_specification :: u8
  mpf_checksum :: u8
  mpf_feature :: "u8 list"

definition floating_at :: "bmem \<Rightarrow> u64 \<Rightarrow> intel_mp_floating" where
  "floating_at m a =
     \<lparr>mpf_signature = rd32 m a, mpf_physptr = rd32 m (a + 4), mpf_length = m (a + 8),
      mpf_specification = m (a + 9), mpf_checksum = m (a + 10), mpf_feature = bytes_at m (a + 11) 5\<rparr>"

text \<open>The fields of \<^verbatim>\<open>struct mp_config_table\<close> that the code reads, and its size.\<close>

record mp_config_table =
  mpc_signature :: "u8 list"
  mpc_length :: u16
  mpc_spec :: u8
  mpc_lapic :: u32

definition sizeof_mp_config_table :: nat where [kconst]: "sizeof_mp_config_table = 44"

definition config_table_at :: "bmem \<Rightarrow> u64 \<Rightarrow> mp_config_table" where
  "config_table_at m a =
     \<lparr>mpc_signature = bytes_at m a 4, mpc_length = rd16 m (a + 4), mpc_spec = m (a + 6),
      mpc_lapic = rd32 m (a + 36)\<rparr>"

record mpc_config_processor =
  cpu_apicid :: u8
  cpu_apicver :: u8
  cpu_flag :: u8
  cpu_feature :: u32
  cpu_featureflag :: u32

record mpc_config_bus =
  bus_id :: u8
  bus_type :: "u8 list"

record mpc_config_ioapic =
  ioapic_id :: u8
  ioapic_ver :: u8
  ioapic_flags :: u8
  ioapic_addr :: u32

record mpc_config_intsrc =
  int_irqtype :: u8
  int_irqflag :: u16
  int_srcbus :: u8
  int_srcbusirq :: u8
  int_dstapic :: u8
  int_dstirq :: u8

record mpc_config_lintsrc =
  lint_irqtype :: u8
  lint_irqflag :: u16
  lint_srcbusid :: u8
  lint_srcbusirq :: u8
  lint_destapic :: u8
  lint_destapiclint :: u8

definition processor_at :: "bmem \<Rightarrow> u64 \<Rightarrow> mpc_config_processor" where
  "processor_at m a =
     \<lparr>cpu_apicid = m (a + 1), cpu_apicver = m (a + 2), cpu_flag = m (a + 3),
      cpu_feature = rd32 m (a + 4), cpu_featureflag = rd32 m (a + 8)\<rparr>"

definition bus_at :: "bmem \<Rightarrow> u64 \<Rightarrow> mpc_config_bus" where
  "bus_at m a = \<lparr>bus_id = m (a + 1), bus_type = bytes_at m (a + 2) 6\<rparr>"

definition ioapic_at :: "bmem \<Rightarrow> u64 \<Rightarrow> mpc_config_ioapic" where
  "ioapic_at m a =
     \<lparr>ioapic_id = m (a + 1), ioapic_ver = m (a + 2), ioapic_flags = m (a + 3), ioapic_addr = rd32 m (a + 4)\<rparr>"

definition intsrc_at :: "bmem \<Rightarrow> u64 \<Rightarrow> mpc_config_intsrc" where
  "intsrc_at m a =
     \<lparr>int_irqtype = m (a + 1), int_irqflag = rd16 m (a + 2), int_srcbus = m (a + 4),
      int_srcbusirq = m (a + 5), int_dstapic = m (a + 6), int_dstirq = m (a + 7)\<rparr>"

definition lintsrc_at :: "bmem \<Rightarrow> u64 \<Rightarrow> mpc_config_lintsrc" where
  "lintsrc_at m a =
     \<lparr>lint_irqtype = m (a + 1), lint_irqflag = rd16 m (a + 2), lint_srcbusid = m (a + 4),
      lint_srcbusirq = m (a + 5), lint_destapic = m (a + 6), lint_destapiclint = m (a + 7)\<rparr>"

subsection \<open>The globals\<close>

record mp_state =
  smp_found_config :: bool
  mp_lapic_addr :: u64
  disabled_cpus :: u64
  boot_cpu_id :: u64
  num_processors :: nat
  mp_current_pci_id :: u64
  nr_ioapics :: nat
  mp_irq_entries :: nat
  cpu_present_map :: u64
  mp_bus_not_pci :: "u64 list"
  mpf_found :: u64
  bios_cpu_apicid :: "u8 list"
  x86_cpu_to_apicid :: "u8 list"
  mp_ioapics :: "mpc_config_ioapic list"
  mp_irqs :: "mpc_config_intsrc list"
  mp_bus_id_to_pci_bus :: "u64 list"
  mp_log :: "printk list"

definition mp_say :: "string \<Rightarrow> printf_arg list \<Rightarrow> mp_state \<Rightarrow> mp_state" where
  "mp_say fmt args s = s\<lparr>mp_log := mp_log s @ [(fmt, args)]\<rparr>"

definition byte_arg :: "u8 \<Rightarrow> printf_arg" where
  "byte_arg b = ArgInt (ucast b)"

subsection \<open>The floating pointer structure\<close>

partial_function (option) scan_loop :: "bmem \<Rightarrow> u64 \<Rightarrow> u64 \<Rightarrow> u64 option option" where
  "scan_loop m basep len =
     (if 0 < len then
        (let mpf = floating_at m basep
         in if mpf_signature mpf = SMP_MAGIC_IDENT \<and> mpf_length mpf = 1 \<and>
               (mpf_specification mpf = 1 \<or> mpf_specification mpf = 4)
            then Some (Some basep)
            else scan_loop m (basep + 16) (len - 16))
      else Some None)"

definition smp_scan_config :: "bmem \<Rightarrow> u64 \<Rightarrow> u64 \<Rightarrow> mp_state \<Rightarrow> (bool \<times> mp_state) outcome" where
  "smp_scan_config m base len s =
     (case scan_loop m (phys_to_virt base) len of
        None \<Rightarrow> Halt
      | Some None \<Rightarrow> Done (False, s)
      | Some (Some mpf) \<Rightarrow> Done (True, s\<lparr>smp_found_config := True, mpf_found := mpf\<rparr>))"

subsection \<open>The entries of the configuration table\<close>

definition first_cpu :: "u64 \<Rightarrow> u64" where
  "first_cpu cmap = ffz cmap"

definition cpu_set :: "u64 \<Rightarrow> u64 \<Rightarrow> u64 outcome" where
  "cpu_set cpu_id cmap = obind (set_bit_m cpu_id [cmap]) (\<lambda>w. aget w 0)"

definition MP_processor_info :: "mpc_config_processor \<Rightarrow> mp_state \<Rightarrow> mp_state outcome" where
  "MP_processor_info e s =
     (if cpu_flag e AND CPU_ENABLED = 0 then Done (s\<lparr>disabled_cpus := disabled_cpus s + 1\<rparr>)
      else
        let boot = (cpu_flag e AND CPU_BOOTPROCESSOR \<noteq> 0);
            s1 = (if boot then s\<lparr>boot_cpu_id := ucast (cpu_apicid e)\<rparr> else s);
            s2 = mp_say ''Processor #%d%s is found\<newline>''
                   [byte_arg (cpu_apicid e), ArgStr (if boot then '' (Bootup-CPU)'' else '''')] s1
        in if NR_CPUS \<le> num_processors s2
           then Done (mp_say ''MPCTable: NR_CPUS limit of %d reached..processor ignored\<newline>''
                        [ArgInt (of_nat NR_CPUS)] s2)
           else
             let s3 = s2\<lparr>num_processors := num_processors s2 + 1\<rparr>;
                 cpu = (if boot then 0 else first_cpu (cpu_present_map s3))
             in obind (aput (bios_cpu_apicid s3) (unat cpu) (cpu_apicid e)) (\<lambda>bios.
                obind (aput (x86_cpu_to_apicid s3) (unat cpu) (cpu_apicid e)) (\<lambda>x86.
                obind (cpu_set cpu (cpu_present_map s3)) (\<lambda>cmap.
                  Done (mp_say ''cpu=%d apicid=%d\<newline>'' [ArgInt cpu, byte_arg (cpu_apicid e)]
                    (s3\<lparr>bios_cpu_apicid := bios, x86_cpu_to_apicid := x86, cpu_present_map := cmap\<rparr>))))))"

text \<open>
  The bus name is compared after \<^verbatim>\<open>str[3] = 0\<close>, so only its first three characters count. The
  characters before the terminator are what \<^verbatim>\<open>caos_strcmp\<close> and \<^verbatim>\<open>%s\<close> see of a buffer.
\<close>

definition c_string :: "u8 list \<Rightarrow> u8 list" where
  "c_string buf = takeWhile (\<lambda>c. c \<noteq> 0) buf"

definition MP_bus_info :: "mpc_config_bus \<Rightarrow> mp_state \<Rightarrow> mp_state outcome" where
  "MP_bus_info e s =
     (let str = (bus_type e)[3 := 0]; nr = ucast (bus_id e) :: u64
      in if strcmp_str (c_string str) (bytes ''ISA'') = 0 then
           obind (set_bit_m nr (mp_bus_not_pci s)) (\<lambda>w. Done (s\<lparr>mp_bus_not_pci := w\<rparr>))
         else if strcmp_str (c_string str) (bytes ''PCI'') = 0 then
           obind (clear_bit nr (mp_bus_not_pci s)) (\<lambda>w.
           obind (aput (mp_bus_id_to_pci_bus s) (unat nr) (mp_current_pci_id s)) (\<lambda>b.
             Done (s\<lparr>mp_bus_not_pci := w, mp_bus_id_to_pci_bus := b,
                     mp_current_pci_id := mp_current_pci_id s + 1\<rparr>)))
         else Done (mp_say ''MPCTable: Unknown bustype detected: %s\<newline>''
                [ArgStr (map (\<lambda>c. char_of (unat c)) (c_string str))] s))"

definition MP_ioapic_info :: "mpc_config_ioapic \<Rightarrow> mp_state \<Rightarrow> mp_state outcome" where
  "MP_ioapic_info e s =
     (if ioapic_flags e AND MPC_APIC_USABLE = 0 then Done s
      else
        let s1 = mp_say ''I/O APIC #%d at 0x%x\<newline>'' [byte_arg (ioapic_id e), ArgInt (ucast (ioapic_addr e))] s
        in if MAX_IO_APICS \<le> nr_ioapics s1 \<or> ioapic_addr e = 0
           then Done (mp_say ''I/O APIC error detected..\<newline>'' [] s1)
           else obind (aput (mp_ioapics s1) (nr_ioapics s1) e) (\<lambda>t.
                  Done (s1\<lparr>mp_ioapics := t, nr_ioapics := nr_ioapics s1 + 1\<rparr>)))"

definition MP_intsrc_info :: "mpc_config_intsrc \<Rightarrow> mp_state \<Rightarrow> mp_state outcome" where
  "MP_intsrc_info e s =
     obind (aput (mp_irqs s) (mp_irq_entries s) e) (\<lambda>t.
       let s1 = s\<lparr>mp_irqs := t, mp_irq_entries := mp_irq_entries s + 1\<rparr>
       in if MAX_IRQ_SOURCES \<le> mp_irq_entries s1 then halt else Done s1)"

text \<open>\<^verbatim>\<open>MP_lintsrc_info\<close> only prints, and only in a debug build.\<close>

definition MP_lintsrc_info :: "mpc_config_lintsrc \<Rightarrow> mp_state \<Rightarrow> mp_state outcome" where
  "MP_lintsrc_info e s = Done s"

text \<open>
  One turn of the \<^verbatim>\<open>switch\<close>: the new state and how far \<^verbatim>\<open>mpt\<close> and \<^verbatim>\<open>count\<close> move. There is no
  \<^verbatim>\<open>default\<close>: an entry of an unknown type moves nothing.
\<close>

definition mpc_entry :: "bmem \<Rightarrow> u64 \<Rightarrow> mp_state \<Rightarrow> (nat \<times> mp_state) outcome" where
  "mpc_entry m mpt s =
     (if m mpt = MP_PROCESSOR then obind (MP_processor_info (processor_at m mpt) s) (\<lambda>s. Done (20, s))
      else if m mpt = MP_BUS then obind (MP_bus_info (bus_at m mpt) s) (\<lambda>s. Done (8, s))
      else if m mpt = MP_IOAPIC then obind (MP_ioapic_info (ioapic_at m mpt) s) (\<lambda>s. Done (8, s))
      else if m mpt = MP_INTSRC then obind (MP_intsrc_info (intsrc_at m mpt) s) (\<lambda>s. Done (8, s))
      else if m mpt = MP_LINTSRC then obind (MP_lintsrc_info (lintsrc_at m mpt) s) (\<lambda>s. Done (8, s))
      else Done (0, s))"

text \<open>The table is at most 65535 bytes long, so the signed \<^verbatim>\<open>count\<close> cannot overflow.\<close>

partial_function (option) mpc_loop ::
  "bmem \<Rightarrow> u64 \<Rightarrow> u64 \<Rightarrow> nat \<Rightarrow> mp_state \<Rightarrow> mp_state outcome option" where
  "mpc_loop m mpc mpt count s =
     (if count < unat (mpc_length (config_table_at m mpc))
      then case mpc_entry m mpt s of
             Halt \<Rightarrow> Some Halt
           | Fault \<Rightarrow> Some Fault
           | Done (n, s') \<Rightarrow> mpc_loop m mpc (mpt + of_nat n) (count + n) s'
      else Some (Done s))"

definition smp_read_mpc :: "bmem \<Rightarrow> u64 \<Rightarrow> mp_state \<Rightarrow> (bool \<times> mp_state) outcome" where
  "smp_read_mpc m mpc s =
     (let t = config_table_at m mpc
      in if memcmp_bytes (mpc_signature t) (bytes MPC_SIGNATURE) \<noteq> 0
         then Done (False, mp_say ''MPCTable: Bad signature[%c%c%c%c]\<newline>'' (map byte_arg (mpc_signature t)) s)
         else if mpc_spec t \<noteq> 0x01 \<and> mpc_spec t \<noteq> 0x04
         then Done (False, mp_say ''MPCTable: bad table version (%d)\<newline>'' [ArgInt (scast (mpc_spec t))] s)
         else if mpc_lapic t = 0
         then Done (False, mp_say ''MPCTable: null local APIC address\<newline>'' [] s)
         else obind (spin (mpc_loop m mpc (mpc + of_nat sizeof_mp_config_table) sizeof_mp_config_table
                             (s\<lparr>mp_lapic_addr := ucast (mpc_lapic t)\<rparr>)))
                (\<lambda>s'. Done (True, s')))"

subsection \<open>Set-up\<close>

definition zero_ioapic :: mpc_config_ioapic where
  "zero_ioapic = \<lparr>ioapic_id = 0, ioapic_ver = 0, ioapic_flags = 0, ioapic_addr = 0\<rparr>"

definition zero_intsrc :: mpc_config_intsrc where
  "zero_intsrc = \<lparr>int_irqtype = 0, int_irqflag = 0, int_srcbus = 0, int_srcbusirq = 0,
     int_dstapic = 0, int_dstirq = 0\<rparr>"

definition scan_areas :: "bmem \<Rightarrow> mp_state \<Rightarrow> (bool \<times> mp_state) outcome" where
  "scan_areas m s =
     obind (smp_scan_config m 0 0x400 s) (\<lambda>(found, s1).
       if found then Done (True, s1)
       else obind (smp_scan_config m (639 * 0x400) 0x400 s1) (\<lambda>(found, s2).
         if found then Done (True, s2) else smp_scan_config m 0xf0000 0x10000 s2))"

definition mp_reset :: "mp_state \<Rightarrow> mp_state" where
  "mp_reset s =
     s\<lparr>disabled_cpus := 0, boot_cpu_id := 0, num_processors := 0, cpu_present_map := 0,
       mp_current_pci_id := 0, nr_ioapics := 0, mp_irq_entries := 0,
       mp_ioapics := replicate MAX_IO_APICS zero_ioapic, mp_irqs := replicate MAX_IRQ_SOURCES zero_intsrc\<rparr>"

definition mp_spec_init :: "bmem \<Rightarrow> mp_state \<Rightarrow> mp_state outcome" where
  "mp_spec_init m s =
     obind (scan_areas m s) (\<lambda>(found, s1).
       if \<not> found then halt
       else
         let mpf = floating_at m (mpf_found s1);
             s2 = mp_reset (mp_say ''Intel Multiprocessor Specification v1.%d\<newline>''
                    [byte_arg (mpf_specification mpf)] s1)
         in obind (aget (mpf_feature mpf) 0) (\<lambda>feature1.
            if feature1 = 0 \<and> mpf_physptr mpf \<noteq> 0
            then obind (smp_read_mpc m (phys_to_virt (ucast (mpf_physptr mpf))) s2) (\<lambda>(ok, s3).
                   if ok then Done s3 else halt)
            else halt))"

subsection \<open>The invariant of the parser\<close>

text \<open>
  The arrays have their declared sizes, the counters stay inside them, and the present map
  is an initial segment of the processor numbers, no longer than the processors counted.
\<close>

definition mp_arrays :: "mp_state \<Rightarrow> bool" where
  "mp_arrays s \<longleftrightarrow> length (mp_bus_not_pci s) = MAX_MP_BUSSES div 64 \<and>
     length (bios_cpu_apicid s) = NR_CPUS \<and> length (x86_cpu_to_apicid s) = NR_CPUS \<and>
     length (mp_ioapics s) = MAX_IO_APICS \<and> length (mp_irqs s) = MAX_IRQ_SOURCES \<and>
     length (mp_bus_id_to_pci_bus s) = MAX_MP_BUSSES"

definition mp_inv :: "mp_state \<Rightarrow> bool" where
  "mp_inv s \<longleftrightarrow> mp_arrays s \<and> num_processors s \<le> NR_CPUS \<and> nr_ioapics s \<le> MAX_IO_APICS \<and>
     mp_irq_entries s < MAX_IRQ_SOURCES \<and>
     (\<exists>k \<le> num_processors s. cpu_present_map s = mask k)"

text \<open>An operation that keeps the invariant and never leaves an array.\<close>

definition keeps_inv :: "(mp_state \<Rightarrow> mp_state outcome) \<Rightarrow> bool" where
  "keeps_inv f \<longleftrightarrow> (\<forall>s. mp_inv s \<longrightarrow> f s \<noteq> Fault \<and> (\<forall>s'. f s = Done s' \<longrightarrow> mp_inv s'))"

lemma ffz_mask: "k < 64 \<Longrightarrow> ffz (mask k) = of_nat k"
proof -
  assume k: "k < 64"
  have "\<not> bit (mask k :: u64) k" "bit (- 1 :: u64) k" using k by (simp_all add: bit_simps)
  then have "(mask k :: u64) \<noteq> - 1" by metis
  from ffz_first_zero [OF this]
  have z: "unat (ffz (mask k)) < 64" "\<not> bit (mask k :: u64) (unat (ffz (mask k)))"
    "\<forall>j < unat (ffz (mask k)). bit (mask k :: u64) j" by auto
  have "unat (ffz (mask k)) = k"
  proof (rule antisym)
    show "unat (ffz (mask k)) \<le> k"
    proof (rule ccontr)
      assume "\<not> unat (ffz (mask k)) \<le> k"
      then have "bit (mask k :: u64) k" using z(3) by simp
      then show False by (simp add: bit_simps)
    qed
    show "k \<le> unat (ffz (mask k))" using z(1,2) by (simp add: bit_simps)
  qed
  then show ?thesis using k by (metis of_nat_unat ucast_id)
qed

lemma cpu_set_mask:
  assumes "k \<le> n" "n < 64" "k < 64"
  shows "cpu_set (of_nat k) (mask n) = Done (mask (max n (Suc k)))"
proof -
  have "Bit_Operations.set_bit k (mask n) = (mask (max n (Suc k)) :: u64)"
    using assms by (intro bit_word_eqI) (auto simp: bit_simps)
  then show ?thesis
    using assms by (simp add: cpu_set_def set_bit_m_def on_bit_def bit_word_def outcome_simps)
qed

lemma MP_processor_info_inv: "keeps_inv (MP_processor_info e)"
  unfolding keeps_inv_def
proof (intro allI impI)
  fix s assume s: "mp_inv s"
  then obtain k where k: "k \<le> num_processors s" "cpu_present_map s = mask k" "num_processors s \<le> 2"
    and arr: "mp_arrays s" "nr_ioapics s \<le> MAX_IO_APICS" "mp_irq_entries s < MAX_IRQ_SOURCES"
    by (auto simp: mp_inv_def kconst)
  show "MP_processor_info e s \<noteq> Fault \<and> (\<forall>s'. MP_processor_info e s = Done s' \<longrightarrow> mp_inv s')"
  proof (cases "cpu_flag e AND CPU_ENABLED \<noteq> 0 \<and> num_processors s < NR_CPUS")
    case True
    then have k2: "k < 2" using k by (simp add: kconst)
    define c :: nat where "c = (if cpu_flag e AND CPU_BOOTPROCESSOR \<noteq> 0 then 0 else k)"
    have c: "(if cpu_flag e AND CPU_BOOTPROCESSOR \<noteq> 0 then 0 else first_cpu (cpu_present_map s)) = of_nat c"
      "c \<le> k" "c < 2"
      using k2 by (simp_all add: c_def first_cpu_def k ffz_mask)
    have u: "unat (of_nat c :: u64) = c" using c by simp
    define d where "d = max k (Suc c)"
    have d: "cpu_set (of_nat c) (mask k) = Done (mask d)" "d \<le> Suc (num_processors s)"
      using c k k2 unfolding d_def by (simp_all add: cpu_set_mask)
    have n: "\<not> NR_CPUS \<le> num_processors s" "cpu_flag e AND CPU_ENABLED \<noteq> 0" using True by simp_all
    have len: "c < length (bios_cpu_apicid s)" "c < length (x86_cpu_to_apicid s)"
      "bios_cpu_apicid s \<noteq> []" "x86_cpu_to_apicid s \<noteq> []"
      using arr c by (auto simp: mp_arrays_def kconst)
    have "\<exists>s'. MP_processor_info e s = Done s' \<and> mp_arrays s' \<and> nr_ioapics s' = nr_ioapics s \<and>
      mp_irq_entries s' = mp_irq_entries s \<and> num_processors s' = Suc (num_processors s) \<and>
      cpu_present_map s' = mask d"
      using n c(1) d(1) len arr u
      by (cases "cpu_flag e AND CPU_BOOTPROCESSOR = 0")
        (simp_all add: MP_processor_info_def Let_def mp_say_def k(2) aput_def mp_arrays_def)
    then obtain s' where "MP_processor_info e s = Done s'" and
      s': "mp_arrays s'" "nr_ioapics s' = nr_ioapics s" "mp_irq_entries s' = mp_irq_entries s"
      "num_processors s' = Suc (num_processors s)" "cpu_present_map s' = mask d"
      by blast
    moreover have "mp_inv s'"
      using s' d(2) n arr unfolding mp_inv_def by auto
    ultimately show ?thesis by simp
  next
    case False
    then show ?thesis
      using s by (auto simp: MP_processor_info_def Let_def mp_say_def mp_inv_def mp_arrays_def)
  qed
qed

lemma MP_bus_info_inv: "keeps_inv (MP_bus_info e)"
proof -
  have "unat (ucast (bus_id e) :: u64) < 256"
    using unsigned_less [of "bus_id e", where ?'a = nat] by (simp add: unsigned_ucast_eq take_bit_nat_eq_self)
  then show ?thesis
    by (auto simp: keeps_inv_def mp_inv_def mp_arrays_def MP_bus_info_def Let_def mp_say_def set_bit_m_def
        clear_bit_def on_bit_def bit_word_def kconst aput_def)
qed

lemma MP_ioapic_info_inv: "keeps_inv (MP_ioapic_info e)"
  by (auto simp: keeps_inv_def mp_inv_def mp_arrays_def MP_ioapic_info_def Let_def mp_say_def kconst aput_def)

lemma MP_intsrc_info_inv: "keeps_inv (MP_intsrc_info e)"
  by (auto simp: keeps_inv_def mp_inv_def mp_arrays_def MP_intsrc_info_def Let_def halt_def kconst aput_def)

lemma mpc_entry_inv:
  assumes "mp_inv s"
  shows "mpc_entry m mpt s \<noteq> Fault \<and> (\<forall>n s'. mpc_entry m mpt s = Done (n, s') \<longrightarrow> mp_inv s')"
proof -
  define good :: "(nat \<times> mp_state) outcome \<Rightarrow> bool"
    where "good r \<longleftrightarrow> r \<noteq> Fault \<and> (\<forall>n s'. r = Done (n, s') \<longrightarrow> mp_inv s')" for r
  have keep: "good (obind (f s) (\<lambda>s. Done (n, s)))" if "keeps_inv f" for f n
    using that assms unfolding keeps_inv_def good_def by (cases "f s") auto
  have "keeps_inv (MP_lintsrc_info e)" for e by (simp add: keeps_inv_def MP_lintsrc_info_def)
  then have "good (mpc_entry m mpt s)"
    using assms unfolding mpc_entry_def
    by (simp add: keep MP_processor_info_inv MP_bus_info_inv MP_ioapic_info_inv MP_intsrc_info_inv)
      (simp add: good_def)
  then show ?thesis by (simp add: good_def)
qed

lemmas mpc_loop_induct = mpc_loop.raw_induct [rotated, consumes 1, case_names step]

lemma mpc_loop_inv:
  "mpc_loop m mpc mpt count s = Some r \<Longrightarrow> mp_inv s \<Longrightarrow> r \<noteq> Fault \<and> (\<forall>s'. r = Done s' \<longrightarrow> mp_inv s')"
proof (induction m mpc mpt count s r rule: mpc_loop_induct)
  case (step loop m mpc mpt count s r)
  show ?case
    using step mpc_entry_inv [OF step(3), of m mpt]
    by (auto split: if_splits outcome.splits prod.splits)
qed

text \<open>An entry of an unknown type is never passed: the parser does not return.\<close>

lemma mpc_loop_unknown:
  assumes "4 < m mpt" and "count < unat (mpc_length (config_table_at m mpc))"
  shows "mpc_loop m mpc mpt count s = None"
proof -
  have "4 < m mpt \<Longrightarrow> \<not> count < unat (mpc_length (config_table_at m mpc))"
    if "mpc_loop m mpc mpt count s = Some r" for r
    using that
  proof (induction m mpc mpt count s r rule: mpc_loop_induct)
    case (step loop m mpc mpt count s r)
    have "mpc_entry m mpt s = Done (0, s)" using step(3) by (auto simp: mpc_entry_def kconst)
    then show ?case using step by (auto split: if_splits)
  qed
  then show ?thesis using assms by (cases "mpc_loop m mpc mpt count s") auto
qed

subsection \<open>The search for the floating pointer structure\<close>

definition floating_ok :: "bmem \<Rightarrow> u64 \<Rightarrow> bool" where
  "floating_ok m a \<longleftrightarrow> rd32 m a = SMP_MAGIC_IDENT \<and> m (a + 8) = 1 \<and> (m (a + 9) = 1 \<or> m (a + 9) = 4)"

text \<open>The first paragraph of an area of \<open>n\<close> paragraphs that holds the structure.\<close>

definition first_floating :: "bmem \<Rightarrow> u64 \<Rightarrow> nat \<Rightarrow> u64 option" where
  "first_floating m a n = map_option (\<lambda>i. a + 16 * of_nat i) (List.find (\<lambda>i. floating_ok m (a + 16 * of_nat i)) [0..<n])"

lemma first_floating_Suc:
  "first_floating m a (Suc n) = (if floating_ok m a then Some a else first_floating m (a + 16) n)"
proof -
  have "map_option (\<lambda>i. a + 16 * of_nat i) (List.find (\<lambda>i. floating_ok m (a + 16 * of_nat i)) (map Suc xs)) =
    map_option (\<lambda>i. a + 16 + 16 * of_nat i) (List.find (\<lambda>i. floating_ok m (a + 16 + 16 * of_nat i)) xs)" for xs
    by (induction xs) (simp_all add: algebra_simps)
  then show ?thesis
    unfolding first_floating_def by (subst upt_conv_Cons) (simp_all add: map_Suc_upt [symmetric] del: upt_Suc)
qed

lemma scan_loop_first:
  "16 * n < 2 ^ 64 \<Longrightarrow> scan_loop m a (16 * of_nat n) = Some (first_floating m a n)"
proof (induction n arbitrary: a)
  case 0
  then show ?case by (subst scan_loop.simps) (simp add: first_floating_def)
next
  case (Suc n)
  have "unat (16 * of_nat (Suc n) :: u64) = 16 * Suc n"
    using Suc.prems unat_of_nat_u64 [of "16 * Suc n"] by simp
  then have "0 < (16 * of_nat (Suc n) :: u64)" by (simp add: word_less_nat_alt)
  then show ?case
    using Suc by (subst scan_loop.simps)
      (auto simp add: first_floating_Suc floating_at_def floating_ok_def algebra_simps Let_def)
qed

subsection \<open>The layout of a configuration table\<close>

datatype mp_entry =
    Processor mpc_config_processor
  | Bus mpc_config_bus
  | IoApic mpc_config_ioapic
  | IntSrc mpc_config_intsrc
  | LintSrc mpc_config_lintsrc

definition le16 :: "u16 \<Rightarrow> u8 list" where
  "le16 w = [ucast w, ucast (drop_bit 8 w)]"

definition le32 :: "u32 \<Rightarrow> u8 list" where
  "le32 w = le16 (ucast w) @ le16 (ucast (drop_bit 16 w))"

text \<open>The bytes of an entry in the format of the MP specification, reserved fields zero.\<close>

fun encode :: "mp_entry \<Rightarrow> u8 list" where
  "encode (Processor p) = [MP_PROCESSOR, cpu_apicid p, cpu_apicver p, cpu_flag p] @
     le32 (cpu_feature p) @ le32 (cpu_featureflag p) @ replicate 8 0"
| "encode (Bus b) = [MP_BUS, bus_id b] @ bus_type b"
| "encode (IoApic i) = [MP_IOAPIC, ioapic_id i, ioapic_ver i, ioapic_flags i] @ le32 (ioapic_addr i)"
| "encode (IntSrc i) = [MP_INTSRC, int_irqtype i] @ le16 (int_irqflag i) @
     [int_srcbus i, int_srcbusirq i, int_dstapic i, int_dstirq i]"
| "encode (LintSrc i) = [MP_LINTSRC, lint_irqtype i] @ le16 (lint_irqflag i) @
     [lint_srcbusid i, lint_srcbusirq i, lint_destapic i, lint_destapiclint i]"

fun entry_ok :: "mp_entry \<Rightarrow> bool" where
  "entry_ok (Bus b) \<longleftrightarrow> length (bus_type b) = 6"
| "entry_ok _ \<longleftrightarrow> True"

text \<open>What the parser is to do with an entry, and with a sequence of them.\<close>

fun record_entry :: "mp_entry \<Rightarrow> mp_state \<Rightarrow> mp_state outcome" where
  "record_entry (Processor p) s = MP_processor_info p s"
| "record_entry (Bus b) s = MP_bus_info b s"
| "record_entry (IoApic i) s = MP_ioapic_info i s"
| "record_entry (IntSrc i) s = MP_intsrc_info i s"
| "record_entry (LintSrc i) s = MP_lintsrc_info i s"

fun record_entries :: "mp_entry list \<Rightarrow> mp_state \<Rightarrow> mp_state outcome" where
  "record_entries [] s = Done s"
| "record_entries (e # es) s = obind (record_entry e s) (record_entries es)"

lemma rd16_le16: "bytes_at m a 2 = le16 w \<Longrightarrow> rd16 m a = w"
proof -
  assume "bytes_at m a 2 = le16 w"
  then have "m a = ucast w" "m (a + 1) = ucast (drop_bit 8 w)"
    by (simp_all add: bytes_at_Suc numeral_eq_Suc bytes_at_0 le16_def)
  then show ?thesis
    unfolding rd16_def by (auto intro!: bit_word_eqI simp: bit_simps)
qed

lemma bytes_at_add: "bytes_at m a (i + j) = bytes_at m a i @ bytes_at m (a + of_nat i) j"
  by (induction i arbitrary: a) (simp_all add: bytes_at_Suc bytes_at_0 add.assoc)

lemma length_bytes_at [simp]: "length (bytes_at m a n) = n"
  by (simp add: bytes_at_def)

lemma length_le [simp]: "length (le16 w) = 2" "length (le32 v) = 4"
  by (simp_all add: le16_def le32_def)

lemma bytes_at_append:
  "length xs = i \<Longrightarrow> bytes_at m a (i + j) = xs @ ys \<longleftrightarrow> bytes_at m a i = xs \<and> bytes_at m (a + of_nat i) j = ys"
  by (simp add: bytes_at_add)

lemma bytes_at_Cons: "bytes_at m a (Suc n) = x # xs \<longleftrightarrow> m a = x \<and> bytes_at m (a + 1) n = xs"
  by (simp add: bytes_at_Suc)

lemma rd32_le32: "bytes_at m a 4 = le32 w \<Longrightarrow> rd32 m a = w"
proof -
  assume "bytes_at m a 4 = le32 w"
  then have "bytes_at m a 2 = le16 (ucast w)" "bytes_at m (a + 2) 2 = le16 (ucast (drop_bit 16 w))"
    using bytes_at_add [of m a 2 2] by (simp_all add: le32_def)
  then have "rd16 m a = ucast w" "rd16 m (a + 2) = ucast (drop_bit 16 w)" by (auto dest: rd16_le16)
  then show ?thesis
    unfolding rd32_def by (auto intro!: bit_word_eqI simp: bit_simps)
qed

lemma encode_processor:
  assumes "bytes_at m a 20 = encode (Processor p)"
  shows "m a = MP_PROCESSOR" "processor_at m a = p"
proof -
  have "bytes_at m a 4 = [MP_PROCESSOR, cpu_apicid p, cpu_apicver p, cpu_flag p]"
    "bytes_at m (a + 4) 4 = le32 (cpu_feature p)" "bytes_at m (a + 8) 4 = le32 (cpu_featureflag p)"
    using assms bytes_at_append [of "[MP_PROCESSOR, cpu_apicid p, cpu_apicver p, cpu_flag p]" 4 m a 16]
      bytes_at_append [of "le32 (cpu_feature p)" 4 m "a + 4" 12]
      bytes_at_append [of "le32 (cpu_featureflag p)" 4 m "a + 8" 8]
    by (auto simp: add.assoc)
  then show "m a = MP_PROCESSOR" "processor_at m a = p"
    by (simp_all add: processor_at_def rd32_le32 bytes_at_Suc numeral_eq_Suc add.assoc)
qed

lemma bytes_at_2: "bytes_at m a 2 = [m a, m (a + 1)]"
  and bytes_at_4: "bytes_at m a 4 = [m a, m (a + 1), m (a + 2), m (a + 3)]"
  by (simp_all add: bytes_at_Suc bytes_at_0 numeral_eq_Suc add.assoc)

lemma encode_bus:
  assumes "bytes_at m a 8 = encode (Bus b)"
  shows "m a = MP_BUS" "bus_at m a = b"
  using assms bytes_at_append [of "[MP_BUS, bus_id b]" 2 m a 6 "bus_type b"]
  by (auto simp: bus_at_def bytes_at_2)

lemma encode_ioapic:
  assumes "bytes_at m a 8 = encode (IoApic i)"
  shows "m a = MP_IOAPIC" "ioapic_at m a = i"
proof -
  have "bytes_at m a 4 = [MP_IOAPIC, ioapic_id i, ioapic_ver i, ioapic_flags i]"
    "rd32 m (a + 4) = ioapic_addr i"
    using assms bytes_at_append [of "[MP_IOAPIC, ioapic_id i, ioapic_ver i, ioapic_flags i]" 4 m a 4 "le32 (ioapic_addr i)"]
    by (simp_all add: rd32_le32)
  then show "m a = MP_IOAPIC" "ioapic_at m a = i"
    by (simp_all add: ioapic_at_def bytes_at_4)
qed

lemma encode_src:
  assumes "bytes_at m a 8 = [t, x] @ le16 f @ [b1, b2, b3, b4]"
  shows "m a = t" "m (a + 1) = x" "rd16 m (a + 2) = f" "m (a + 4) = b1" "m (a + 5) = b2" "m (a + 6) = b3" "m (a + 7) = b4"
proof -
  have "bytes_at m a 2 = [t, x]" "bytes_at m (a + 2) 6 = le16 f @ [b1, b2, b3, b4]"
    using assms bytes_at_append [of "[t, x]" 2 m a 6 "le16 f @ [b1, b2, b3, b4]"] by simp_all
  moreover from this(2) have "bytes_at m (a + 2) 2 = le16 f" "bytes_at m (a + 4) 4 = [b1, b2, b3, b4]"
    using bytes_at_append [of "le16 f" 2 m "a + 2" 4 "[b1, b2, b3, b4]"] by (simp_all add: add.assoc)
  ultimately show "m a = t" "m (a + 1) = x" "rd16 m (a + 2) = f" "m (a + 4) = b1" "m (a + 5) = b2" "m (a + 6) = b3" "m (a + 7) = b4"
    by (simp_all add: rd16_le16 bytes_at_4 bytes_at_2 [of m a] add.assoc)
qed

lemma encode_intsrc:
  assumes "bytes_at m a 8 = encode (IntSrc i)"
  shows "m a = MP_INTSRC" "intsrc_at m a = i"
  using encode_src [OF assms [unfolded encode.simps]] by (simp_all add: intsrc_at_def)

lemma encode_lintsrc:
  assumes "bytes_at m a 8 = encode (LintSrc i)"
  shows "m a = MP_LINTSRC" "lintsrc_at m a = i"
  using encode_src [OF assms [unfolded encode.simps]] by (simp_all add: lintsrc_at_def)

lemma length_encode:
  "entry_ok e \<Longrightarrow> length (encode e) = (case e of Processor _ \<Rightarrow> 20 | _ \<Rightarrow> 8)"
  by (cases e) simp_all

lemma mpc_entry_encode:
  assumes "entry_ok e" "bytes_at m a (length (encode e)) = encode e"
  shows "mpc_entry m a s = obind (record_entry e s) (\<lambda>s. Done (length (encode e), s))"
proof -
  have k: "MP_BUS \<noteq> MP_PROCESSOR" "MP_IOAPIC \<noteq> MP_PROCESSOR" "MP_INTSRC \<noteq> MP_PROCESSOR" "MP_LINTSRC \<noteq> MP_PROCESSOR"
    "MP_IOAPIC \<noteq> MP_BUS" "MP_INTSRC \<noteq> MP_BUS" "MP_LINTSRC \<noteq> MP_BUS"
    "MP_INTSRC \<noteq> MP_IOAPIC" "MP_LINTSRC \<noteq> MP_IOAPIC" "MP_LINTSRC \<noteq> MP_INTSRC"
    by (simp_all add: kconst)
  note b = assms(2) [unfolded length_encode [OF assms(1)]]
  show ?thesis
    unfolding length_encode [OF assms(1)]
    by (cases e)
      (use b k encode_processor [of m a] encode_bus [of m a] encode_ioapic [of m a] encode_intsrc [of m a]
         encode_lintsrc [of m a] in \<open>auto simp: mpc_entry_def simp del: encode.simps\<close>)
qed

lemma mpc_loop_entries:
  assumes "list_all entry_ok es" "bytes_at m a (length (concat (map encode es))) = concat (map encode es)"
    and "unat (mpc_length (config_table_at m mpc)) = count + length (concat (map encode es))"
  shows "mpc_loop m mpc a count s = Some (record_entries es s)"
  using assms
proof (induction es arbitrary: a count s)
  case Nil
  then show ?case by (subst mpc_loop.simps) simp
next
  case (Cons e es)
  have "0 < length (encode e)" using Cons.prems by (cases e) (auto simp: length_encode)
  then have lt: "count < unat (mpc_length (config_table_at m mpc))" using Cons.prems by simp
  have b: "bytes_at m a (length (encode e)) = encode e"
    "bytes_at m (a + of_nat (length (encode e))) (length (concat (map encode es))) = concat (map encode es)"
    using Cons.prems(2) bytes_at_append [of "encode e" _ m a] by simp_all
  have entry: "mpc_entry m a s = obind (record_entry e s) (\<lambda>s. Done (length (encode e), s))"
    using Cons.prems b by (intro mpc_entry_encode) simp_all
  show ?case
    using Cons.IH [OF _ b(2), of "count + length (encode e)"] Cons.prems lt
    by (subst mpc_loop.simps) (cases "record_entry e s"; simp add: entry)
qed

lemma smp_read_mpc_inv:
  assumes "mp_inv s"
  shows "smp_read_mpc m mpc s \<noteq> Fault \<and> (\<forall>ok s'. smp_read_mpc m mpc s = Done (ok, s') \<longrightarrow> mp_inv s')"
proof -
  have say: "mp_inv (mp_say f as s)" for f as using assms by (simp add: mp_inv_def mp_arrays_def mp_say_def)
  have "mp_inv (s\<lparr>mp_lapic_addr := v\<rparr>)" for v using assms by (simp add: mp_inv_def mp_arrays_def)
  note loop = mpc_loop_inv [OF _ this]
  show ?thesis
    using say loop [of m mpc "mpc + of_nat sizeof_mp_config_table" sizeof_mp_config_table
      "ucast (mpc_lapic (config_table_at m mpc))"]
    by (cases "mpc_loop m mpc (mpc + of_nat sizeof_mp_config_table) sizeof_mp_config_table
          (s\<lparr>mp_lapic_addr := ucast (mpc_lapic (config_table_at m mpc))\<rparr>)")
      (auto simp: smp_read_mpc_def Let_def split: obind_split)
qed

lemma mp_reset_inv: "mp_arrays s \<Longrightarrow> mp_inv (mp_reset s)"
  by (auto simp: mp_inv_def mp_reset_def mp_arrays_def kconst intro!: exI [of _ 0])

lemma smp_scan_config_first:
  assumes "16 * n < 2 ^ 64"
  shows "smp_scan_config m base (16 * of_nat n) s =
    Done (case first_floating m (phys_to_virt base) n of
        None \<Rightarrow> (False, s)
      | Some mpf \<Rightarrow> (True, s\<lparr>smp_found_config := True, mpf_found := mpf\<rparr>))"
  by (simp add: smp_scan_config_def scan_loop_first [OF assms] split: option.split)

definition find_floating :: "bmem \<Rightarrow> u64 option" where
  "find_floating m =
     (case first_floating m (phys_to_virt 0) 64 of
        Some a \<Rightarrow> Some a
      | None \<Rightarrow>
          (case first_floating m (phys_to_virt (639 * 0x400)) 64 of
             Some a \<Rightarrow> Some a
           | None \<Rightarrow> first_floating m (phys_to_virt 0xf0000) 4096))"

lemma scan_areas_find:
  "scan_areas m s =
    Done (case find_floating m of
        None \<Rightarrow> (False, s)
      | Some mpf \<Rightarrow> (True, s\<lparr>smp_found_config := True, mpf_found := mpf\<rparr>))"
  using smp_scan_config_first [of 64 m 0 s] smp_scan_config_first [of 64 m "639 * 0x400" s]
    smp_scan_config_first [of 4096 m "0xf0000" s]
  by (simp add: scan_areas_def find_floating_def split: option.split)

text \<open>
  C23 (\<^verbatim>\<open>mp_spec_init\<close>, memory safety). Whatever bytes the BIOS left in memory, the search and
  the parser never leave one of the kernel's arrays; when they return, no more processors,
  I/O APICs and interrupt sources are counted than the arrays have room for, and the present
  map is an initial segment of the processor numbers.
\<close>

theorem mp_spec_init_safe:
  assumes "mp_arrays s"
  shows "mp_spec_init m s \<noteq> Fault \<and> (\<forall>s'. mp_spec_init m s = Done s' \<longrightarrow> mp_inv s')"
proof (cases "find_floating m")
  case None
  then show ?thesis by (simp add: mp_spec_init_def scan_areas_find halt_def)
next
  case (Some mpf)
  let ?s = "mp_say ''Intel Multiprocessor Specification v1.%d\<newline>''
    [byte_arg (mpf_specification (floating_at m mpf))] (s\<lparr>smp_found_config := True, mpf_found := mpf\<rparr>)"
  have "mp_inv (mp_reset ?s)"
    using assms by (intro mp_reset_inv) (simp add: mp_arrays_def mp_say_def)
  note inv = smp_read_mpc_inv [OF this, of m "phys_to_virt (ucast (mpf_physptr (floating_at m mpf)))"]
  have "aget (mpf_feature (floating_at m mpf)) 0 = Done (m (mpf + 11))"
    by (simp add: floating_at_def bytes_at_def aget_def)
  then have "mp_spec_init m s =
    (if m (mpf + 11) = 0 \<and> mpf_physptr (floating_at m mpf) \<noteq> 0
     then obind (smp_read_mpc m (phys_to_virt (ucast (mpf_physptr (floating_at m mpf)))) (mp_reset ?s))
            (\<lambda>(ok, s3). if ok then Done s3 else halt)
     else halt)"
    using Some by (simp add: mp_spec_init_def scan_areas_find Let_def del: aget_Done_iff)
  then show ?thesis
    using inv by (cases "smp_read_mpc m (phys_to_virt (ucast (mpf_physptr (floating_at m mpf)))) (mp_reset ?s)")
      (auto simp: halt_def split: if_splits)
qed

lemma mp_spec_init_entries:
  assumes "find_floating m = Some mpf" "m (mpf + 11) = 0" "rd32 m (mpf + 4) \<noteq> 0"
    and mpc: "mpc = phys_to_virt (ucast (rd32 m (mpf + 4)))"
    and header: "bytes_at m mpc 4 = bytes ''PCMP''" "m (mpc + 6) = 1 \<or> m (mpc + 6) = 4" "rd32 m (mpc + 36) \<noteq> 0"
    and entries: "list_all entry_ok es"
      "bytes_at m (mpc + 44) (length (concat (map encode es))) = concat (map encode es)"
      "unat (rd16 m (mpc + 4)) = 44 + length (concat (map encode es))"
  shows "mp_spec_init m s =
    record_entries es
      ((mp_reset (mp_say ''Intel Multiprocessor Specification v1.%d\<newline>'' [byte_arg (m (mpf + 9))]
          (s\<lparr>smp_found_config := True, mpf_found := mpf\<rparr>)))\<lparr>mp_lapic_addr := ucast (rd32 m (mpc + 36))\<rparr>)"
proof -
  have t: "config_table_at m mpc = \<lparr>mpc_signature = bytes_at m mpc 4, mpc_length = rd16 m (mpc + 4),
      mpc_spec = m (mpc + 6), mpc_lapic = rd32 m (mpc + 36)\<rparr>"
    by (simp add: config_table_at_def)
  have loop: "mpc_loop m mpc (mpc + 44) 44 t = Some (record_entries es t)" for t
    using entries by (intro mpc_loop_entries) (simp_all add: t)
  have sig: "memcmp_bytes (bytes ''PCMP'') (bytes ''PCMP'') = 0" by (simp add: memcmp_bytes_0)
  have "smp_read_mpc m mpc t = obind (record_entries es (t\<lparr>mp_lapic_addr := ucast (rd32 m (mpc + 36))\<rparr>)) (\<lambda>s'. Done (True, s'))" for t
    using header by (auto simp: smp_read_mpc_def Let_def config_table_at_def MPC_SIGNATURE_def sig kconst loop)
  moreover have "floating_at m mpf = \<lparr>mpf_signature = rd32 m mpf, mpf_physptr = rd32 m (mpf + 4), mpf_length = m (mpf + 8),
      mpf_specification = m (mpf + 9), mpf_checksum = m (mpf + 10), mpf_feature = bytes_at m (mpf + 11) 5\<rparr>"
    "aget (bytes_at m (mpf + 11) 5) 0 = Done (m (mpf + 11))"
    by (simp_all add: floating_at_def bytes_at_def aget_def)
  moreover have "obind (obind r (\<lambda>s'. Done (True, s'))) (\<lambda>(ok, s3). if ok then Done s3 else halt) = r" for r :: "mp_state outcome"
    by (cases r) simp_all
  ultimately show ?thesis
    using assms(1-3) by (simp add: mp_spec_init_def scan_areas_find Let_def del: aget_Done_iff flip: mpc)
qed

text \<open>
  C17 (\<^verbatim>\<open>mp_spec_init\<close>, the configuration table). When the first floating pointer structure of the
  three areas refers to a configuration table with a valid header, followed by the encodings
  of a sequence of entries and a length field that covers them, the parser ends and has done
  exactly the recording of these entries, in their order, from a reset state.
\<close>

theorem mp_spec_init_records:
  assumes "find_floating m = Some mpf" "m (mpf + 11) = 0" "rd32 m (mpf + 4) \<noteq> 0"
    and mpc: "mpc = phys_to_virt (ucast (rd32 m (mpf + 4)))"
    and header: "bytes_at m mpc 4 = bytes ''PCMP''" "m (mpc + 6) = 1 \<or> m (mpc + 6) = 4" "rd32 m (mpc + 36) \<noteq> 0"
    and entries: "list_all entry_ok es"
      "bytes_at m (mpc + 44) (length (concat (map encode es))) = concat (map encode es)"
      "unat (rd16 m (mpc + 4)) = 44 + length (concat (map encode es))"
  shows "mp_spec_init m s =
    record_entries es
      ((mp_reset (mp_say ''Intel Multiprocessor Specification v1.%d\<newline>'' [byte_arg (m (mpf + 9))]
          (s\<lparr>smp_found_config := True, mpf_found := mpf\<rparr>)))\<lparr>mp_lapic_addr := ucast (rd32 m (mpc + 36))\<rparr>)"
  by (rule mp_spec_init_entries) (use assms in simp_all)

text \<open>A small BIOS memory: the structure in the second paragraph, the table at \<^verbatim>\<open>0x100\<close>.\<close>

definition demo_cpu :: mpc_config_processor where
  "demo_cpu = \<lparr>cpu_apicid = 5, cpu_apicver = 0x14, cpu_flag = 3, cpu_feature = 0x673, cpu_featureflag = 0x383\<rparr>"

definition demo_bus :: mpc_config_bus where
  "demo_bus = \<lparr>bus_id = 1, bus_type = [0x50, 0x43, 0x49, 0x20, 0x20, 0x20]\<rparr>"

definition demo_header :: "u16 \<Rightarrow> u8 list" where
  "demo_header len = [0x50, 0x43, 0x4D, 0x50] @ le16 len @ [4, 0] @ replicate 28 0 @ le32 0xFEE00000 @ replicate 4 0"

definition demo_bios :: "u8 list \<Rightarrow> bmem" where
  "demo_bios table a =
     (let i = unat (a - PAGE_OFFSET)
      in if 0x10 \<le> i \<and> i < 0x20
         then ([0x5F, 0x4D, 0x50, 0x5F] @ le32 0x100 @ [1, 4, 0, 0, 0, 0, 0, 0]) ! (i - 0x10)
         else if 0x100 \<le> i \<and> i < 0x100 + length table then table ! (i - 0x100) else 0)"

definition demo_mp :: mp_state where
  "demo_mp =
     \<lparr>smp_found_config = False, mp_lapic_addr = 0, disabled_cpus = 0, boot_cpu_id = 0, num_processors = 0,
      mp_current_pci_id = 0, nr_ioapics = 0, mp_irq_entries = 0, cpu_present_map = 0,
      mp_bus_not_pci = replicate 4 0, mpf_found = 0, bios_cpu_apicid = replicate 2 0xFF,
      x86_cpu_to_apicid = replicate 2 0xFF, mp_ioapics = replicate 2 zero_ioapic,
      mp_irqs = replicate 1024 zero_intsrc, mp_bus_id_to_pci_bus = replicate 256 (- 1), mp_log = []\<rparr>"

lemma demo_mp_arrays: "mp_arrays demo_mp"
  by (simp add: mp_arrays_def demo_mp_def kconst)

lemma demo_floating: "find_floating (demo_bios table) = Some (PAGE_OFFSET + 0x10)"
proof -
  have "\<not> floating_ok (demo_bios table) PAGE_OFFSET"
    by (simp add: floating_ok_def rd32_def rd16_def demo_bios_def Let_def kconst)
  moreover have "floating_ok (demo_bios table) (PAGE_OFFSET + 16)"
    by (simp add: floating_ok_def rd32_def rd16_def demo_bios_def Let_def kconst le32_def le16_def)
  ultimately have "first_floating (demo_bios table) PAGE_OFFSET (Suc (Suc 62)) = Some (PAGE_OFFSET + 16)"
    unfolding first_floating_Suc by simp
  then show ?thesis by (simp add: find_floating_def phys_to_virt_def va_def)
qed

theorem mp_spec_init_safe_witness:
  "mp_arrays demo_mp \<and> mp_spec_init (demo_bios []) demo_mp \<noteq> Fault"
  using mp_spec_init_safe [OF demo_mp_arrays, of "demo_bios []"] demo_mp_arrays by simp

lemma demo_bios_table:
  assumes "i < length table" "length table < 4096"
  shows "demo_bios table (PAGE_OFFSET + 0x100 + of_nat i) = table ! i"
proof -
  have "unat (0x100 + of_nat i :: u64) = 0x100 + i"
    using assms by (subst unat_add_u64) simp_all
  then show ?thesis using assms by (simp add: demo_bios_def Let_def)
qed

lemma demo_bios_bytes:
  assumes "j + n \<le> length table" "length table < 4096"
  shows "bytes_at (demo_bios table) (PAGE_OFFSET + 0x100 + of_nat j) n = take n (drop j table)"
proof (rule nth_equalityI)
  fix i assume "i < length (bytes_at (demo_bios table) (PAGE_OFFSET + 0x100 + of_nat j) n)"
  then show "bytes_at (demo_bios table) (PAGE_OFFSET + 0x100 + of_nat j) n ! i = take n (drop j table) ! i"
    using assms demo_bios_table [of "j + i" table] by (simp add: bytes_at_def add.assoc)
qed (use assms in simp)

lemma length_demo_header [simp]: "length (demo_header len) = 44"
  by (simp add: demo_header_def)

lemma demo_bios_header:
  fixes rest :: "u8 list" and len :: u16
  assumes "length rest < 4000"
  defines "m \<equiv> demo_bios (demo_header len @ rest)"
  shows "bytes_at m (PAGE_OFFSET + 0x100) 4 = bytes ''PCMP''" "m (PAGE_OFFSET + 0x100 + 6) = 4"
    "rd32 m (PAGE_OFFSET + 0x100 + 36) = 0xFEE00000" "rd16 m (PAGE_OFFSET + 0x100 + 4) = len"
    "bytes_at m (PAGE_OFFSET + 0x100 + 44) (length rest) = rest"
    "rd32 m (PAGE_OFFSET + 0x10 + 4) = 0x100" "m (PAGE_OFFSET + 0x10 + 11) = 0"
proof -
  let ?t = "demo_header len @ rest"
  note at = demo_bios_bytes [of _ _ ?t, folded m_def]
  show "bytes_at m (PAGE_OFFSET + 0x100) 4 = bytes ''PCMP''"
    using at [of 0 4] assms(1) by (simp add: demo_header_def bytes_def)
  show "m (PAGE_OFFSET + 0x100 + 6) = 4"
    using demo_bios_table [of 6 ?t] assms(1) by (simp add: m_def demo_header_def le16_def)
  show "rd16 m (PAGE_OFFSET + 0x100 + 4) = len"
    using at [of 4 2] assms(1) by (intro rd16_le16) (simp add: demo_header_def le16_def)
  show "rd32 m (PAGE_OFFSET + 0x100 + 36) = 0xFEE00000"
    using at [of 36 4] assms(1) by (intro rd32_le32) (simp add: demo_header_def le16_def le32_def)
  show "bytes_at m (PAGE_OFFSET + 0x100 + 44) (length rest) = rest"
    using at [of 44 "length rest"] assms(1) by simp
  show "rd32 m (PAGE_OFFSET + 0x10 + 4) = 0x100" "m (PAGE_OFFSET + 0x10 + 11) = 0"
    by (simp_all add: m_def rd32_def rd16_def demo_bios_def Let_def kconst le32_def le16_def)
qed

lemma demo_mp_spec_init:
  assumes c: "cpu_flag c = 3"
  shows "\<exists>s'. mp_spec_init (demo_bios (demo_header 64 @ encode (Processor c))) (demo_mp\<lparr>mp_log := log\<rparr>) = Done s' \<and>
    num_processors s' = 1 \<and> boot_cpu_id s' = ucast (cpu_apicid c) \<and> x86_cpu_to_apicid s' = [cpu_apicid c, 0xFF] \<and>
    mp_log s' = log @ [(''Intel Multiprocessor Specification v1.%d\<newline>'', [ArgInt 4]),
      (''Processor #%d%s is found\<newline>'', [byte_arg (cpu_apicid c), ArgStr '' (Bootup-CPU)'']),
      (''cpu=%d apicid=%d\<newline>'', [ArgInt 0, byte_arg (cpu_apicid c)])]"
proof -
  define mpc :: u64 where "mpc = PAGE_OFFSET + 0x100"
  let ?m = "demo_bios (demo_header 64 @ encode (Processor c))"
  have "length (encode (Processor c)) < 4000" by simp
  note header = demo_bios_header [OF this, of 64, folded mpc_def]
  have "mpc = phys_to_virt (ucast (rd32 ?m (PAGE_OFFSET + 0x10 + 4)))"
    by (simp only: header(6)) (simp add: phys_to_virt_def va_def mpc_def)
  moreover have "?m (PAGE_OFFSET + 0x10 + 9) = 4" by (simp add: demo_bios_def Let_def le32_def le16_def)
  moreover define u where "u = (mp_reset (mp_say ''Intel Multiprocessor Specification v1.%d\<newline>'' [byte_arg 4]
        (demo_mp\<lparr>mp_log := log, smp_found_config := True, mpf_found := PAGE_OFFSET + 0x10\<rparr>)))
        \<lparr>mp_lapic_addr := ucast (rd32 ?m (mpc + 36))\<rparr>"
  ultimately have run: "mp_spec_init ?m (demo_mp\<lparr>mp_log := log\<rparr>) = record_entries [Processor c] u"
    using mp_spec_init_entries [of ?m "PAGE_OFFSET + 0x10" mpc "[Processor c]" "demo_mp\<lparr>mp_log := log\<rparr>"] demo_floating header
    by simp
  have two: "replicate 2 x = [x, x]" for x :: u8 by (simp add: numeral_2_eq_2)
  have u: "bios_cpu_apicid u = [0xFF, 0xFF]" "x86_cpu_to_apicid u = [0xFF, 0xFF]" "num_processors u = 0"
    "cpu_present_map u = 0"
    "mp_log u = log @ [(''Intel Multiprocessor Specification v1.%d\<newline>'', [ArgInt 4])]"
    by (simp_all add: u_def mp_reset_def mp_say_def demo_mp_def byte_arg_def two)
  have "cpu_set 0 0 = Done 1" using cpu_set_mask [of 0 0] by (simp add: mask_eq_exp_minus_1)
  then have "\<exists>s'. MP_processor_info c u = Done s' \<and> num_processors s' = 1 \<and> boot_cpu_id s' = ucast (cpu_apicid c) \<and>
      x86_cpu_to_apicid s' = [cpu_apicid c, 0xFF] \<and>
      mp_log s' = mp_log u @ [(''Processor #%d%s is found\<newline>'', [byte_arg (cpu_apicid c), ArgStr '' (Bootup-CPU)'']),
        (''cpu=%d apicid=%d\<newline>'', [ArgInt 0, byte_arg (cpu_apicid c)])]"
    using u(1-4) by (simp add: MP_processor_info_def c mp_say_def aput_def Let_def kconst del: obind_eq_Done_iff)
  then show ?thesis unfolding run by (auto simp: u(5))
qed

theorem mp_spec_init_records_witness:
  "\<exists>t. mp_spec_init (demo_bios (demo_header 72 @ encode (Processor demo_cpu) @ encode (Bus demo_bus))) demo_mp =
     record_entries [Processor demo_cpu, Bus demo_bus] t"
proof -
  define es where "es = [Processor demo_cpu, Bus demo_bus]"
  define mpc :: u64 where "mpc = PAGE_OFFSET + 0x100"
  have es: "length (concat (map encode es)) = 28" "list_all entry_ok es"
    by (simp_all add: es_def demo_bus_def)
  then have "length (concat (map encode es)) < 4000" by simp
  note header = demo_bios_header [OF this, of 72, folded mpc_def]
  let ?m = "demo_bios (demo_header 72 @ concat (map encode es))"
  have "mpc = phys_to_virt (ucast (rd32 ?m (PAGE_OFFSET + 0x10 + 4)))"
    by (simp only: header(6)) (simp add: phys_to_virt_def va_def mpc_def)
  then have "\<exists>t. mp_spec_init ?m demo_mp = record_entries es t"
    using mp_spec_init_records [of ?m "PAGE_OFFSET + 0x10" mpc es demo_mp] demo_floating header es
    by auto
  then show ?thesis by (simp add: es_def)
qed

text \<open>
  C33 (\<^verbatim>\<open>smp_read_mpc\<close>, unknown entry). The \<^verbatim>\<open>switch\<close> has no default case: on a table with a
  valid header whose first entry has a type above 4, the parser does not return.
\<close>

theorem smp_read_mpc_unknown:
  assumes "bytes_at m mpc 4 = bytes ''PCMP''" "m (mpc + 6) = 1 \<or> m (mpc + 6) = 4" "rd32 m (mpc + 36) \<noteq> 0"
    and "44 < unat (rd16 m (mpc + 4))" "4 < m (mpc + 44)"
  shows "smp_read_mpc m mpc s = Halt"
proof -
  have "mpc_loop m mpc (mpc + 44) 44 t = None" for t
    using assms by (intro mpc_loop_unknown) (simp_all add: config_table_at_def)
  moreover have "memcmp_bytes (bytes ''PCMP'') (bytes ''PCMP'') = 0" by (simp add: memcmp_bytes_0)
  ultimately show ?thesis
    using assms(1-3) by (auto simp: smp_read_mpc_def Let_def config_table_at_def MPC_SIGNATURE_def kconst)
qed

theorem smp_read_mpc_unknown_witness:
  "smp_read_mpc (demo_bios (demo_header 52 @ [9, 0, 0, 0, 0, 0, 0, 0])) (PAGE_OFFSET + 0x100) demo_mp = Halt"
proof -
  have "length [9, 0, 0, 0, 0, 0, 0, 0 :: u8] < 4000" by simp
  note header = demo_bios_header [OF this, of 52]
  have "demo_bios (demo_header 52 @ [9, 0, 0, 0, 0, 0, 0, 0]) (PAGE_OFFSET + 0x100 + 44) = 9"
    using demo_bios_table [of 44 "demo_header 52 @ [9, 0, 0, 0, 0, 0, 0, 0]"] by (simp add: nth_append)
  then show ?thesis
    using header by (intro smp_read_mpc_unknown) simp_all
qed

text \<open>
  C40 (\<^verbatim>\<open>MP_processor_info\<close>, order of the entries). The boot processor always takes number 0. When
  its entry follows that of another enabled processor, which took number 0 before, both are
  counted but only the boot processor stays in the tables.
\<close>

theorem boot_processor_evicts:
  assumes "mp_inv s" "num_processors s = 0" "cpu_present_map s = 0"
    and ap: "cpu_flag a AND CPU_ENABLED \<noteq> 0" "cpu_flag a AND CPU_BOOTPROCESSOR = 0"
    and bsp: "cpu_flag b AND CPU_ENABLED \<noteq> 0" "cpu_flag b AND CPU_BOOTPROCESSOR \<noteq> 0"
  shows "\<exists>s'. record_entries [Processor a, Processor b] s = Done s' \<and> num_processors s' = 2 \<and>
    cpu_present_map s' = 1 \<and> bios_cpu_apicid s' = (bios_cpu_apicid s)[0 := cpu_apicid b] \<and>
    x86_cpu_to_apicid s' = (x86_cpu_to_apicid s)[0 := cpu_apicid b]"
proof -
  have len: "bios_cpu_apicid s \<noteq> []" "x86_cpu_to_apicid s \<noteq> []"
    using assms(1) by (auto simp: mp_inv_def mp_arrays_def kconst)
  have f: "first_cpu 0 = 0" using ffz_mask [of 0] by (simp add: first_cpu_def)
  have c: "cpu_set 0 0 = Done 1" "cpu_set 0 1 = Done 1"
    using cpu_set_mask [of 0 0] cpu_set_mask [of 0 1] by (simp_all add: mask_eq_exp_minus_1)
  show ?thesis
    using len assms(2-) by (simp add: MP_processor_info_def Let_def mp_say_def aput_def f c NR_CPUS_def
        del: obind_eq_Done_iff)
qed

theorem boot_processor_evicts_witness:
  "\<exists>s'. record_entries [Processor (demo_cpu\<lparr>cpu_flag := 1\<rparr>), Processor demo_cpu] (mp_reset demo_mp) = Done s' \<and>
     num_processors s' = 2 \<and> cpu_present_map s' = 1"
  using boot_processor_evicts [of "mp_reset demo_mp" "demo_cpu\<lparr>cpu_flag := 1\<rparr>" demo_cpu]
    mp_reset_inv [OF demo_mp_arrays]
  by (auto simp: mp_reset_def demo_cpu_def kconst)

end
