(* ===== verification/Paging.thy ===== *)
theory Paging
  imports Page_Map Processor
begin

text \<open>
  The page tables: the entry types and macros of \<^verbatim>\<open>include/pgtable.h\<close> and \<^verbatim>\<open>paging_init\<close> of
  \<^verbatim>\<open>page.c\<close>, which builds the tables the kernel runs on. The tables live in a memory of
  64-bit cells, keyed by linear address; every access of this code is to a multiple of eight.
  The translation of the processor (\<open>mmu_walk\<close>) is the specification the tables are
  checked against.
\<close>

subsection \<open>Entries\<close>

definition PAGE_PRESENT :: u64 where [kconst]: "PAGE_PRESENT = 0x001"
definition PAGE_RW :: u64 where [kconst]: "PAGE_RW = 0x002"
definition PAGE_USER :: u64 where [kconst]: "PAGE_USER = 0x004"
definition PAGE_PCD :: u64 where [kconst]: "PAGE_PCD = 0x010"
definition PAGE_ACCESSED :: u64 where [kconst]: "PAGE_ACCESSED = 0x020"
definition PAGE_DIRTY :: u64 where [kconst]: "PAGE_DIRTY = 0x040"
definition PAGE_PSE :: u64 where [kconst]: "PAGE_PSE = 0x080"

datatype pte_t = Pte (pte_val: u64)
datatype pmd_t = Pmd (pmd_val: u64)
datatype pud_t = Pud (pud_val: u64)
datatype pgd_t = Pgd (pgd_val: u64)

type_synonym cells = "u64 \<Rightarrow> u64"

definition set_pgd :: "u64 \<Rightarrow> pgd_t \<Rightarrow> cells \<Rightarrow> cells" where
  "set_pgd dst v m = m(dst := pgd_val v)"

definition pgd_clear :: "u64 \<Rightarrow> cells \<Rightarrow> cells" where
  "pgd_clear pgd = set_pgd pgd (Pgd 0)"

definition set_pud :: "u64 \<Rightarrow> pud_t \<Rightarrow> cells \<Rightarrow> cells" where
  "set_pud dst v m = m(dst := pud_val v)"

definition pud_clear :: "u64 \<Rightarrow> cells \<Rightarrow> cells" where
  "pud_clear pud = set_pud pud (Pud 0)"

definition set_pmd :: "u64 \<Rightarrow> pmd_t \<Rightarrow> cells \<Rightarrow> cells" where
  "set_pmd dst v m = m(dst := pmd_val v)"

definition pmd_clear :: "u64 \<Rightarrow> cells \<Rightarrow> cells" where
  "pmd_clear pmd = set_pmd pmd (Pmd 0)"

definition set_pte :: "u64 \<Rightarrow> pte_t \<Rightarrow> cells \<Rightarrow> cells" where
  "set_pte dst v m = m(dst := pte_val v)"

subsection \<open>Indices and the masks of addresses\<close>

definition PGDIR_SHIFT :: nat where [kconst]: "PGDIR_SHIFT = 39"
definition PUD_SHIFT :: nat where [kconst]: "PUD_SHIFT = 30"
definition PMD_SHIFT :: nat where [kconst]: "PMD_SHIFT = 21"
definition PTRS_PER_TABLE :: u64 where [kconst]: "PTRS_PER_TABLE = 512"
definition PHYSICAL_MASK_SHIFT :: nat where [kconst]: "PHYSICAL_MASK_SHIFT = 40"
definition PHYSICAL_MASK :: u64 where [kconst]: "PHYSICAL_MASK = push_bit PHYSICAL_MASK_SHIFT 1 - 1"
definition PTE_MASK :: u64 where [kconst]: "PTE_MASK = NOT (PAGE_SIZE - 1)"
definition PHYSICAL_PAGE_MASK :: u64 where [kconst]:
  "PHYSICAL_PAGE_MASK = NOT (PAGE_SIZE - 1) AND (push_bit PHYSICAL_MASK_SHIFT 1 - 1)"

definition pgd_index :: "u64 \<Rightarrow> u64" where
  "pgd_index a = drop_bit PGDIR_SHIFT a AND (PTRS_PER_TABLE - 1)"

definition pud_index :: "u64 \<Rightarrow> u64" where
  "pud_index a = drop_bit PUD_SHIFT a AND (PTRS_PER_TABLE - 1)"

definition pmd_index :: "u64 \<Rightarrow> u64" where
  "pmd_index a = drop_bit PMD_SHIFT a AND (PTRS_PER_TABLE - 1)"

definition pte_index :: "u64 \<Rightarrow> u64" where
  "pte_index a = drop_bit PAGE_SHIFT a AND (PTRS_PER_TABLE - 1)"

text \<open>An element of a table of 8-byte entries, by pointer arithmetic.\<close>

definition entry_ptr :: "u64 \<Rightarrow> u64 \<Rightarrow> u64" where
  "entry_ptr table i = table + 8 * i"

definition pgd_none :: "pgd_t \<Rightarrow> bool" where "pgd_none x \<longleftrightarrow> pgd_val x = 0"
definition pud_none :: "pud_t \<Rightarrow> bool" where "pud_none x \<longleftrightarrow> pud_val x = 0"
definition pmd_none :: "pmd_t \<Rightarrow> bool" where "pmd_none x \<longleftrightarrow> pmd_val x = 0"
definition pte_none :: "pte_t \<Rightarrow> bool" where "pte_none x \<longleftrightarrow> pte_val x = 0"

definition pgd_present :: "pgd_t \<Rightarrow> u64" where "pgd_present x = pgd_val x AND PAGE_PRESENT"
definition pud_present :: "pud_t \<Rightarrow> u64" where "pud_present x = pud_val x AND PAGE_PRESENT"
definition pmd_present :: "pmd_t \<Rightarrow> u64" where "pmd_present x = pmd_val x AND PAGE_PRESENT"

definition pgd_page_vaddr :: "pgd_t \<Rightarrow> u64" where
  "pgd_page_vaddr pgd = va (pgd_val pgd AND PTE_MASK)"

definition pud_page_vaddr :: "pud_t \<Rightarrow> u64" where
  "pud_page_vaddr pud = va (pud_val pud AND PHYSICAL_PAGE_MASK)"

definition pmd_page_vaddr :: "pmd_t \<Rightarrow> u64" where
  "pmd_page_vaddr pmd = va (pmd_val pmd AND PTE_MASK)"

definition pud_offset :: "cells \<Rightarrow> u64 \<Rightarrow> u64 \<Rightarrow> u64" where
  "pud_offset m pgd a = entry_ptr (pgd_page_vaddr (Pgd (m pgd))) (pud_index a)"

definition pmd_offset :: "cells \<Rightarrow> u64 \<Rightarrow> u64 \<Rightarrow> u64" where
  "pmd_offset m dir a = entry_ptr (pud_page_vaddr (Pud (m dir))) (pmd_index a)"

definition pte_offset_kernel :: "cells \<Rightarrow> u64 \<Rightarrow> u64 \<Rightarrow> u64" where
  "pte_offset_kernel m dir a = entry_ptr (pmd_page_vaddr (Pmd (m dir))) (pte_index a)"

definition pmd_pfn :: "pmd_t \<Rightarrow> u64" where
  "pmd_pfn x = drop_bit PAGE_SHIFT (pmd_val x AND PHYSICAL_MASK)"

definition pte_pfn :: "pte_t \<Rightarrow> u64" where
  "pte_pfn x = drop_bit PAGE_SHIFT (pte_val x AND PHYSICAL_MASK)"

subsection \<open>Attributes of a page-table entry\<close>

definition pte_dirty :: "pte_t \<Rightarrow> u64" where "pte_dirty e = pte_val e AND PAGE_DIRTY"
definition pte_young :: "pte_t \<Rightarrow> u64" where "pte_young e = pte_val e AND PAGE_ACCESSED"
definition pte_write :: "pte_t \<Rightarrow> u64" where "pte_write e = pte_val e AND PAGE_RW"
definition pte_user :: "pte_t \<Rightarrow> u64" where "pte_user e = pte_val e AND PAGE_USER"

definition pte_mkclean :: "pte_t \<Rightarrow> pte_t" where "pte_mkclean e = Pte (pte_val e AND NOT PAGE_DIRTY)"
definition pte_mkold :: "pte_t \<Rightarrow> pte_t" where "pte_mkold e = Pte (pte_val e AND NOT PAGE_ACCESSED)"
definition pte_wrprotect :: "pte_t \<Rightarrow> pte_t" where "pte_wrprotect e = Pte (pte_val e AND NOT PAGE_RW)"
definition pte_mkdirty :: "pte_t \<Rightarrow> pte_t" where "pte_mkdirty e = Pte (pte_val e OR PAGE_DIRTY)"
definition pte_mkyoung :: "pte_t \<Rightarrow> pte_t" where "pte_mkyoung e = Pte (pte_val e OR PAGE_ACCESSED)"
definition pte_mkwrite :: "pte_t \<Rightarrow> pte_t" where "pte_mkwrite e = Pte (pte_val e OR PAGE_RW)"

subsection \<open>Building the tables\<close>

record pt_state = mm_state +
  tables :: cells
  cpu_regs :: cpu
  swapper_pg_dir :: u64

text \<open>
  The entries for main memory. \<^verbatim>\<open>pmd + (l*PAGE_SIZE)\<close> is arithmetic on a pointer to 8-byte
  entries; \<^verbatim>\<open>__pa(pte) + (l*PAGE_SIZE)\<close> is arithmetic on a number.
\<close>

definition kernel_tables :: "u64 \<Rightarrow> u64 \<Rightarrow> u64 \<Rightarrow> u64 \<Rightarrow> u64 \<Rightarrow> u64 \<Rightarrow> u64 \<Rightarrow> cells \<Rightarrow> cells" where
  "kernel_tables pgd pud pmd pte pmd_count pte_count page_count m0 =
     (let page_attr = PAGE_RW + PAGE_PRESENT;
          m1 = fold (\<lambda>l. set_pgd (entry_ptr pgd (of_nat l)) (Pgd 0)) [0..<0x100] m0;
          m2 = set_pgd (entry_ptr pgd 0x100) (Pgd (pa pud + page_attr)) m1;
          m3 = fold (\<lambda>l. set_pgd (entry_ptr pgd (of_nat l)) (Pgd 0)) [0x101..<0x200] m2;
          m4 = fold (\<lambda>l. set_pud (entry_ptr pud (of_nat l))
                 (Pud (pa (entry_ptr pmd (of_nat l * PAGE_SIZE)) + page_attr))) [0..<unat pmd_count] m3;
          m5 = fold (\<lambda>l. set_pmd (entry_ptr pmd (of_nat l))
                 (Pmd (pa pte + of_nat l * PAGE_SIZE + page_attr))) [0..<unat pte_count] m4
      in fold (\<lambda>l. set_pte (entry_ptr pte (of_nat l))
                 (Pte (of_nat l * PAGE_SIZE + page_attr))) [0..<unat page_count] m5)"

text \<open>The entries for the registers of the interrupt controllers and the BIOS ROM.\<close>

definition reserved_tables :: "u64 \<Rightarrow> u64 \<Rightarrow> u64 \<Rightarrow> cells \<Rightarrow> cells" where
  "reserved_tables pud pmd_reserv pte_reserv m0 =
     (let page_attr = PAGE_PRESENT + PAGE_PCD;
          m1 = set_pud (entry_ptr pud 3) (Pud (pa pmd_reserv + page_attr)) m0;
          m2 = fold (\<lambda>l. set_pmd (entry_ptr pmd_reserv (of_nat l))
                 (Pmd (pa pte_reserv + of_nat l * PAGE_SIZE + page_attr))) [0..<10] m1
      in fold (\<lambda>l. set_pte (entry_ptr pte_reserv (of_nat l))
                 (Pte (0xFEC00000 + of_nat l * PAGE_SIZE + page_attr))) [0..<512 * 10] m2)"

text \<open>The new tables are loaded and no translation by the old ones is left.\<close>

definition load_tables :: "u64 \<Rightarrow> pt_state \<Rightarrow> pt_state" where
  "load_tables pgd s =
     (let cr3_val = pa pgd AND NOT (X86_CR3_PCD OR X86_CR3_PWT)
      in s\<lparr>cpu_regs := flush_tlb_all (flush_cache (write_cr3 cr3_val (cpu_regs s))), swapper_pg_dir := pgd\<rparr>)"

definition paging_init :: "u64 \<Rightarrow> pt_state \<Rightarrow> pt_state outcome" where
  "paging_init phy_mem_size s =
     (let pmd_count = (if phy_mem_size div 1024 = 0 then 1 else phy_mem_size div 1024);
          pte_count = phy_mem_size div 2;
          page_count = phy_mem_size * 256
      in if pte_count = 0 then halt
         else
           obind (alloc_bootmem 1 s) (\<lambda>(pgd, s1).
           obind (alloc_bootmem 1 s1) (\<lambda>(pud, s2).
           obind (alloc_bootmem pmd_count s2) (\<lambda>(pmd, s3).
           obind (alloc_bootmem pte_count s3) (\<lambda>(pte, s4).
           let s5 = say ''pgd=0x%x/pud=0x%x \<newline>pmd=0x%x/pte=0x%x\<newline>''
                      [ArgInt pgd, ArgInt pud, ArgInt pmd, ArgInt pte] s4;
               s6 = s5\<lparr>tables := kernel_tables pgd pud pmd pte pmd_count pte_count page_count (tables s5)\<rparr>
           in obind (alloc_bootmem 1 s6) (\<lambda>(pmd_reserv, s7).
              obind (alloc_bootmem 10 s7) (\<lambda>(pte_reserv, s8).
              let s9 = say ''pmd_reserv=0x%x/pte_reserv=0x%x\<newline>'' [ArgInt pmd_reserv, ArgInt pte_reserv]
                         (s8\<lparr>tables := reserved_tables pud pmd_reserv pte_reserv (tables s8)\<rparr>)
              in Done (load_tables pgd s9))))))))"

subsection \<open>The translation of the processor\<close>

definition canonical :: "u64 \<Rightarrow> bool" where
  "canonical a \<longleftrightarrow> drop_bit 47 a = 0 \<or> drop_bit 47 a = mask 17"

text \<open>
  The walk is written from the manual of the processor, in plain numbers and without the constants and
  macros of the code: four levels of 9 index bits each over a 12-bit offset; in an entry bit 0
  says present, bit 1 writable, bit 4 not cached and bit 7 large page, and bits 12 to 51 hold the
  frame. The memory is keyed by linear address, the physical one \<open>p\<close> being at
  \<open>0xFFFF800000000000 + p\<close>.
\<close>

definition frame_address :: "u64 \<Rightarrow> u64" where
  "frame_address e = push_bit 12 (take_bit 40 (drop_bit 12 e))"

definition index_field :: "nat \<Rightarrow> u64 \<Rightarrow> u64" where
  "index_field level a = take_bit 9 (drop_bit (12 + 9 * level) a)"

definition table_entry :: "cells \<Rightarrow> u64 \<Rightarrow> u64 \<Rightarrow> u64" where
  "table_entry m e i = m (0xFFFF800000000000 + (frame_address e + 8 * i))"

definition present :: "u64 \<Rightarrow> bool" where
  "present e \<longleftrightarrow> bit e 0"

definition small :: "u64 \<Rightarrow> bool" where
  "small e \<longleftrightarrow> \<not> bit e 7"

text \<open>
  The four-level walk for a linear address: the physical address, whether the page is
  writable and whether it is cached; \<open>None\<close> when the address is not canonical, an entry is
  not present, or a directory entry maps a large page.
\<close>

definition mmu_walk :: "cells \<Rightarrow> u64 \<Rightarrow> u64 \<Rightarrow> (u64 \<times> bool \<times> bool) option" where
  "mmu_walk m cr3v a =
     (let e4 = table_entry m cr3v (index_field 3 a);
          e3 = table_entry m e4 (index_field 2 a);
          e2 = table_entry m e3 (index_field 1 a);
          e1 = table_entry m e2 (index_field 0 a)
      in if canonical a \<and> present e4 \<and> present e3 \<and> small e3 \<and> present e2 \<and> small e2 \<and> present e1
         then Some (frame_address e1 + take_bit 12 a, (\<forall>e \<in> {e4, e3, e2, e1}. bit e 1), \<not> bit e1 4)
         else None)"

subsection \<open>Lemmas: words and indices\<close>

lemma PTE_MASK_mask: "PTE_MASK = NOT (mask 12)"
  by (simp add: kconst mask_eq_exp_minus_1)

lemma PHYSICAL_PAGE_MASK_mask: "PHYSICAL_PAGE_MASK = push_bit 12 (mask 28)"
  by (simp add: kconst mask_eq_exp_minus_1)

lemma PHYSICAL_PAGE_MASK_and: "x AND PHYSICAL_PAGE_MASK = push_bit 12 (take_bit 28 (drop_bit 12 x))"
  unfolding PHYSICAL_PAGE_MASK_mask by (rule bit_word_eqI) (auto simp: bit_simps)

lemma PTE_MASK_and: "x AND PTE_MASK = push_bit 12 (drop_bit 12 x)"
  unfolding PTE_MASK_mask by (rule bit_word_eqI) (auto simp: bit_simps)

text \<open>What the numbers of the walk are in terms of the macros of the code.\<close>

lemma walk_index:
  "index_field 3 a = pgd_index a" "index_field 2 a = pud_index a"
  "index_field 1 a = pmd_index a" "index_field 0 a = pte_index a"
  by (simp_all add: index_field_def pgd_index_def pud_index_def pmd_index_def pte_index_def kconst
      take_bit_eq_mask mask_eq_exp_minus_1)

lemma walk_offset: "take_bit 12 a = a AND (PAGE_SIZE - 1)"
  by (simp add: kconst take_bit_eq_mask mask_eq_exp_minus_1)

lemma bits_below_40: "e < 2 ^ 40 \<Longrightarrow> bit (e :: u64) n \<Longrightarrow> n < 40"
proof -
  assume "e < 2 ^ 40" "bit e n"
  then have "take_bit 40 e = e" unfolding take_bit_eq_mask by (intro less_mask_eq)
  then show "n < 40" using \<open>bit e n\<close> by (metis bit_take_bit_iff)
qed

lemma walk_frame:
  assumes "e < 2 ^ 40"
  shows "frame_address e = e AND PHYSICAL_PAGE_MASK"
proof -
  have "bit e n \<Longrightarrow> 12 \<le> n \<Longrightarrow> n - 12 < 28 \<and> n - 12 < 40" for n using bits_below_40 [OF assms, of n] by linarith
  then show ?thesis
    unfolding frame_address_def PHYSICAL_PAGE_MASK_and by (intro bit_word_eqI) (auto simp: bit_simps)
qed

lemma walk_bits:
  "present e \<longleftrightarrow> e AND PAGE_PRESENT \<noteq> 0" "small e \<longleftrightarrow> e AND PAGE_PSE = 0"
  "bit e 1 \<longleftrightarrow> e AND PAGE_RW \<noteq> 0" "bit e 4 \<longleftrightarrow> e AND PAGE_PCD \<noteq> 0"
  using and_exp_eq_0_iff_not_bit [of e 0] and_exp_eq_0_iff_not_bit [of e 7]
    and_exp_eq_0_iff_not_bit [of e 1] and_exp_eq_0_iff_not_bit [of e 4]
  by (auto simp: present_def small_def kconst)

text \<open>An entry: the frame number \<open>k\<close> and the attribute bits \<open>r\<close>.\<close>

definition entry :: "nat \<Rightarrow> nat \<Rightarrow> u64" where
  "entry k r = of_nat (4096 * k + r)"

lemma drop_bit_of_nat_u64: "n < 2 ^ 64 \<Longrightarrow> drop_bit k (of_nat n :: u64) = of_nat (n div 2 ^ k)"
  by (rule unsigned_word_eqI [where ?'a = nat])
    (simp add: unat_drop_bit_eq drop_bit_eq_div [of k n] order_le_less_trans [OF div_le_dividend])

lemma take_bit_of_nat_u64: "k \<le> 64 \<Longrightarrow> take_bit k (of_nat n :: u64) = of_nat (n mod 2 ^ k)"
  by (simp add: take_bit_of_nat flip: take_bit_eq_mod)

lemma entry_frame:
  assumes "k < 2 ^ 28" and "r < 4096"
  shows "entry k r AND PHYSICAL_PAGE_MASK = of_nat (4096 * k)"
    and "entry k r AND PTE_MASK = of_nat (4096 * k)"
proof -
  have "drop_bit 12 (entry k r) = of_nat k"
    using assms by (simp add: entry_def drop_bit_of_nat_u64 del: of_nat_add of_nat_mult)
  then show "entry k r AND PHYSICAL_PAGE_MASK = of_nat (4096 * k)"
    and "entry k r AND PTE_MASK = of_nat (4096 * k)"
    using assms by (simp_all add: PHYSICAL_PAGE_MASK_and PTE_MASK_and take_bit_of_nat push_bit_eq_mult
       take_bit_nat_eq_self)
qed

lemma entry_attr:
  assumes "r < 4096" and "c = take_bit 12 c"
  shows "entry k r AND c = of_nat r AND c"
proof -
  have "take_bit 12 (entry k r) = of_nat r"
    using assms(1) by (simp add: entry_def take_bit_of_nat_u64 del: of_nat_add of_nat_mult)
  moreover have "entry k r AND c = take_bit 12 (entry k r) AND c"
    by (subst assms(2), subst assms(2)) (auto intro!: bit_word_eqI simp: bit_simps)
  ultimately show ?thesis by simp
qed

lemma index_of_nat: "drop_bit n a AND (512 - 1) = (of_nat (unat a div 2 ^ n mod 512) :: u64)"
proof -
  have "drop_bit n a AND (512 - 1) = take_bit 9 (drop_bit n a)"
    by (simp add: take_bit_eq_mask mask_eq_exp_minus_1)
  also have "\<dots> = of_nat (unat a div 2 ^ n mod 512)"
    by (rule unsigned_word_eqI [where ?'a = nat])
     (simp add: unsigned_take_bit_eq unat_drop_bit_eq, simp add: take_bit_eq_mod drop_bit_eq_div)
  finally show ?thesis .
qed

definition lin :: "nat \<Rightarrow> u64" where "lin n = PAGE_OFFSET + of_nat n"

lemma unat_lin: "n < 2 ^ 47 \<Longrightarrow> unat (lin n) = 2 ^ 39 * 33554176 + n"
  unfolding lin_def by (subst unat_add_u64) (simp_all add: kconst)

lemma lin_index:
  assumes "p < 2 ^ 39"
  shows "pgd_index (lin p) = 0x100" and "pud_index (lin p) = of_nat (p div 2 ^ 30)"
    and "pmd_index (lin p) = of_nat (p div 2 ^ 21 mod 512)"
    and "pte_index (lin p) = of_nat (p div 2 ^ 12 mod 512)"
    and "lin p AND (PAGE_SIZE - 1) = of_nat (p mod 4096)" and "canonical (lin p)"
proof -
  have u: "unat (lin p) = 2 ^ 39 * 33554176 + p" using assms by (intro unat_lin) simp
  have div: "(2 ^ 39 * 33554176 + p) div 2 ^ n = 2 ^ (39 - n) * 33554176 + p div 2 ^ n" if "n \<le> 39" for n
  proof -
    have "(2::nat) ^ 39 = 2 ^ n * 2 ^ (39 - n)" using that by (simp flip: power_add)
    then show ?thesis by (simp only: mult.assoc) (rule div_mult_self4, simp)
  qed
  show "pgd_index (lin p) = 0x100"
    using assms unfolding pgd_index_def kconst index_of_nat u div [OF order_refl] by simp
  have idx: "unat (lin p) div 2 ^ n mod 512 = p div 2 ^ n mod 512" if "n \<le> 30" for n
  proof -
    have "(2::nat) ^ (39 - n) = 512 * 2 ^ (30 - n)"
      using that power_add [of "2::nat" 9 "30 - n"] by simp
    then have "(2 ^ (39 - n) * 33554176 + p div 2 ^ n) mod 512 = p div 2 ^ n mod 512"
      by (simp only: mult.assoc mod_mult_self4)
    then show ?thesis unfolding u using that by (subst div) simp_all
  qed
  have "p div 2 ^ 30 < 512" using assms by simp
  then show "pud_index (lin p) = of_nat (p div 2 ^ 30)"
    unfolding pud_index_def kconst index_of_nat by (subst idx) simp_all
  show "pmd_index (lin p) = of_nat (p div 2 ^ 21 mod 512)"
    unfolding pmd_index_def kconst index_of_nat by (subst idx) simp_all
  show "pte_index (lin p) = of_nat (p div 2 ^ 12 mod 512)"
    unfolding pte_index_def kconst index_of_nat by (subst idx) simp_all
  show "lin p AND (PAGE_SIZE - 1) = of_nat (p mod 4096)"
  proof -
    have "lin p AND (PAGE_SIZE - 1) = take_bit 12 (lin p)"
      by (simp add: kconst take_bit_eq_mask mask_eq_exp_minus_1)
    also have "\<dots> = of_nat (unat (lin p) mod 4096)"
      by (rule unsigned_word_eqI [where ?'a = nat])
        (simp add: unsigned_take_bit_eq, simp add: take_bit_eq_mod order_le_less_trans [OF mod_le_divisor])
    also have "unat (lin p) = 4096 * (2 ^ 27 * 33554176) + p" using u by simp
    also have "\<dots> mod 4096 = p mod 4096" by (rule mod_mult_self4)
    finally show ?thesis .
  qed
  show "canonical (lin p)"
  proof -
    have "unat (drop_bit 47 (lin p)) = 131071"
      using assms by (simp add: unat_drop_bit_eq u) (simp add: drop_bit_eq_div)
    then have "drop_bit 47 (lin p) = 131071"
      by (intro unsigned_word_eqI [where ?'a = nat]) simp
    then show ?thesis by (simp add: canonical_def mask_eq_exp_minus_1)
  qed
qed

subsection \<open>Lemmas: filling a table\<close>

lemma lin_inj: "n < 2 ^ 64 \<Longrightarrow> n' < 2 ^ 64 \<Longrightarrow> lin n = lin n' \<longleftrightarrow> n = n'"
  unfolding lin_def add_left_cancel by (metis unat_of_nat_u64)

lemma entry_ptr_lin: "entry_ptr (lin b) (of_nat k) = lin (b + 8 * k)"
  by (simp add: entry_ptr_def lin_def)

lemma cells_in:
  assumes "i \<le> k" "k < j" "b + 8 * j \<le> 2 ^ 64"
  shows "fold (\<lambda>l m. m(lin (b + 8 * l) := f l)) [i..<j] m (lin (b + 8 * k)) = f k"
  using assms by (induction j) (auto simp: lin_inj less_Suc_eq)

lemma cells_out:
  assumes "n < b + 8 * i \<or> b + 8 * j \<le> n" "n < 2 ^ 64" "b + 8 * j \<le> 2 ^ 64"
  shows "fold (\<lambda>l m. m(lin (b + 8 * l) := f l)) [i..<j] m (lin n) = m (lin n)"
  using assms by (induction j) (auto simp: lin_inj)

lemma entry_word: "k < 2 ^ 40 \<Longrightarrow> r < 4096 \<Longrightarrow> of_nat k * PAGE_SIZE + of_nat r = entry k r"
  by (simp add: entry_def kconst mult.commute)

lemma pa_lin [simp]: "pa (lin n) = of_nat n"
  by (simp add: pa_def lin_def)

lemmas set_entry_defs = set_pgd_def set_pud_def set_pmd_def set_pte_def

lemma kernel_tables_eq:
  fixes c :: nat
  assumes "c \<le> 512"
  shows "kernel_tables (lin gd) (lin ud) (lin md) (lin te) 1 (of_nat c) (of_nat (512 * c)) m0 =
    fold (\<lambda>l m. m(lin (te + 8 * l) := entry l 3)) [0..<512 * c]
      (fold (\<lambda>l m. m(lin (md + 8 * l) := of_nat te + entry l 3)) [0..<c]
        ((fold (\<lambda>l m. m(lin (gd + 8 * l) := 0)) [0x101..<0x200]
          ((fold (\<lambda>l m. m(lin (gd + 8 * l) := 0)) [0..<0x100] m0)
             (lin (gd + 8 * 0x100) := of_nat ud + 3)))
           (lin ud := of_nat md + 3)))"
proof -
  have e: "entry_ptr (lin gd) 0x100 = lin (gd + 8 * 0x100)"
    by (simp add: entry_ptr_def lin_def)
  have e3: "of_nat l * PAGE_SIZE + (PAGE_RW + PAGE_PRESENT) = entry l 3" for l
    by (simp add: entry_def kconst mult.commute)
  have u: "unat (of_nat c :: u64) = c" "unat (of_nat (512 * c) :: u64) = 512 * c"
    using assms by (simp_all del: of_nat_mult)
  have ud: "entry_ptr (lin ud) 0 = lin ud" "entry_ptr (lin md) 0 = lin md"
    by (simp_all add: entry_ptr_def)
  show ?thesis
    unfolding kernel_tables_def Let_def set_entry_defs u
    by (simp add: e e3 ud entry_ptr_lin add.assoc del: upt_conv_Cons of_nat_mult upt_rec_numeral)
     (simp add: kconst)
qed

lemma reserved_tables_eq:
  "reserved_tables (lin ud) (lin md) (lin te) m0 =
    fold (\<lambda>l m. m(lin (te + 8 * l) := entry (0xFEC00 + l) 0x11)) [0..<5120]
      (fold (\<lambda>l m. m(lin (md + 8 * l) := of_nat te + entry l 0x11)) [0..<10]
        (m0(lin (ud + 8 * 3) := of_nat md + 0x11)))"
proof -
  have e: "entry_ptr (lin ud) 3 = lin (ud + 8 * 3)"
    by (simp add: entry_ptr_def lin_def)
  have e3: "of_nat l * PAGE_SIZE + (PAGE_PRESENT + PAGE_PCD) = entry l 0x11"
    "0xFEC00000 + entry l 0x11 = entry (0xFEC00 + l) 0x11" for l
    by (simp_all add: entry_def kconst mult.commute)
  have n: "(512::nat) * 10 = 5120" by simp
  show ?thesis
    unfolding reserved_tables_def Let_def set_entry_defs n
    by (simp add: e e3 entry_ptr_lin add.assoc del: upt_conv_Cons upt_rec_numeral)
     (simp add: kconst)
qed

text \<open>
  The final contents of the tables: the bases are byte offsets in the linear mapping, in
  the order in which the boot memory was taken.
\<close>

lemma tables_at:
  fixes gd ud md te mr tr c :: nat and m0 :: cells
  assumes ord: "gd + 4096 \<le> ud" "ud + 4096 \<le> md" "md + 4096 \<le> te" "te + 4096 * c \<le> mr"
    "mr + 4096 \<le> tr" "tr + 40960 \<le> 2 ^ 64" and c: "1 \<le> c" "c \<le> 512"
  defines "m \<equiv> reserved_tables (lin ud) (lin mr) (lin tr)
    (kernel_tables (lin gd) (lin ud) (lin md) (lin te) 1 (of_nat c) (of_nat (512 * c)) m0)"
  shows "k < 512 \<Longrightarrow> k \<noteq> 0x100 \<Longrightarrow> m (lin (gd + 8 * k)) = 0"
    and "m (lin (gd + 8 * 0x100)) = of_nat ud + 3"
    and "m (lin ud) = of_nat md + 3"
    and "k < c \<Longrightarrow> m (lin (md + 8 * k)) = of_nat te + entry k 3"
    and "k < 512 * c \<Longrightarrow> m (lin (te + 8 * k)) = entry k 3"
    and "m (lin (ud + 8 * 3)) = of_nat mr + 0x11"
    and "k < 10 \<Longrightarrow> m (lin (mr + 8 * k)) = of_nat tr + entry k 0x11"
    and "k < 5120 \<Longrightarrow> m (lin (tr + 8 * k)) = entry (0xFEC00 + k) 0x11"
proof -
  note eqs = m_def kernel_tables_eq [OF c(2)] reserved_tables_eq
  show "m (lin (gd + 8 * k)) = 0" if "k < 512" "k \<noteq> 0x100"
  proof (cases "k < 0x100")
    case True
    then show ?thesis unfolding eqs using ord c
      by (simp add: cells_out cells_in lin_inj fun_upd_apply del: upt_conv_Cons upt_rec_numeral)
  next
    case False
    then show ?thesis unfolding eqs using ord c that
      by (simp add: cells_out cells_in lin_inj del: upt_conv_Cons upt_rec_numeral)
  qed
  show "m (lin (gd + 8 * 0x100)) = of_nat ud + 3"
    unfolding eqs using ord c
    by (simp add: cells_out lin_inj del: upt_conv_Cons upt_rec_numeral)
  show "m (lin ud) = of_nat md + 3"
    unfolding eqs using ord c
    by (simp add: cells_out lin_inj del: upt_conv_Cons upt_rec_numeral)
  show "m (lin (md + 8 * k)) = of_nat te + entry k 3" if "k < c"
    unfolding eqs using ord c that
    by (simp add: cells_out cells_in lin_inj del: upt_conv_Cons upt_rec_numeral)
  show "m (lin (te + 8 * k)) = entry k 3" if "k < 512 * c"
    unfolding eqs using ord c that
    by (simp add: cells_out cells_in lin_inj del: upt_conv_Cons upt_rec_numeral)
  show "m (lin (ud + 8 * 3)) = of_nat mr + 0x11"
    unfolding eqs using ord c
    by (simp add: cells_out lin_inj del: upt_conv_Cons upt_rec_numeral)
  show "m (lin (mr + 8 * k)) = of_nat tr + entry k 0x11" if "k < 10"
    unfolding eqs using ord c that
    by (simp add: cells_out cells_in lin_inj del: upt_conv_Cons upt_rec_numeral)
  show "m (lin (tr + 8 * k)) = entry (0xFEC00 + k) 0x11" if "k < 5120"
    unfolding eqs using ord c that
    by (simp add: cells_out cells_in lin_inj del: upt_conv_Cons upt_rec_numeral)
qed

subsection \<open>Lemmas: the walk over the tables\<close>

lemma entry_plus: "of_nat (4096 * t) + entry k r = entry (t + k) r"
  "of_nat (4096 * t) + 3 = entry t 3" "of_nat (4096 * t) + 0x11 = entry t 0x11"
  by (simp_all add: entry_def algebra_simps)

lemma frame_of_entry:
  assumes "k < 2 ^ 28" "r < 4096"
  shows "frame_address (entry k r) = of_nat (4096 * k)"
proof -
  have n: "4096 * k + r < 2 ^ 40" using assms by simp
  then have "unat (entry k r) = 4096 * k + r" unfolding entry_def by (intro unat_of_nat_u64) simp
  then have "entry k r < 2 ^ 40" using n by (simp add: word_less_nat_alt)
  then show ?thesis using entry_frame(1) [OF assms] by (simp add: walk_frame)
qed

lemma table_entry_lin:
  "k < 2 ^ 28 \<Longrightarrow> r < 4096 \<Longrightarrow> table_entry m (entry k r) (of_nat i) = m (lin (4096 * k + 8 * i))"
  by (simp add: table_entry_def frame_of_entry lin_def PAGE_OFFSET_def add_ac)

lemma attr_bits:
  "present (entry k 3)" "small (entry k 3)" "bit (entry k 3) 1" "\<not> bit (entry k 3) 4"
  "present (entry k 0x11)" "small (entry k 0x11)" "\<not> bit (entry k 0x11) 1" "bit (entry k 0x11) 4"
  by (simp_all only: walk_bits) (simp_all add: entry_attr kconst)

lemma mmu_walk_entries:
  assumes p: "p < 2 ^ 39" and k: "g < 2 ^ 28" "u < 2 ^ 28" "d < 2 ^ 28" "t < 2 ^ 28" "f < 2 ^ 28"
    and r: "r = 3 \<or> r = 0x11"
    and m: "m (lin (4096 * g + 8 * 0x100)) = entry u 3"
      "m (lin (4096 * u + 8 * (p div 2 ^ 30))) = entry d r"
      "m (lin (4096 * d + 8 * (p div 2 ^ 21 mod 512))) = entry t r"
      "m (lin (4096 * t + 8 * (p div 2 ^ 12 mod 512))) = entry f r"
  shows "mmu_walk m (entry g 0) (lin p) = Some (of_nat (4096 * f + p mod 4096), r = 3, r = 3)"
proof -
  have r4: "r < 4096" using r by auto
  have e4: "table_entry m (entry g 0) 0x100 = entry u 3"
    using table_entry_lin [OF k(1), of 0 m 256] m(1) by simp
  have e3: "table_entry m (entry u 3) (of_nat (p div 2 ^ 30)) = entry d r"
    and e2: "table_entry m (entry d r) (of_nat (p div 2 ^ 21 mod 512)) = entry t r"
    and e1: "table_entry m (entry t r) (of_nat (p div 2 ^ 12 mod 512)) = entry f r"
    using table_entry_lin [OF k(2), of 3] table_entry_lin [OF k(3) r4] table_entry_lin [OF k(4) r4] m(2-4)
    by simp_all
  show ?thesis
    unfolding mmu_walk_def Let_def walk_index walk_offset lin_index [OF p] e4 e3 e2 e1
    using r lin_index(6) [OF p] by (auto simp add: attr_bits attr_bits [unfolded One_nat_def] frame_of_entry [OF k(5)])
qed

lemma walk_memory:
  assumes m: "\<And>k. k < c \<Longrightarrow> m (lin (4096 * (b + 2) + 8 * k)) = entry (b + 3 + k) 3"
    "\<And>k. k < 512 * c \<Longrightarrow> m (lin (4096 * (b + 3) + 8 * k)) = entry k 3"
    "m (lin (4096 * b + 8 * 0x100)) = entry (b + 1) 3" "m (lin (4096 * (b + 1))) = entry (b + 2) 3"
    and b: "b < 2 ^ 27" and c: "c \<le> 512" and p: "p < 2 ^ 21 * c"
  shows "mmu_walk m (entry b 0) (lin p) = Some (of_nat p, True, True)"
proof -
  have q: "p div 2 ^ 21 < c" and p30: "p < 2 ^ 30" using p c by (simp_all add: div_less_iff_less_mult)
  then have p0: "p div 2 ^ 30 = 0" "p div 2 ^ 21 mod 512 = p div 2 ^ 21" using c by simp_all
  have pt: "512 * (p div 2 ^ 21) + p div 2 ^ 12 mod 512 = p div 2 ^ 12"
    using mult_div_mod_eq [of 512 "p div 2 ^ 12"] by (simp add: div_mult2_eq [symmetric])
  have "p div 2 ^ 12 < 512 * c" using p by (simp add: div_less_iff_less_mult)
  from m(2) [OF this] have leaf: "m (lin (4096 * (b + 3 + p div 2 ^ 21) + 8 * (p div 2 ^ 12 mod 512))) = entry (p div 2 ^ 12) 3"
    by (subst (asm) pt [symmetric]) (simp add: algebra_simps)
  have "mmu_walk m (entry b 0) (lin p) = Some (of_nat (4096 * (p div 2 ^ 12) + p mod 4096), (3::nat) = 3, (3::nat) = 3)"
    using b c q p30 p0 m(1) [OF q] m(3,4) leaf
    by (intro mmu_walk_entries [of p b "b + 1" "b + 2" "b + 3 + p div 2 ^ 21"]) simp_all
  also have "4096 * (p div 2 ^ 12) + p mod 4096 = p" using mult_div_mod_eq [of 4096 p] by simp
  finally show ?thesis by simp
qed

lemma walk_reserved:
  assumes m: "\<And>k. k < 10 \<Longrightarrow> m (lin (4096 * d + 8 * k)) = entry (d + 1 + k) 0x11"
    "\<And>k. k < 5120 \<Longrightarrow> m (lin (4096 * (d + 1) + 8 * k)) = entry (0xFEC00 + k) 0x11"
    "m (lin (4096 * b + 8 * 0x100)) = entry (b + 1) 3"
    "m (lin (4096 * (b + 1) + 8 * 3)) = entry d 0x11"
    and b: "b < 2 ^ 27" "d < 2 ^ 27" and x: "x < 2 ^ 21 * 10"
  shows "mmu_walk m (entry b 0) (lin (3 * 2 ^ 30 + x)) = Some (of_nat (0xFEC00000 + x), False, False)"
proof -
  let ?p = "3 * 2 ^ 30 + x"
  have p: "?p < 2 ^ 39" "?p div 2 ^ 30 = 3" using x by simp_all
  have q: "x div 2 ^ 21 < 10" using x by (simp add: div_less_iff_less_mult)
  have "?p div 2 ^ 21 = 512 * 3 + x div 2 ^ 21" "?p div 2 ^ 12 = 512 * 1536 + x div 2 ^ 12"
    using div_mult_self4 [of "2 ^ 21" "512 * 3" x] div_mult_self4 [of "2 ^ 12" "512 * 1536" x] by simp_all
  then have i: "?p div 2 ^ 21 mod 512 = x div 2 ^ 21" "?p div 2 ^ 12 mod 512 = x div 2 ^ 12 mod 512"
    using q by (simp_all only: mod_mult_self4) simp
  have o: "?p mod 4096 = x mod 4096"
    using mod_mult_self4 [of 4096 "3 * 2 ^ 18" x] by simp
  have pt: "512 * (x div 2 ^ 21) + x div 2 ^ 12 mod 512 = x div 2 ^ 12"
    using mult_div_mod_eq [of 512 "x div 2 ^ 12"] by (simp add: div_mult2_eq [symmetric])
  have "x div 2 ^ 12 < 5120" using x by (simp add: div_less_iff_less_mult)
  from m(2) [OF this] have leaf: "m (lin (4096 * (d + 1 + x div 2 ^ 21) + 8 * (x div 2 ^ 12 mod 512))) = entry (0xFEC00 + x div 2 ^ 12) 0x11"
    by (subst (asm) (1) pt [symmetric]) (simp add: algebra_simps)
  have "mmu_walk m (entry b 0) (lin ?p) =
    Some (of_nat (4096 * (0xFEC00 + x div 2 ^ 12) + ?p mod 4096), (17::nat) = 3, (17::nat) = 3)"
  proof (rule mmu_walk_entries)
    show "m (lin (4096 * (b + 1) + 8 * (?p div 2 ^ 30))) = entry d 17" using m(4) p by simp
    show "m (lin (4096 * d + 8 * (?p div 2 ^ 21 mod 512))) = entry (d + 1 + x div 2 ^ 21) 17"
      unfolding i by (rule m(1) [OF q])
    show "m (lin (4096 * (d + 1 + x div 2 ^ 21) + 8 * (?p div 2 ^ 12 mod 512))) = entry (0xFEC00 + x div 2 ^ 12) 17"
      unfolding i by (rule leaf)
  qed (use b m(3) p(1) q \<open>x div 2 ^ 12 < 5120\<close> in simp_all)
  also have "4096 * (0xFEC00 + x div 2 ^ 12) + ?p mod 4096 = 0xFEC00000 + x"
    unfolding o using mult_div_mod_eq [of 4096 x] by simp
  finally show ?thesis by simp
qed

lemma walk_elsewhere:
  assumes "\<And>k. k < 512 \<Longrightarrow> k \<noteq> 0x100 \<Longrightarrow> m (lin (4096 * b + 8 * k)) = 0"
    and "b < 2 ^ 28" and "pgd_index a \<noteq> 0x100"
  shows "mmu_walk m (entry b 0) a = None"
proof -
  obtain k where k: "k < 512" "pgd_index a = of_nat k"
    by (metis pgd_index_def PTRS_PER_TABLE_def index_of_nat mod_less_divisor zero_less_numeral)
  then have "k \<noteq> 0x100" using assms(3) by auto
  then have "table_entry m (entry b 0) (pgd_index a) = 0"
    using table_entry_lin [of b 0 m k] assms(1,2) k by simp
  then show ?thesis by (simp add: mmu_walk_def Let_def present_def walk_index)
qed

subsection \<open>Lemmas: \<^verbatim>\<open>paging_init\<close>\<close>

lemma alloc_bootmem_lin:
  assumes "bootmem_page_index s = of_nat i" "i + n < unat (bootmem_page_max s)"
  shows "alloc_bootmem (of_nat n) s = Done (lin (4096 * i), s\<lparr>bootmem_page_index := of_nat (i + n)\<rparr>)"
proof -
  have "i + n < 18446744073709551616" using assms(2) unat_u64_less [of "bootmem_page_max s"] by linarith
  then have "unat (of_nat (i + n) :: u64) = i + n" by (simp del: of_nat_add)
  then have "\<not> bootmem_page_max s \<le> bootmem_page_index s + of_nat n"
    using assms by (simp add: word_le_nat_alt)
  moreover have "va (push_bit PAGE_SHIFT (of_nat i)) = lin (4096 * i)"
    by (simp add: va_def lin_def kconst push_bit_eq_mult)
  ultimately show ?thesis using assms(1) by (simp add: alloc_bootmem_def Let_def)
qed

lemma cr3_value: "of_nat (4096 * b) AND NOT (X86_CR3_PCD OR X86_CR3_PWT) = entry b 0"
proof -
  have "entry b 0 AND (X86_CR3_PCD OR X86_CR3_PWT) = 0"
    by (simp add: entry_attr kconst)
  then have "entry b 0 AND NOT (X86_CR3_PCD OR X86_CR3_PWT) = entry b 0"
    by (simp add: bit_eq_iff bit_simps) blast
  then show ?thesis by (simp add: entry_def)
qed

lemma paging_init_done:
  assumes b: "bootmem_page_index s = of_nat b" "b + 14 + c < unat (bootmem_page_max s)"
    and c: "1 \<le> c" "c \<le> 512"
  shows "\<exists>s'. paging_init (of_nat (2 * c)) s = Done s' \<and>
     tables s' = reserved_tables (lin (4096 * (b + 1))) (lin (4096 * (b + 3 + c))) (lin (4096 * (b + 4 + c)))
           (kernel_tables (lin (4096 * b)) (lin (4096 * (b + 1))) (lin (4096 * (b + 2))) (lin (4096 * (b + 3)))
              1 (of_nat c) (of_nat (512 * c)) (tables s)) \<and>
     cpu_regs s' = (cpu_regs s)\<lparr>cr3 := entry b 0, tlb := [], cache_flushes := Suc (cache_flushes (cpu_regs s))\<rparr> \<and>
     swapper_pg_dir s' = lin (4096 * b) \<and> bootmem_page_index s' = of_nat (b + 14 + c) \<and>
     bootmem_page_start s' = bootmem_page_start s \<and> bootmem_page_max s' = bootmem_page_max s \<and>
     contig_page_data s' = contig_page_data s"
proof -
  have u: "unat (of_nat (2 * c) :: u64) = 2 * c" and uc: "unat (of_nat c :: u64) = c"
    using c by (simp_all del: of_nat_mult)
  have "unat ((of_nat (2 * c) :: u64) div 1024) = 2 * c div 1024"
    by (simp add: unat_div u del: of_nat_mult)
  moreover have "2 * c div 1024 = 0 \<or> 2 * c div 1024 = 1" using c by linarith
  ultimately have "(of_nat (2 * c) :: u64) div 1024 = 0 \<or> (of_nat (2 * c) :: u64) div 1024 = 1"
    by (metis unsigned_0 unsigned_1 unsigned_word_eqI)
  then have "(if (of_nat (2 * c) :: u64) div 1024 = 0 then 1 else of_nat (2 * c) div 1024) = (1 :: u64)"
    by auto
  moreover have "(of_nat (2 * c) :: u64) div 2 = of_nat c"
    using c by (auto intro!: unsigned_word_eqI [where ?'a = nat] simp: unat_div u simp del: of_nat_mult)
  moreover have "(of_nat (2 * c) :: u64) * 256 = of_nat (512 * c)" by simp
  moreover have "(of_nat c :: u64) \<noteq> 0" using c uc by (metis unsigned_0 not_one_le_zero)
  moreover
  have a: "alloc_bootmem (of_nat n) t = Done (lin (4096 * i), t\<lparr>bootmem_page_index := of_nat (i + n)\<rparr>)"
    if "bootmem_page_index t = of_nat i" "bootmem_page_max t = bootmem_page_max s" "i + n \<le> b + 14 + c"
    for t :: pt_state and i n
    using that b by (intro alloc_bootmem_lin) simp_all
  define b1 b2 b3 b4 b5 where bs: "b1 = b + 1" "b2 = b + 2" "b3 = b + 3" "b4 = b3 + c" "b5 = b + 4 + c"
  have al: "bootmem_page_max t = bootmem_page_max s \<Longrightarrow>
      (bootmem_page_index t = of_nat b \<longrightarrow> alloc_bootmem 1 t = Done (lin (4096 * b), t\<lparr>bootmem_page_index := of_nat b1\<rparr>)) \<and>
      (bootmem_page_index t = of_nat b1 \<longrightarrow> alloc_bootmem 1 t = Done (lin (4096 * b1), t\<lparr>bootmem_page_index := of_nat b2\<rparr>)) \<and>
      (bootmem_page_index t = of_nat b2 \<longrightarrow> alloc_bootmem 1 t = Done (lin (4096 * b2), t\<lparr>bootmem_page_index := of_nat b3\<rparr>)) \<and>
      (bootmem_page_index t = of_nat b3 \<longrightarrow> alloc_bootmem (of_nat c) t = Done (lin (4096 * b3), t\<lparr>bootmem_page_index := of_nat b4\<rparr>)) \<and>
      (bootmem_page_index t = of_nat b4 \<longrightarrow> alloc_bootmem 1 t = Done (lin (4096 * b4), t\<lparr>bootmem_page_index := of_nat b5\<rparr>)) \<and>
      (bootmem_page_index t = of_nat b5 \<longrightarrow> alloc_bootmem 10 t = Done (lin (4096 * b5), t\<lparr>bootmem_page_index := of_nat (b + 14 + c)\<rparr>))"
    for t :: pt_state
    using a [of t b 1] a [of t b1 1] a [of t b2 1] a [of t b3 c] a [of t b4 1] a [of t b5 10]
    by (simp add: bs add_ac)
  ultimately show ?thesis
    using b unfolding bs [symmetric]
    by (simp add: paging_init_def load_tables_def Let_def say_def load_cr3_flush_all cr3_value al
        del: obind_eq_Done_iff bit.de_Morgan_disj of_nat_add of_nat_mult of_nat_Suc)
qed

text \<open>Where the tables lie that hang below the top-level table in frame \<open>b\<close>, by their entries.\<close>

definition tables_laid :: "cells \<Rightarrow> nat \<Rightarrow> nat \<Rightarrow> bool" where
  "tables_laid m b c \<longleftrightarrow>
     m (lin (4096 * b + 8 * 0x100)) = entry (b + 1) 3 \<and> m (lin (4096 * (b + 1))) = entry (b + 2) 3 \<and>
     (\<forall>k<c. m (lin (4096 * (b + 2) + 8 * k)) = entry (b + 3 + k) 3) \<and>
     m (lin (4096 * (b + 1) + 8 * 3)) = entry (b + 3 + c) 0x11 \<and>
     (\<forall>k<10. m (lin (4096 * (b + 3 + c) + 8 * k)) = entry (b + 4 + c + k) 0x11)"

lemma paging_init_laid:
  assumes "bootmem_page_index s = of_nat b" "b + 14 + c < unat (bootmem_page_max s)" "1 \<le> c" "c \<le> 512" "b < 2 ^ 20"
    and "paging_init (of_nat (2 * c)) s = Done s'"
  shows "tables_laid (tables s') b c"
proof -
  have t: "tables s' = reserved_tables (lin (4096 * (b + 1))) (lin (4096 * (b + 3 + c))) (lin (4096 * (b + 4 + c)))
           (kernel_tables (lin (4096 * b)) (lin (4096 * (b + 1))) (lin (4096 * (b + 2))) (lin (4096 * (b + 3)))
              1 (of_nat c) (of_nat (512 * c)) (tables s))"
    using paging_init_done [OF assms(1-4)] assms(6) by auto
  have "4096 * b + 4096 \<le> 4096 * (b + 1)" "4096 * (b + 1) + 4096 \<le> 4096 * (b + 2)"
    "4096 * (b + 2) + 4096 \<le> 4096 * (b + 3)" "4096 * (b + 3) + 4096 * c \<le> 4096 * (b + 3 + c)"
    "4096 * (b + 3 + c) + 4096 \<le> 4096 * (b + 4 + c)" "4096 * (b + 4 + c) + 40960 \<le> 2 ^ 64"
    using assms(4,5) by simp_all
  note at = tables_at [OF this assms(3,4), where ?m0.0 = "tables s", folded t, unfolded entry_plus]
  show ?thesis unfolding tables_laid_def using at(2-4,6,7) by simp
qed

text \<open>
  C9 (\<^verbatim>\<open>paging_init\<close>, the kernel address space). For an even memory size of 2 to 1024 megabytes
  and enough boot memory for the tables (half the number of megabytes and 14 pages more), building the tables succeeds and leaves no stale cached
  translation. Under the new tables every byte of main memory is mapped, writable and cached,
  at \<^verbatim>\<open>PAGE_OFFSET\<close> plus its physical address; the 20 megabytes from \<^verbatim>\<open>0xFEC00000\<close>, with the
  interrupt controllers, are mapped read-only and uncached at \<^verbatim>\<open>0xFFFF8000C0000000\<close>; and no
  address outside the 512 gigabytes of the kernel's slot of the top-level table is mapped.
\<close>

theorem paging_init_maps:
  assumes M: "even (unat M)" "2 \<le> unat M" "unat M \<le> 1024"
    and boot: "unat (bootmem_page_index s) + unat M div 2 + 14 < unat (bootmem_page_max s)"
      "unat (bootmem_page_max s) \<le> 2 ^ 27"
  shows "\<exists>s'. paging_init M s = Done s' \<and> tlb (cpu_regs s') = [] \<and>
    (\<forall>p. unat p < 2 ^ 20 * unat M \<longrightarrow>
       mmu_walk (tables s') (cr3 (cpu_regs s')) (0xFFFF800000000000 + p) = Some (p, True, True)) \<and>
    (\<forall>x. unat x < 20 * 2 ^ 20 \<longrightarrow>
       mmu_walk (tables s') (cr3 (cpu_regs s')) (0xFFFF8000C0000000 + x) = Some (0xFEC00000 + x, False, False)) \<and>
    (\<forall>a. drop_bit 39 a AND 0x1FF \<noteq> 0x100 \<longrightarrow> mmu_walk (tables s') (cr3 (cpu_regs s')) a = None)"
proof -
  define b where "b = unat (bootmem_page_index s)"
  define c where "c = unat M div 2"
  have c: "1 \<le> c" "c \<le> 512" "unat M = 2 * c" using M by (auto simp: c_def)
  have "M = of_nat (2 * c)" using c(3) by (metis of_nat_unat ucast_id)
  moreover have "bootmem_page_index s = of_nat b" by (simp add: b_def)
  moreover have bm: "b + 14 + c < unat (bootmem_page_max s)" using boot by (simp add: b_def c_def)
  ultimately obtain s' where s': "paging_init M s = Done s'" "tlb (cpu_regs s') = []"
    "cr3 (cpu_regs s') = entry b 0"
    "tables s' = reserved_tables (lin (4096 * (b + 1))) (lin (4096 * (b + 3 + c))) (lin (4096 * (b + 4 + c)))
           (kernel_tables (lin (4096 * b)) (lin (4096 * (b + 1))) (lin (4096 * (b + 2))) (lin (4096 * (b + 3)))
              1 (of_nat c) (of_nat (512 * c)) (tables s))"
    using paging_init_done [of s b c] c by auto
  have b: "b + 4 + c < 2 ^ 27" using bm boot(2) by linarith
  have "4096 * b + 4096 \<le> 4096 * (b + 1)" "4096 * (b + 1) + 4096 \<le> 4096 * (b + 2)"
    "4096 * (b + 2) + 4096 \<le> 4096 * (b + 3)" "4096 * (b + 3) + 4096 * c \<le> 4096 * (b + 3 + c)"
    "4096 * (b + 3 + c) + 4096 \<le> 4096 * (b + 4 + c)" "4096 * (b + 4 + c) + 40960 \<le> 2 ^ 64"
    using b by simp_all
  note at = tables_at [OF this c(1,2), where ?m0.0 = "tables s", folded s'(4), unfolded entry_plus]
  have "mmu_walk (tables s') (entry b 0) (PAGE_OFFSET + p) = Some (p, True, True)"
    if "unat p < 2 ^ 20 * unat M" for p
    using walk_memory [of c "tables s'" b "unat p"] at(2-5) that b c by (simp add: lin_def)
  moreover have "mmu_walk (tables s') (entry b 0) (0xFFFF8000C0000000 + x) = Some (0xFEC00000 + x, False, False)"
    if "unat x < 20 * 2 ^ 20" for x
    using walk_reserved [of "tables s'" "b + 3 + c" b "unat x"] at(7,8,2,6) that b
    by (simp add: lin_def kconst add_ac)
  moreover have "mmu_walk (tables s') (entry b 0) a = None" if "drop_bit 39 a AND 0x1FF \<noteq> 0x100" for a
    using that walk_elsewhere [of "tables s'" b a] at(1) b by (simp add: pgd_index_def kconst)
  ultimately show ?thesis using s'(1-3) by (auto simp: PAGE_OFFSET_def)
qed

definition boot_pt :: pt_state where
  "boot_pt =
     \<lparr>bootmem_page_start = 0x200, bootmem_page_index = 0x280, bootmem_page_max = 0x7ff,
      mem_map_base = 0, mem_map = [],
      contig_page_data = \<lparr>node_zones = [], nr_zones = 0, node_mem_map = 0, node_start_paddr = 0,
        node_size = 0, node_id = 0, node_next = None\<rparr>,
      lists = (\<lambda>_. \<lparr>lh_next = 0, lh_prev = 0\<rparr>), klog = [],
      tables = (\<lambda>_. - 1),
      cpu_regs = \<lparr>cr0 = 0x80000001, cr2 = 0, cr3 = 0x101000, cr4 = 0xA0, cr8 = 0, intr_flag = False,
        tlb = [(0, 0, True), (PAGE_OFFSET, 0, False)], cache_flushes = 0\<rparr>,
      swapper_pg_dir = 0\<rparr>"

theorem paging_init_maps_witness:
  "\<exists>s'. paging_init 128 boot_pt = Done s' \<and> tlb (cpu_regs s') = [] \<and>
    mmu_walk (tables s') (cr3 (cpu_regs s')) 0xFFFF800007FFFFFF = Some (0x7ffffff, True, True) \<and>
    mmu_walk (tables s') (cr3 (cpu_regs s')) 0xFFFF8000C0200010 = Some (0xFEE00010, False, False) \<and>
    mmu_walk (tables s') (cr3 (cpu_regs s')) 0x100000 = None"
proof -
  obtain s' where s': "paging_init 128 boot_pt = Done s'" "tlb (cpu_regs s') = []"
    and p: "unat p < 2 ^ 20 * 128 \<Longrightarrow>
       mmu_walk (tables s') (cr3 (cpu_regs s')) (0xFFFF800000000000 + p) = Some (p, True, True)"
    and x: "unat x < 20 * 2 ^ 20 \<Longrightarrow>
       mmu_walk (tables s') (cr3 (cpu_regs s')) (0xFFFF8000C0000000 + x) = Some (0xFEC00000 + x, False, False)"
    and a: "drop_bit 39 a AND 0x1FF \<noteq> 0x100 \<Longrightarrow> mmu_walk (tables s') (cr3 (cpu_regs s')) a = None" for p x a
    using paging_init_maps [of 128 boot_pt] by (auto simp: boot_pt_def)
  show ?thesis
    using s' p [of "0x7ffffff"] x [of "0x200010"] a [of "0x100000"] by simp
qed

lemma add_low_bits: "push_bit 12 y + take_bit 12 (a :: u64) = push_bit 12 y OR take_bit 12 a"
  by (rule disjunctive_add) (auto simp: bit_simps)

lemma PTE_MASK_frame: "m < 2 ^ 40 \<Longrightarrow> m AND PTE_MASK = m AND PHYSICAL_PAGE_MASK" for m :: u64
proof -
  assume "m < 2 ^ 40"
  then have "take_bit 40 m = m" unfolding take_bit_eq_mask by (rule less_mask_eq)
  then show ?thesis by (simp add: PTE_MASK_and PHYSICAL_PAGE_MASK_and take_bit_drop_bit)
qed

text \<open>
  C32 (macros of \<^verbatim>\<open>pgtable.h\<close> and the processor). In a memory whose cells hold 40-bit values,
  following \<^verbatim>\<open>pud_offset\<close>, \<^verbatim>\<open>pmd_offset\<close> and \<^verbatim>\<open>pte_offset_kernel\<close> from the entry of the top-level table
  that \<^verbatim>\<open>pgd_index\<close> selects meets present entries and ends at the entry the processor uses for the
  address: its \<^verbatim>\<open>pte_pfn\<close> is the frame the address translates to, and where the walk allows writing,
  \<^verbatim>\<open>pte_write\<close> is not zero. The walk is written without the macros, so a wrong shift, table size,
  mask or flag in one of them makes this false.
\<close>

theorem table_macros_follow_walk:
  assumes walk: "mmu_walk m cr3v a = Some (p, w, cached)" and small: "\<forall>x. m x < 2 ^ 40"
    and ptrs: "pgd = entry_ptr (va (frame_address cr3v)) (pgd_index a)"
      "pud = pud_offset m pgd a" "pmd = pmd_offset m pud a" "pte = pte_offset_kernel m pmd a"
  shows "pgd_present (Pgd (m pgd)) \<noteq> 0 \<and> pud_present (Pud (m pud)) \<noteq> 0 \<and> pmd_present (Pmd (m pmd)) \<noteq> 0 \<and>
    pte_pfn (Pte (m pte)) = drop_bit 12 p \<and> (w \<longrightarrow> pte_write (Pte (m pte)) \<noteq> 0)"
proof -
  have e: "table_entry m cr3v (pgd_index a) = m pgd" "table_entry m (m pgd) (pud_index a) = m pud"
    "table_entry m (m pud) (pmd_index a) = m pmd" "table_entry m (m pmd) (pte_index a) = m pte"
    using small
    by (simp_all add: ptrs table_entry_def walk_frame entry_ptr_def pud_offset_def pmd_offset_def pte_offset_kernel_def
        pgd_page_vaddr_def pud_page_vaddr_def pmd_page_vaddr_def PTE_MASK_frame va_def PAGE_OFFSET_def add_ac)
  have pr: "present (m pgd)" "present (m pud)" "present (m pmd)"
    and p: "p = (m pte AND PHYSICAL_PAGE_MASK) + take_bit 12 a"
    and w: "w \<longrightarrow> bit (m pte) 1"
    using walk small unfolding mmu_walk_def Let_def walk_index e
    by (auto simp: walk_frame split: if_splits)
  have "drop_bit 12 p = take_bit 28 (drop_bit 12 (m pte))"
    unfolding p PHYSICAL_PAGE_MASK_and add_low_bits
    by (auto intro!: bit_word_eqI simp: bit_simps)
  moreover
  have mask: "PHYSICAL_MASK = mask 40" by (simp add: kconst mask_eq_exp_minus_1)
  have "pte_pfn (Pte (m pte)) = take_bit 28 (drop_bit 12 (m pte))"
    unfolding pte_pfn_def PAGE_SHIFT_def mask by (auto intro!: bit_word_eqI simp: bit_simps)
  ultimately show ?thesis
    using pr w by (simp add: pgd_present_def pud_present_def pmd_present_def pte_write_def walk_bits walk_bits [unfolded One_nat_def])
qed

theorem table_macros_follow_walk_witness:
  "mmu_walk (\<lambda>_. 0x5003) 0x5000 0xFFFF800000000123 = Some (0x5123, True, True) \<and>
   pte_pfn (Pte 0x5003) = 5 \<and> pte_write (Pte 0x5003) \<noteq> 0"
proof -
  have w: "mmu_walk (\<lambda>_. 0x5003) 0x5000 0xFFFF800000000123 = Some (0x5123, True, True)"
    by (simp add: mmu_walk_def Let_def table_entry_def frame_address_def canonical_def present_def small_def
        mask_eq_exp_minus_1)
  then show ?thesis
    using table_macros_follow_walk [OF w _ refl refl refl refl] by simp
qed

text \<open>The attribute functions change the bit they are named after, and not the frame.\<close>

lemma pte_attributes:
  "pte_dirty (pte_mkdirty e) \<noteq> 0" "pte_dirty (pte_mkclean e) = 0"
  "pte_young (pte_mkyoung e) \<noteq> 0" "pte_young (pte_mkold e) = 0"
  "pte_write (pte_mkwrite e) \<noteq> 0" "pte_write (pte_wrprotect e) = 0"
  by (simp_all add: pte_dirty_def pte_mkdirty_def pte_mkclean_def pte_young_def pte_mkyoung_def pte_mkold_def
      pte_write_def pte_mkwrite_def pte_wrprotect_def and.assoc bit.conj_disj_distrib2 kconst)

end
