(* ===== verification/Descriptors.thy ===== *)
theory Descriptors
  imports Paging
begin

text \<open>
  The descriptor tables: \<^verbatim>\<open>gdt.c\<close>, \<^verbatim>\<open>idt.c\<close> and the gates that \<^verbatim>\<open>irq_init\<close> of \<^verbatim>\<open>irq_handler.c\<close>
  declares. The tables are arrays in pages of boot memory, which come with arbitrary contents.
  The addresses of the assembly entry points are a parameter \<open>isr\<close>.
\<close>

subsection \<open>State\<close>

record gdt_desc =
  gd_l :: u32
  gd_h :: u32

record idt_desc =
  offset0_15 :: u16
  selector :: u16
  gate_type :: u16
  offset16_31 :: u16
  offset32_63 :: u32
  gate_reserved :: u32

text \<open>A loaded table register: \<^verbatim>\<open>gdt_desc_ptr\<close> and \<^verbatim>\<open>idt_desc_ptr\<close>.\<close>

record desc_ptr =
  limit :: u16
  address :: u64

record desc_state = pt_state +
  gdt_table :: "gdt_desc list"
  idt_table :: "idt_desc list"
  gdtr :: desc_ptr
  idtr :: desc_ptr
  task_register :: u16
  data_segments :: u64
  tss :: u64

definition KERNEL_CS64 :: u16 where [kconst]: "KERNEL_CS64 = 0x18"
definition KERNEL_DS64 :: u64 where [kconst]: "KERNEL_DS64 = 0x20"
definition DESTYPE_INT :: u16 where [kconst]: "DESTYPE_INT = 0x8e00"
definition DESTYPE_TRAP :: u16 where [kconst]: "DESTYPE_TRAP = 0x8f00"
definition DESTYPE_SYS :: u16 where [kconst]: "DESTYPE_SYS = 0xef00"
definition IDT_SIZE :: nat where [kconst]: "IDT_SIZE = 256"
definition VECTOR_BASE :: nat where [kconst]: "VECTOR_BASE = 0x20"

definition IRQ_TO_VECTOR :: "nat \<Rightarrow> nat" where
  "IRQ_TO_VECTOR num = num + VECTOR_BASE"

text \<open>\<^verbatim>\<open>caos_memset(p, 0, PAGE_SIZE)\<close> on a page, by 64-bit cells.\<close>

definition clear_page :: "u64 \<Rightarrow> cells \<Rightarrow> cells" where
  "clear_page p m = fold (\<lambda>l m. m(p + 8 * of_nat l := 0)) [0..<512] m"

subsection \<open>The global descriptor table\<close>

definition load_segments :: "desc_state \<Rightarrow> desc_state" where
  "load_segments s = s\<lparr>data_segments := KERNEL_DS64\<rparr>"

definition set_gdt :: "u64 \<Rightarrow> u16 \<Rightarrow> desc_state \<Rightarrow> desc_state" where
  "set_gdt newgdt lim s = load_segments (s\<lparr>gdtr := \<lparr>limit = lim, address = newgdt\<rparr>\<rparr>)"

definition gdt_entry :: "u32 \<Rightarrow> u32 \<Rightarrow> u64 \<Rightarrow> gdt_desc" where
  "gdt_entry addr offset type =
     \<lparr>gd_l = (offset AND 0xffff) OR push_bit 16 (addr AND 0xffff),
      gd_h = (addr AND 0xff000000) OR (drop_bit 16 addr AND 0xff) OR (offset AND 0xf0000) OR
        ucast (push_bit 12 type AND 0xf00000) OR ucast (push_bit 8 type AND 0xff00)\<rparr>"

definition set_gdt_desc :: "nat \<Rightarrow> u32 \<Rightarrow> u32 \<Rightarrow> u64 \<Rightarrow> desc_state \<Rightarrow> desc_state outcome" where
  "set_gdt_desc num addr offset type s =
     obind (aput (gdt_table s) num (gdt_entry addr offset type)) (\<lambda>t. Done (s\<lparr>gdt_table := t\<rparr>))"

definition set_tss :: "nat \<Rightarrow> desc_state \<Rightarrow> desc_state outcome" where
  "set_tss num s =
     obind (alloc_bootmem 1 s) (\<lambda>(addr, s1).
     obind (set_gdt_desc num (ucast (addr AND 0xFFFFFFFF)) 104 0x89 s1) (\<lambda>s2.
     obind (aget (gdt_table s2) (num + 1)) (\<lambda>d.
     obind (aput (gdt_table s2) (num + 1) (d\<lparr>gd_l := ucast (drop_bit 32 addr AND 0xFFFFFFFF)\<rparr>)) (\<lambda>t.
     let s3 = say ''TSS address=%x\<newline>'' [ArgInt addr] (s2\<lparr>gdt_table := t\<rparr>)
     in Done (s3\<lparr>tables := clear_page addr (tables s3), task_register := ucast (of_nat num :: u64) * 8,
                 tss := addr\<rparr>)))))"

text \<open>
  The descriptors of the boot loader are copied up to the first zero one. The copy has room
  for the 512 descriptors of its page.
\<close>

function copy_gdt :: "(nat \<Rightarrow> u64) \<Rightarrow> nat \<Rightarrow> gdt_desc list \<Rightarrow> gdt_desc list outcome" where
  "copy_gdt boot i t =
     (if boot i = 0 then Done t
      else if length t \<le> i then Fault
      else copy_gdt boot (Suc i) (t[i := \<lparr>gd_l = ucast (boot i), gd_h = ucast (drop_bit 32 (boot i))\<rparr>]))"
  by pat_completeness auto
termination by (relation "measure (\<lambda>(boot, i, t). length t - i)") auto

declare copy_gdt.simps [simp del]

definition gdt_init :: "(nat \<Rightarrow> u64) \<Rightarrow> gdt_desc list \<Rightarrow> desc_state \<Rightarrow> desc_state outcome" where
  "gdt_init boot_gdt raw s =
     obind (alloc_bootmem 1 s) (\<lambda>(addr, s1).
     obind (copy_gdt boot_gdt 1 raw) (\<lambda>t.
     set_tss 5 (say ''GDT table at %x\<newline>'' [ArgInt addr]
       (set_gdt addr (ucast PAGE_SIZE) (s1\<lparr>gdt_table := t\<rparr>)))))"

subsection \<open>The interrupt descriptor table\<close>

definition gate :: "u16 \<Rightarrow> u64 \<Rightarrow> idt_desc" where
  "gate type handler =
     \<lparr>offset0_15 = ucast (handler AND 0xffff), selector = KERNEL_CS64, gate_type = type,
      offset16_31 = ucast (drop_bit 16 (handler AND 0xFFFF0000)),
      offset32_63 = ucast (drop_bit 32 (handler AND 0xFFFFFFFF00000000)), gate_reserved = 0\<rparr>"

definition set_gate :: "u16 \<Rightarrow> nat \<Rightarrow> u64 \<Rightarrow> idt_desc list \<Rightarrow> idt_desc list" where
  "set_gate type num handler t = (if num < IDT_SIZE then t[num := gate type handler] else t)"

definition set_intr_gate :: "nat \<Rightarrow> u64 \<Rightarrow> idt_desc list \<Rightarrow> idt_desc list" where
  "set_intr_gate num handler t = set_gate DESTYPE_INT num handler t"

definition set_system_gate :: "nat \<Rightarrow> u64 \<Rightarrow> idt_desc list \<Rightarrow> idt_desc list" where
  "set_system_gate num handler t = set_gate DESTYPE_SYS num handler t"

definition set_trap_gate :: "nat \<Rightarrow> u64 \<Rightarrow> idt_desc list \<Rightarrow> idt_desc list" where
  "set_trap_gate num handler t = set_gate DESTYPE_TRAP num handler t"

definition set_idt :: "u64 \<Rightarrow> u16 \<Rightarrow> desc_state \<Rightarrow> desc_state" where
  "set_idt newidt lim s = s\<lparr>idtr := \<lparr>limit = lim, address = newidt\<rparr>\<rparr>"

text \<open>The entry points in \<^verbatim>\<open>except_entry.asm\<close> and \<^verbatim>\<open>irq_entry.asm\<close>.\<close>

datatype isr_entry =
    Ignore_isr | Divide_error | Debug | Nmi | Int3 | Overflow | Bounds | Invalid_op
  | Device_not_available | Doublefault_fn | Coprocessor_segment_overrun | Invalid_TSS
  | Segment_not_present | Stack_segment | General_protection | Page_fault | Coprocessor_error
  | Alignment_check | Machine_check | Simd_coprocessor_error | Irq nat

definition zero_gate :: idt_desc where
  "zero_gate = \<lparr>offset0_15 = 0, selector = 0, gate_type = 0, offset16_31 = 0, offset32_63 = 0, gate_reserved = 0\<rparr>"

definition exception_gates :: "(isr_entry \<Rightarrow> u64) \<Rightarrow> idt_desc list \<Rightarrow> idt_desc list" where
  "exception_gates isr t =
     fold (\<lambda>f. f)
       [set_trap_gate 0 (isr Divide_error), set_trap_gate 1 (isr Debug), set_intr_gate 2 (isr Nmi),
        set_system_gate 3 (isr Int3), set_system_gate 4 (isr Overflow), set_system_gate 5 (isr Bounds),
        set_trap_gate 6 (isr Invalid_op), set_trap_gate 7 (isr Device_not_available),
        set_trap_gate 8 (isr Doublefault_fn), set_trap_gate 9 (isr Coprocessor_segment_overrun),
        set_trap_gate 10 (isr Invalid_TSS), set_trap_gate 11 (isr Segment_not_present),
        set_trap_gate 12 (isr Stack_segment), set_trap_gate 13 (isr General_protection),
        set_intr_gate 14 (isr Page_fault), set_trap_gate 16 (isr Coprocessor_error),
        set_trap_gate 17 (isr Alignment_check), set_trap_gate 18 (isr Machine_check),
        set_trap_gate 19 (isr Simd_coprocessor_error)] t"

definition idt_init :: "(isr_entry \<Rightarrow> u64) \<Rightarrow> desc_state \<Rightarrow> desc_state outcome" where
  "idt_init isr s =
     obind (alloc_bootmem 1 s) (\<lambda>(addr, s1).
     let t0 = replicate IDT_SIZE zero_gate;
         t1 = fold (\<lambda>i. set_trap_gate i (isr Ignore_isr)) [0..<IDT_SIZE] t0;
         s2 = say ''IDT table at %x\<newline>'' [ArgInt addr]
                (set_idt addr (ucast PAGE_SIZE) (s1\<lparr>idt_table := t1\<rparr>))
     in Done (s2\<lparr>idt_table := exception_gates isr (idt_table s2)\<rparr>))"

text \<open>\<^verbatim>\<open>DECLARE_IRQ(0)\<close> to \<^verbatim>\<open>DECLARE_IRQ(21)\<close> of \<^verbatim>\<open>irq_init\<close>.\<close>

definition declare_irqs :: "(isr_entry \<Rightarrow> u64) \<Rightarrow> idt_desc list \<Rightarrow> idt_desc list" where
  "declare_irqs isr t = fold (\<lambda>k. set_intr_gate (IRQ_TO_VECTOR k) (isr (Irq k))) [0..<22] t"

subsection \<open>What the processor reads from the tables\<close>

definition gate_handler :: "idt_desc \<Rightarrow> u64" where
  "gate_handler d =
     ucast (offset0_15 d) OR push_bit 16 (ucast (offset16_31 d)) OR push_bit 32 (ucast (offset32_63 d))"

definition seg_base :: "gdt_desc \<Rightarrow> gdt_desc \<Rightarrow> u64" where
  "seg_base d e =
     ucast (drop_bit 16 (gd_l d)) OR push_bit 16 (ucast (gd_h d AND 0xff)) OR
     ucast (gd_h d AND 0xff000000) OR push_bit 32 (ucast (gd_l e))"

definition seg_limit :: "gdt_desc \<Rightarrow> u32" where
  "seg_limit d = (gd_l d AND 0xffff) OR (gd_h d AND 0xf0000)"

text \<open>The entry point and the gate type that vector \<open>n\<close> is to lead to.\<close>

definition exception_vectors :: "(nat \<times> isr_entry \<times> u16) list" where
  "exception_vectors =
     [(0, Divide_error, DESTYPE_TRAP), (1, Debug, DESTYPE_TRAP), (2, Nmi, DESTYPE_INT),
      (3, Int3, DESTYPE_SYS), (4, Overflow, DESTYPE_SYS), (5, Bounds, DESTYPE_SYS),
      (6, Invalid_op, DESTYPE_TRAP), (7, Device_not_available, DESTYPE_TRAP),
      (8, Doublefault_fn, DESTYPE_TRAP), (9, Coprocessor_segment_overrun, DESTYPE_TRAP),
      (10, Invalid_TSS, DESTYPE_TRAP), (11, Segment_not_present, DESTYPE_TRAP),
      (12, Stack_segment, DESTYPE_TRAP), (13, General_protection, DESTYPE_TRAP),
      (14, Page_fault, DESTYPE_INT), (16, Coprocessor_error, DESTYPE_TRAP),
      (17, Alignment_check, DESTYPE_TRAP), (18, Machine_check, DESTYPE_TRAP),
      (19, Simd_coprocessor_error, DESTYPE_TRAP)]"

definition vector_entry :: "nat \<Rightarrow> isr_entry \<times> u16" where
  "vector_entry n =
     (if VECTOR_BASE \<le> n \<and> n < VECTOR_BASE + 22 then (Irq (n - VECTOR_BASE), DESTYPE_INT)
      else case map_of exception_vectors n of Some e \<Rightarrow> e | None \<Rightarrow> (Ignore_isr, DESTYPE_TRAP))"

subsection \<open>Lemmas\<close>

lemma low_masks: "(0xffff :: u64) = mask 16" "(0xFFFF0000 :: u64) = push_bit 16 (mask 16)"
  "(0xFFFFFFFF00000000 :: u64) = push_bit 32 (mask 32)" "(0xFFFFFFFF :: u64) = mask 32"
  by (simp_all add: mask_eq_exp_minus_1)

lemma seg_masks: "(0xffff :: u32) = mask 16" "(0xff000000 :: u32) = push_bit 24 (mask 8)"
  "(0xff :: u32) = mask 8" "(0xf0000 :: u32) = push_bit 16 (mask 4)"
  by (simp_all add: mask_eq_exp_minus_1)

lemma gate_fields [simp]:
  "gate_handler (gate type h) = h" "gate_type (gate type h) = type" "selector (gate type h) = KERNEL_CS64"
proof -
  show "gate_handler (gate type h) = h"
    unfolding gate_handler_def
  proof (rule bit_word_eqI)
    fix n assume "n < LENGTH(64)"
    then show "bit (ucast (offset0_15 (gate type h)) OR push_bit 16 (ucast (offset16_31 (gate type h))) OR
        push_bit 32 (ucast (offset32_63 (gate type h))) :: u64) n = bit h n"
      by (cases "n < 16"; cases "n < 32") (auto simp: gate_def low_masks bit_simps)
  qed
qed (simp_all add: gate_def)

definition set_gates :: "(isr_entry \<Rightarrow> u64) \<Rightarrow> (nat \<times> isr_entry \<times> u16) list \<Rightarrow> idt_desc list \<Rightarrow> idt_desc list" where
  "set_gates isr es t = fold (\<lambda>(n, e, ty). set_gate ty n (isr e)) es t"

lemma set_gates_nth:
  assumes "distinct (map fst es)" "length t = IDT_SIZE" "n < IDT_SIZE"
  shows "length (set_gates isr es t) = IDT_SIZE"
    "set_gates isr es t ! n = (case map_of es n of Some (e, ty) \<Rightarrow> gate ty (isr e) | None \<Rightarrow> t ! n)"
proof -
  have "length (set_gates isr es t) = IDT_SIZE \<and>
    set_gates isr es t ! n = (case map_of es n of Some (e, ty) \<Rightarrow> gate ty (isr e) | None \<Rightarrow> t ! n)"
    using assms
  proof (induction es arbitrary: t)
    case Nil
    then show ?case by (simp add: set_gates_def)
  next
    case (Cons x es)
    obtain k e ty where x: "x = (k, e, ty)" by (cases x)
    have "set_gates isr (x # es) t = set_gates isr es (set_gate ty k (isr e) t)"
      by (simp add: set_gates_def x)
    moreover have "length (set_gate ty k (isr e) t) = IDT_SIZE" using Cons.prems by (simp add: set_gate_def)
    moreover have "map_of es n = None" if "k = n"
      using Cons.prems that x by (simp add: map_of_eq_None_iff)
    ultimately show ?case
      using Cons.IH [of "set_gate ty k (isr e) t"] Cons.prems
      by (auto simp: x set_gate_def nth_list_update split: option.split)
  qed
  then show "length (set_gates isr es t) = IDT_SIZE"
    "set_gates isr es t ! n = (case map_of es n of Some (e, ty) \<Rightarrow> gate ty (isr e) | None \<Rightarrow> t ! n)" by auto
qed

lemma exception_gates_eq: "exception_gates isr = set_gates isr exception_vectors"
  by (simp add: fun_eq_iff exception_gates_def set_gates_def exception_vectors_def set_trap_gate_def
      set_intr_gate_def set_system_gate_def)

definition irq_vectors :: "(nat \<times> isr_entry \<times> u16) list" where
  "irq_vectors = map (\<lambda>k. (IRQ_TO_VECTOR k, Irq k, DESTYPE_INT)) [0..<22]"

lemma declare_irqs_eq: "declare_irqs isr = set_gates isr irq_vectors"
  by (simp add: fun_eq_iff declare_irqs_def set_gates_def irq_vectors_def set_intr_gate_def [abs_def] fold_map comp_def
      del: upt_rec_numeral)

lemma map_of_shifted:
  "map_of (map (\<lambda>k. (k + b, f k)) [0..<m]) n = (if b \<le> n \<and> n < b + m then Some (f (n - b)) else None)"
  by (induction m) (auto simp: map_add_def)

lemma map_of_irq_vectors:
  "map_of irq_vectors n = (if VECTOR_BASE \<le> n \<and> n < VECTOR_BASE + 22 then Some (Irq (n - VECTOR_BASE), DESTYPE_INT) else None)"
  unfolding irq_vectors_def IRQ_TO_VECTOR_def by (rule map_of_shifted)

lemma default_gates:
  "fold (\<lambda>i. set_trap_gate i h) [0..<IDT_SIZE] (replicate IDT_SIZE zero_gate) = replicate IDT_SIZE (gate DESTYPE_TRAP h)"
proof -
  have "k \<le> IDT_SIZE \<Longrightarrow> fold (\<lambda>i. set_trap_gate i h) [0..<k] (replicate IDT_SIZE zero_gate) =
    replicate k (gate DESTYPE_TRAP h) @ replicate (IDT_SIZE - k) zero_gate" for k
  proof (induction k)
    case (Suc k)
    then have "IDT_SIZE - k = Suc (IDT_SIZE - Suc k)" by simp
    then show ?case
      using Suc by (simp add: set_trap_gate_def set_gate_def list_update_append replicate_append_same)
  qed simp
  from this [of IDT_SIZE] show ?thesis by simp
qed

lemma alloc_bootmem_keeps:
  assumes "alloc_bootmem c s = Done (a, s')"
  shows "s' = s\<lparr>bootmem_page_index := bootmem_page_index s + c\<rparr>"
    and "a = va (push_bit PAGE_SHIFT (bootmem_page_index s))"
  using assms by (auto simp: alloc_bootmem_def Let_def split: if_splits)

text \<open>The table as \<^verbatim>\<open>idt_init\<close> leaves it.\<close>

definition initial_idt :: "(isr_entry \<Rightarrow> u64) \<Rightarrow> idt_desc list" where
  "initial_idt isr = exception_gates isr (fold (\<lambda>i. set_trap_gate i (isr Ignore_isr)) [0..<IDT_SIZE] (replicate IDT_SIZE zero_gate))"

lemma idt_init_table: "idt_init isr s = Done s' \<Longrightarrow> idt_table s' = initial_idt isr"
  by (auto simp: idt_init_def Let_def say_def set_idt_def initial_idt_def)

lemma initial_vectors:
  assumes "n < IDT_SIZE"
  shows "gate_handler (declare_irqs isr (initial_idt isr) ! n) = isr (fst (vector_entry n)) \<and>
    gate_type (declare_irqs isr (initial_idt isr) ! n) = snd (vector_entry n) \<and>
    selector (declare_irqs isr (initial_idt isr) ! n) = KERNEL_CS64 \<and>
    length (declare_irqs isr (initial_idt isr)) = IDT_SIZE"
proof -
  have t: "initial_idt isr = set_gates isr exception_vectors (replicate IDT_SIZE (gate DESTYPE_TRAP (isr Ignore_isr)))"
    by (simp add: initial_idt_def exception_gates_eq default_gates)
  have "distinct (map fst exception_vectors)" by (simp add: exception_vectors_def)
  note ex = set_gates_nth [OF this, of "replicate IDT_SIZE (gate DESTYPE_TRAP (isr Ignore_isr))" n isr]
  have "distinct (map fst irq_vectors)"
    by (simp add: irq_vectors_def distinct_map comp_def inj_on_def IRQ_TO_VECTOR_def del: upt_rec_numeral)
  note irq = set_gates_nth [OF this, of "initial_idt isr" n isr, folded declare_irqs_eq]
  show ?thesis
    using irq ex assms t
    by (auto simp: map_of_irq_vectors vector_entry_def split: option.splits prod.splits if_splits)
qed

text \<open>
  C18 (\<^verbatim>\<open>idt_init\<close> and \<^verbatim>\<open>irq_init\<close>). After the set-up every one of the 256 vectors holds a gate
  into the 64-bit kernel code segment: the exceptions lead to their own entry points with the
  intended gate types (interrupt gates for NMI and page faults, user-callable system gates for
  3, 4 and 5), the vectors \<^verbatim>\<open>0x20\<close> to \<^verbatim>\<open>0x35\<close> to the 22 interrupt entry points, and all the others
  to the ignoring handler.
\<close>

theorem idt_vectors:
  assumes "idt_init isr s = Done s'" and "n < IDT_SIZE"
  shows "gate_handler (declare_irqs isr (idt_table s') ! n) = isr (fst (vector_entry n)) \<and>
    gate_type (declare_irqs isr (idt_table s') ! n) = snd (vector_entry n) \<and>
    selector (declare_irqs isr (idt_table s') ! n) = KERNEL_CS64 \<and>
    length (declare_irqs isr (idt_table s')) = IDT_SIZE"
  unfolding idt_init_table [OF assms(1)] using initial_vectors [OF assms(2)] .

subsection \<open>The copied descriptors and the task state segment\<close>

definition desc_of :: "u64 \<Rightarrow> gdt_desc" where
  "desc_of w = \<lparr>gd_l = ucast w, gd_h = ucast (drop_bit 32 w)\<rparr>"

lemma copy_gdt_spec:
  assumes "i \<le> n" "\<forall>j. i \<le> j \<and> j < n \<longrightarrow> boot j \<noteq> 0" "boot n = 0" "n \<le> length t"
  shows "\<exists>t'. copy_gdt boot i t = Done t' \<and> length t' = length t \<and>
    (\<forall>j<length t. t' ! j = (if i \<le> j \<and> j < n then desc_of (boot j) else t ! j))"
  using assms
proof (induction "n - i" arbitrary: i t)
  case 0
  then show ?case by (subst copy_gdt.simps) auto
next
  case (Suc k)
  let ?t = "t[i := desc_of (boot i)]"
  have k: "k = n - Suc i" "Suc i \<le> n" using Suc.hyps(2) by simp_all
  obtain t' where "copy_gdt boot (Suc i) ?t = Done t'" "length t' = length t"
    "\<forall>j<length t. t' ! j = (if Suc i \<le> j \<and> j < n then desc_of (boot j) else ?t ! j)"
    using Suc.hyps(1) [OF k(1), of ?t] k(2) Suc.prems by auto
  moreover have "i < n" "i < length t" using Suc.hyps(2) Suc.prems by simp_all
  ultimately show ?case
    using Suc.prems by (subst copy_gdt.simps) (auto simp: desc_of_def nth_list_update)
qed

text \<open>The descriptor of a task state segment of limit 104 and type \<^verbatim>\<open>0x89\<close>, by its bits.\<close>

lemma tss_bits:
  "bit (104 :: int) n \<longleftrightarrow> n = 3 \<or> n = 5 \<or> n = 6" "bit (0x8900 :: int) n \<longleftrightarrow> n = 8 \<or> n = 11 \<or> n = 15"
proof -
  have "(104 :: int) = push_bit 3 1 OR push_bit 5 1 OR push_bit 6 1"
    "(0x8900 :: int) = push_bit 8 1 OR push_bit 11 1 OR push_bit 15 1" by simp_all
  then show "bit (104 :: int) n \<longleftrightarrow> n = 3 \<or> n = 5 \<or> n = 6" "bit (0x8900 :: int) n \<longleftrightarrow> n = 8 \<or> n = 11 \<or> n = 15"
    by (simp_all only: bit_or_iff bit_push_bit_iff bit_1_iff) auto
qed

lemma tss_entry:
  "gdt_entry a 104 0x89 =
     \<lparr>gd_l = 104 OR push_bit 16 (a AND 0xffff),
      gd_h = (a AND 0xff000000) OR (drop_bit 16 a AND 0xff) OR 0x8900\<rparr>"
  by (simp add: gdt_entry_def)

lemma tss_entry_base:
  "seg_base (gdt_entry (ucast (a AND 0xFFFFFFFF)) 104 0x89) (e\<lparr>gd_l := ucast (drop_bit 32 a AND 0xFFFFFFFF)\<rparr>) = a"
proof (rule bit_word_eqI)
  fix n assume "n < LENGTH(64)"
  then show "bit (seg_base (gdt_entry (ucast (a AND 0xFFFFFFFF)) 104 0x89)
      (e\<lparr>gd_l := ucast (drop_bit 32 a AND 0xFFFFFFFF)\<rparr>)) n = bit a n"
    unfolding seg_base_def tss_entry seg_masks low_masks
    by (cases "n < 16"; cases "n < 24"; cases "n < 32") (auto simp: bit_simps tss_bits)
qed

lemma tss_entry_limit: "seg_limit (gdt_entry a 104 0x89) = 104"
proof (rule bit_word_eqI)
  fix n assume "n < LENGTH(32)"
  then show "bit (seg_limit (gdt_entry a 104 0x89)) n = bit (104 :: u32) n"
    unfolding seg_limit_def tss_entry seg_masks
    by (cases "n < 16") (auto simp: bit_simps tss_bits)
qed

lemma clear_page_at:
  assumes "b + 4096 \<le> 2 ^ 64" "k < 512"
  shows "clear_page (lin b) m (lin b + 8 * of_nat k) = 0"
proof -
  have "lin b + 8 * of_nat l = lin (b + 8 * l)" for l by (simp add: lin_def)
  then show ?thesis
    using assms cells_in [of 0 k 512 b "\<lambda>_. 0" m] by (simp add: clear_page_def del: upt_rec_numeral)
qed

lemma gdt_init_done:
  assumes boot: "1 \<le> n" "n \<le> 5" "\<forall>j. 1 \<le> j \<and> j < n \<longrightarrow> boot j \<noteq> 0" "boot n = 0" and raw: "length raw = 512"
    and mem: "unat (bootmem_page_index s) + 2 < unat (bootmem_page_max s)" "unat (bootmem_page_max s) \<le> 2 ^ 27"
  shows "\<exists>s'. gdt_init boot raw s = Done s' \<and>
    (\<forall>j. 1 \<le> j \<and> j < n \<longrightarrow> gdt_table s' ! j = desc_of (boot j)) \<and>
    seg_base (gdt_table s' ! 5) (gdt_table s' ! 6) = tss s' \<and> seg_limit (gdt_table s' ! 5) = 104 \<and>
    task_register s' = 40 \<and> (\<forall>k<512. tables s' (tss s' + 8 * of_nat k) = 0) \<and>
    gd_h (gdt_table s' ! 6) = gd_h (raw ! 6) \<and>
    gdtr s' = \<lparr>limit = 4096, address = lin (4096 * unat (bootmem_page_index s))\<rparr> \<and>
    tss s' = lin (4096 * (unat (bootmem_page_index s) + 1)) \<and>
    bootmem_page_index s' = of_nat (unat (bootmem_page_index s) + 2) \<and>
    bootmem_page_max s' = bootmem_page_max s \<and> bootmem_page_start s' = bootmem_page_start s \<and>
    contig_page_data s' = contig_page_data s"
proof -
  define b where "b = unat (bootmem_page_index s)"
  have b: "bootmem_page_index s = of_nat b" "b + 2 < unat (bootmem_page_max s)" "b + 2 < 2 ^ 27"
    using mem by (simp_all add: b_def)
  have a1: "alloc_bootmem 1 s = Done (lin (4096 * b), s\<lparr>bootmem_page_index := of_nat (b + 1)\<rparr>)"
    using alloc_bootmem_lin [of s b 1] b by simp
  have a2: "alloc_bootmem 1 t = Done (lin (4096 * (b + 1)), t\<lparr>bootmem_page_index := of_nat (b + 2)\<rparr>)"
    if "bootmem_page_index t = of_nat (b + 1)" "bootmem_page_max t = bootmem_page_max s" for t :: desc_state
    using alloc_bootmem_lin [of t "b + 1" 1] b that by (simp add: add.assoc)
  obtain t where t: "copy_gdt boot 1 raw = Done t" "length t = 512"
    "\<forall>j<512. t ! j = (if 1 \<le> j \<and> j < n then desc_of (boot j) else raw ! j)"
    using copy_gdt_spec [of 1 n boot raw] boot raw by auto
  let ?a = "lin (4096 * (b + 1))"
  define d where "d = gdt_entry (ucast (?a AND 0xFFFFFFFF)) 104 0x89"
  define e where "e = (raw ! 6)\<lparr>gd_l := ucast (drop_bit 32 ?a AND 0xFFFFFFFF)\<rparr>"
  have t6: "t ! 6 = raw ! 6" using t(3) boot(2) by simp
  obtain s' where s': "gdt_init boot raw s = Done s'" "gdt_table s' = t[5 := d, 6 := e]" "tss s' = ?a"
    "task_register s' = 40" "tables s' = clear_page ?a (tables s)"
    "gdtr s' = \<lparr>limit = 4096, address = lin (4096 * b)\<rparr>" "bootmem_page_index s' = of_nat (b + 2)"
    "bootmem_page_max s' = bootmem_page_max s" "bootmem_page_start s' = bootmem_page_start s"
    "contig_page_data s' = contig_page_data s"
    using t t6 by (simp add: gdt_init_def a1 a2 set_gdt_def load_segments_def say_def set_tss_def set_gdt_desc_def
        outcome_simps d_def e_def Let_def PAGE_SIZE_val del: obind_eq_Done_iff of_nat_add)
  moreover have "seg_base d e = ?a" "seg_limit d = 104" "gd_h e = gd_h (raw ! 6)"
    by (simp_all only: d_def e_def tss_entry_base tss_entry_limit) simp
  moreover have "clear_page ?a m (?a + 8 * of_nat k) = 0" if "k < 512" for k m
    using clear_page_at [of "4096 * (b + 1)" k m] that b by simp
  moreover have "t[5 := d, 6 := e] ! j = desc_of (boot j)" if "1 \<le> j" "j < n" for j
    using t boot(2) that by simp
  ultimately show ?thesis using t(2) by (auto simp: nth_list_update b_def [symmetric] simp del: of_nat_add of_nat_mult)
qed

lemma idt_init_done:
  assumes "unat (bootmem_page_index s) + 1 < unat (bootmem_page_max s)"
  shows "\<exists>s'. idt_init isr s = Done s' \<and>
    idtr s' = \<lparr>limit = 4096, address = lin (4096 * unat (bootmem_page_index s))\<rparr> \<and>
    bootmem_page_index s' = of_nat (unat (bootmem_page_index s) + 1) \<and>
    bootmem_page_max s' = bootmem_page_max s \<and> bootmem_page_start s' = bootmem_page_start s \<and>
    contig_page_data s' = contig_page_data s \<and> gdtr s' = gdtr s \<and> tss s' = tss s \<and>
    idt_table s' = initial_idt isr"
proof -
  have "alloc_bootmem 1 s = Done (lin (4096 * unat (bootmem_page_index s)),
      s\<lparr>bootmem_page_index := of_nat (unat (bootmem_page_index s) + 1)\<rparr>)"
    using alloc_bootmem_lin [of s "unat (bootmem_page_index s)" 1] assms by simp
  then show ?thesis
    by (simp add: idt_init_def initial_idt_def Let_def say_def set_idt_def PAGE_SIZE_val del: obind_eq_Done_iff of_nat_add of_nat_mult)
qed

text \<open>
  C22 (\<^verbatim>\<open>gdt_init\<close> and \<^verbatim>\<open>set_tss\<close>). With two pages of boot memory and at most four descriptors in
  the loader's table, the descriptors are copied unchanged, descriptors 5 and 6 describe a
  task state segment at the cleared page the code keeps in \<^verbatim>\<open>tss\<close>, with limit 104 and selector
  40. The last word of descriptor 6 keeps what the boot memory held there before.
\<close>

theorem gdt_init_tss:
  assumes boot: "1 \<le> n" "n \<le> 5" "\<forall>j. 1 \<le> j \<and> j < n \<longrightarrow> boot j \<noteq> 0" "boot n = 0" and raw: "length raw = 512"
    and mem: "unat (bootmem_page_index s) + 2 < unat (bootmem_page_max s)" "unat (bootmem_page_max s) \<le> 2 ^ 27"
  shows "\<exists>s'. gdt_init boot raw s = Done s' \<and>
    (\<forall>j. 1 \<le> j \<and> j < n \<longrightarrow> gdt_table s' ! j = desc_of (boot j)) \<and>
    seg_base (gdt_table s' ! 5) (gdt_table s' ! 6) = tss s' \<and> seg_limit (gdt_table s' ! 5) = 104 \<and>
    task_register s' = 40 \<and> (\<forall>k<512. tables s' (tss s' + 8 * of_nat k) = 0) \<and>
    gd_h (gdt_table s' ! 6) = gd_h (raw ! 6)"
  using gdt_init_done [OF assms] by blast

definition boot_desc :: desc_state where
  "boot_desc =
     \<lparr>bootmem_page_start = 0x200, bootmem_page_index = 0x200, bootmem_page_max = 0x7ff,
      mem_map_base = 0, mem_map = [],
      contig_page_data = \<lparr>node_zones = [], nr_zones = 0, node_mem_map = 0, node_start_paddr = 0,
        node_size = 0, node_id = 0, node_next = None\<rparr>,
      lists = (\<lambda>_. \<lparr>lh_next = 0, lh_prev = 0\<rparr>), klog = [],
      tables = (\<lambda>_. - 1),
      cpu_regs = \<lparr>cr0 = 0x80000001, cr2 = 0, cr3 = 0x101000, cr4 = 0xA0, cr8 = 0, intr_flag = False,
        tlb = [], cache_flushes = 0\<rparr>,
      swapper_pg_dir = 0, gdt_table = [], idt_table = [], gdtr = \<lparr>limit = 0, address = 0\<rparr>,
      idtr = \<lparr>limit = 0, address = 0\<rparr>, task_register = 0, data_segments = 0, tss = 0\<rparr>"

definition demo_isr :: "isr_entry \<Rightarrow> u64" where
  "demo_isr e = (case e of Irq k \<Rightarrow> 0xFFFF800000100000 + of_nat k | Page_fault \<Rightarrow> 0xFFFF800000120000 | _ \<Rightarrow> 0)"

theorem idt_vectors_witness:
  "\<exists>s'. idt_init demo_isr boot_desc = Done s' \<and>
     gate_handler (declare_irqs demo_isr (idt_table s') ! 0x21) = 0xFFFF800000100001 \<and>
     gate_type (declare_irqs demo_isr (idt_table s') ! 14) = DESTYPE_INT"
proof -
  obtain s' where s': "idt_init demo_isr boot_desc = Done s'"
    by (simp add: idt_init_def boot_desc_def alloc_bootmem_def Let_def)
  have "vector_entry 0x21 = (Irq 1, DESTYPE_INT)" "vector_entry 14 = (Page_fault, DESTYPE_INT)"
    by (simp_all add: vector_entry_def exception_vectors_def VECTOR_BASE_def)
  then show ?thesis
    using s' idt_vectors [OF s', of "0x21"] idt_vectors [OF s', of 14] by (simp add: IDT_SIZE_def demo_isr_def)
qed

theorem gdt_init_tss_witness:
  "\<exists>s'. gdt_init ((\<lambda>_. 0)(1 := 0xCF9A000000FFFF, 2 := 0xCF92000000FFFF)) (replicate 512 \<lparr>gd_l = 7, gd_h = 9\<rparr>) boot_desc = Done s' \<and>
     seg_base (gdt_table s' ! 5) (gdt_table s' ! 6) = tss s' \<and> gd_h (gdt_table s' ! 6) = 9"
proof -
  have "\<forall>j::nat. 1 \<le> j \<and> j < 3 \<longrightarrow> ((\<lambda>_. 0)(1 := 0xCF9A000000FFFF, 2 := 0xCF92000000FFFF)) j \<noteq> (0 :: u64)" by auto
  then show ?thesis
    using gdt_init_tss [of 3 "(\<lambda>_. 0)(1 := 0xCF9A000000FFFF, 2 := 0xCF92000000FFFF)"
        "replicate 512 \<lparr>gd_l = 7, gd_h = 9\<rparr>" boot_desc]
    by (auto simp: boot_desc_def)
qed

end
