(* ===== verification/Spinlock.thy ===== *)
theory Spinlock
  imports Bitops
begin

text \<open>
  The spin lock of \<^verbatim>\<open>spinlock.c\<close> and \<^verbatim>\<open>include/spinlock.h\<close> with the preemption counter of
  \<^verbatim>\<open>include/smp.h\<close>, run by any number of processors. A processor is at one of the program points
  of \<^verbatim>\<open>spin_lock\<close> or \<^verbatim>\<open>spin_unlock\<close>, inside the critical section, or outside of both; a step is
  one access to shared memory. The locked instructions are single steps, the plain increment
  and decrement of the shared counter are a load and a store.
\<close>

subsection \<open>The lock\<close>

record spinlock_t =
  slock :: u64

definition SPIN_LOCK_UNLOCKED :: u64 where [kconst]: "SPIN_LOCK_UNLOCKED = 1"

definition spin_lock_init :: "spinlock_t \<Rightarrow> spinlock_t" where
  "spin_lock_init l = l\<lparr>slock := SPIN_LOCK_UNLOCKED\<rparr>"

text \<open>
  \<^verbatim>\<open>raw_spin_trylock\<close>: the assembly writes and exchanges only the low byte of \<^verbatim>\<open>tmp\<close>, which is an
  output operand; the other bytes of the result are what the register \<open>rax\<close> held before.
\<close>

definition raw_spin_trylock :: "u64 \<Rightarrow> spinlock_t \<Rightarrow> u64 \<times> spinlock_t" where
  "raw_spin_trylock rax l =
     ((rax AND NOT 0xFF) OR (slock l AND 0xFF), l\<lparr>slock := slock l AND NOT 0xFF\<rparr>)"

definition spin_is_locked :: "bool \<Rightarrow> spinlock_t \<Rightarrow> u64 outcome" where
  "spin_is_locked lb l = test_bit_m lb 0 [slock l]"

text \<open>The \<^verbatim>\<open>set_bit(0, &lock->slock)\<close> of \<^verbatim>\<open>spin_unlock\<close>.\<close>

definition release :: "spinlock_t \<Rightarrow> spinlock_t outcome" where
  "release l = obind (set_bit_m 0 [slock l]) (\<lambda>w. obind (aget w 0) (\<lambda>v. Done (l\<lparr>slock := v\<rparr>)))"

subsection \<open>Processors running \<^verbatim>\<open>spin_lock\<close> and \<^verbatim>\<open>spin_unlock\<close>\<close>

text \<open>
  \<open>Disable\<close> and \<open>Enable\<close> are the two halves of \<^verbatim>\<open>preempt_count() += 1\<close> and \<^verbatim>\<open>-= 1\<close>; the value
  loaded is kept until it is stored. \<open>Backoff\<close> is the enabling inside the loop of
  \<^verbatim>\<open>spin_lock\<close>, \<open>Leave\<close> the one of \<^verbatim>\<open>spin_unlock\<close>.
\<close>

datatype pc =
    Outside | Disable | DisableStore u64 | TryLock | Backoff | BackoffStore u64 | Waiting
  | Critical | Unlock | Leave | LeaveStore u64

record smp =
  lock :: spinlock_t
  preempt_count :: u64
  pcs :: "nat \<Rightarrow> pc"

definition goto :: "nat \<Rightarrow> pc \<Rightarrow> smp \<Rightarrow> smp" where
  "goto i p s = s\<lparr>pcs := (pcs s)(i := p)\<rparr>"

text \<open>
  A step of processor \<open>i\<close>. \<open>G\<close> says which contents the result register can have before the
  exchange, \<open>lb\<close> whether the processors execute \<^verbatim>\<open>bt\<close> with a lock prefix; where they do not, the
  loop that waits for the lock traps, and the processor makes no further step.
\<close>

inductive smp_step :: "bool \<Rightarrow> (u64 \<Rightarrow> bool) \<Rightarrow> nat \<Rightarrow> smp \<Rightarrow> smp \<Rightarrow> bool"
  for lb :: bool and G :: "u64 \<Rightarrow> bool" and i :: nat where
  call_lock: "pcs s i = Outside \<Longrightarrow> smp_step lb G i s (goto i Disable s)"
| disable_load: "pcs s i = Disable \<Longrightarrow> smp_step lb G i s (goto i (DisableStore (preempt_count s)) s)"
| disable_store: "pcs s i = DisableStore v \<Longrightarrow> smp_step lb G i s (goto i TryLock (s\<lparr>preempt_count := v + 1\<rparr>))"
| try_ok: "pcs s i = TryLock \<Longrightarrow> G rax \<Longrightarrow> raw_spin_trylock rax (lock s) = (t, l) \<Longrightarrow> t \<noteq> 0 \<Longrightarrow>
    smp_step lb G i s (goto i Critical (s\<lparr>lock := l\<rparr>))"
| try_fail: "pcs s i = TryLock \<Longrightarrow> G rax \<Longrightarrow> raw_spin_trylock rax (lock s) = (t, l) \<Longrightarrow> t = 0 \<Longrightarrow>
    smp_step lb G i s (goto i Backoff (s\<lparr>lock := l\<rparr>))"
| backoff_load: "pcs s i = Backoff \<Longrightarrow> smp_step lb G i s (goto i (BackoffStore (preempt_count s)) s)"
| backoff_store: "pcs s i = BackoffStore v \<Longrightarrow> smp_step lb G i s (goto i Waiting (s\<lparr>preempt_count := v - 1\<rparr>))"
| wait_again: "pcs s i = Waiting \<Longrightarrow> spin_is_locked lb (lock s) = Done t \<Longrightarrow> t \<noteq> 0 \<Longrightarrow> smp_step lb G i s s"
| wait_over: "pcs s i = Waiting \<Longrightarrow> spin_is_locked lb (lock s) = Done t \<Longrightarrow> t = 0 \<Longrightarrow>
    smp_step lb G i s (goto i Disable s)"
| call_unlock: "pcs s i = Critical \<Longrightarrow> smp_step lb G i s (goto i Unlock s)"
| unlock: "pcs s i = Unlock \<Longrightarrow> release (lock s) = Done l \<Longrightarrow> smp_step lb G i s (goto i Leave (s\<lparr>lock := l\<rparr>))"
| leave_load: "pcs s i = Leave \<Longrightarrow> smp_step lb G i s (goto i (LeaveStore (preempt_count s)) s)"
| leave_store: "pcs s i = LeaveStore v \<Longrightarrow> smp_step lb G i s (goto i Outside (s\<lparr>preempt_count := v - 1\<rparr>))"

inductive_cases smp_step_cases: "smp_step lb G i s s'"

definition smp_init_state :: smp where
  "smp_init_state = \<lparr>lock = spin_lock_init \<lparr>slock = 0\<rparr>, preempt_count = 0, pcs = (\<lambda>_. Outside)\<rparr>"

text \<open>The states of an interleaved run of all processors.\<close>

inductive smp_reach :: "bool \<Rightarrow> (u64 \<Rightarrow> bool) \<Rightarrow> smp \<Rightarrow> bool" for lb :: bool and G :: "u64 \<Rightarrow> bool" where
  start: "smp_reach lb G smp_init_state"
| run: "smp_reach lb G s \<Longrightarrow> smp_step lb G i s s' \<Longrightarrow> smp_reach lb G s'"

definition holds :: "smp \<Rightarrow> nat \<Rightarrow> bool" where
  "holds s i \<longleftrightarrow> pcs s i = Critical \<or> pcs s i = Unlock"

subsection \<open>Lemmas\<close>

lemma spin_is_locked_bit:
  "spin_is_locked lb l = (if lb then Done (if bit (slock l) 0 then - 1 else 0) else Fault)"
  by (simp add: spin_is_locked_def test_bit_m_def bit_word_def)

lemma release_val: "release l = Done (l\<lparr>slock := Bit_Operations.set_bit 0 (slock l)\<rparr>)"
  by (simp add: release_def set_bit_m_def on_bit_def bit_word_def outcome_simps)

text \<open>The lock word is 0 or 1, and 0 exactly while one processor holds the lock.\<close>

definition lock_inv :: "smp \<Rightarrow> bool" where
  "lock_inv s \<longleftrightarrow> (slock (lock s) = 1 \<and> (\<forall>i. \<not> holds s i)) \<or> (slock (lock s) = 0 \<and> (\<exists>i. \<forall>j. holds s j \<longleftrightarrow> j = i))"

lemma holds_goto: "holds (goto i p s) j \<longleftrightarrow> (if j = i then p = Critical \<or> p = Unlock else holds s j)"
  by (simp add: holds_def goto_def)

lemma holds_update [simp]:
  "holds (s\<lparr>lock := l\<rparr>) j \<longleftrightarrow> holds s j" "holds (s\<lparr>preempt_count := c\<rparr>) j \<longleftrightarrow> holds s j"
  by (simp_all add: holds_def)

lemma goto_fields [simp]: "lock (goto i p s) = lock s" "preempt_count (goto i p s) = preempt_count s"
  by (simp_all add: goto_def)

lemma lock_inv_keep:
  assumes "lock_inv s" "\<not> holds s i" "p \<noteq> Critical" "p \<noteq> Unlock" "lock s' = lock s" "\<And>j. holds s' j = holds s j"
  shows "lock_inv (goto i p s')"
proof -
  have "holds (goto i p s') j = holds s j" for j using assms(2-4,6) by (simp add: holds_goto)
  then show ?thesis using assms(1,5) by (simp add: lock_inv_def)
qed

lemma lock_inv_step:
  assumes "smp_step lb G i s s'" "lock_inv s" "\<And>rax. G rax \<Longrightarrow> rax AND NOT 0xFF = 0"
  shows "lock_inv s'"
  using assms
proof (induction rule: smp_step.induct)
  case (try_ok s rax t l)
  have n: "\<not> holds s i" using try_ok.hyps by (simp add: holds_def)
  have "t = slock (lock s) AND 0xFF" "l = (lock s)\<lparr>slock := slock (lock s) AND NOT 0xFF\<rparr>"
    using try_ok.hyps(3) try_ok.prems(2) [OF try_ok.hyps(2)] by (auto simp: raw_spin_trylock_def)
  then have "slock (lock s) = 1" "slock l = 0"
    using try_ok.hyps(4) try_ok.prems(1) by (auto simp: lock_inv_def)
  then show ?case
    using try_ok.prems(1) by (auto simp: lock_inv_def holds_goto)
next
  case (try_fail s rax t l)
  have "t = slock (lock s) AND 0xFF" "l = (lock s)\<lparr>slock := slock (lock s) AND NOT 0xFF\<rparr>"
    using try_fail.hyps(3) try_fail.prems(2) [OF try_fail.hyps(2)] by (auto simp: raw_spin_trylock_def)
  then have "slock (lock s) = 0" "l = lock s"
    using try_fail.hyps(4) try_fail.prems(1) by (auto simp: lock_inv_def)
  then show ?case
    using try_fail.hyps try_fail.prems(1) by (intro lock_inv_keep [of s]) (simp_all add: holds_def)
next
  case (call_unlock s)
  have "holds (goto i Unlock s) j = holds s j" for j using call_unlock.hyps by (simp add: holds_goto) (simp add: holds_def)
  then show ?case using call_unlock.prems by (simp add: lock_inv_def)
next
  case (unlock s l)
  have "holds s i" using unlock.hyps by (simp add: holds_def)
  then have "slock (lock s) = 0" "\<And>j. holds s j \<longleftrightarrow> j = i" using unlock.prems(1) by (auto simp: lock_inv_def)
  moreover have "slock l = 1" using calculation(1) unlock.hyps(2) by (auto simp: release_val)
  ultimately show ?case by (simp add: lock_inv_def holds_goto)
next
  case (wait_again s t)
  then show ?case by simp
qed (auto intro!: lock_inv_keep simp: holds_def)

lemma lock_inv_reach:
  assumes "smp_reach lb G s" "\<And>rax. G rax \<Longrightarrow> rax AND NOT 0xFF = 0"
  shows "lock_inv s"
  using assms(1)
proof (induction rule: smp_reach.induct)
  case start
  then show ?case by (simp add: lock_inv_def smp_init_state_def spin_lock_init_def holds_def kconst)
next
  case (run s i s')
  then show ?case using lock_inv_step assms(2) by blast
qed

subsection \<open>Runs\<close>

lemma goto_goto [simp]: "goto i p (goto i q s) = goto i p s"
  "goto i p ((goto i q s)\<lparr>lock := l\<rparr>) = goto i p (s\<lparr>lock := l\<rparr>)"
  "goto i p ((goto i q s)\<lparr>preempt_count := c\<rparr>) = goto i p (s\<lparr>preempt_count := c\<rparr>)"
  by (simp_all add: goto_def)

lemma pcs_goto [simp]: "pcs (goto i p s) i = p"
  by (simp add: goto_def)

text \<open>An uncontended processor gets the lock, and gives it back.\<close>

lemma reach_to_trylock:
  assumes "smp_reach lb G s" "pcs s i = Outside"
  shows "smp_reach lb G (goto i TryLock (s\<lparr>preempt_count := preempt_count s + 1\<rparr>))"
proof -
  have "smp_reach lb G (goto i Disable s)" using assms by (rule smp_reach.run [OF _ call_lock])
  from smp_reach.run [OF this, where i = i, OF disable_load] have "smp_reach lb G (goto i (DisableStore (preempt_count s)) s)" by simp
  from smp_reach.run [OF this, where i = i, OF disable_store] show ?thesis by simp
qed

lemma reach_acquire:
  assumes "smp_reach lb G s" "pcs s i = TryLock" "G rax" "rax AND NOT 0xFF \<noteq> 0 \<or> slock (lock s) AND 0xFF \<noteq> 0"
  shows "smp_reach lb G (goto i Critical (s\<lparr>lock := (lock s)\<lparr>slock := slock (lock s) AND NOT 0xFF\<rparr>\<rparr>))"
proof -
  have "(rax AND NOT 0xFF) OR (slock (lock s) AND 0xFF) \<noteq> 0" using assms(4) by (auto simp: or_eq_0_iff)
  then show ?thesis
    using assms(1-3) by (intro smp_reach.run [OF _ try_ok]) (simp_all add: raw_spin_trylock_def)
qed

lemma reach_fail:
  assumes "smp_reach lb G s" "pcs s i = TryLock" "G 0" "slock (lock s) = 0"
  shows "smp_reach lb G (goto i Waiting (s\<lparr>preempt_count := preempt_count s - 1\<rparr>))"
proof -
  have "(lock s)\<lparr>slock := 0\<rparr> = lock s" using assms(4) by simp
  then have eq: "s\<lparr>lock := (lock s)\<lparr>slock := 0\<rparr>\<rparr> = s" by simp
  have "smp_reach lb G (goto i Backoff s)"
    using smp_reach.run [OF assms(1), where i = i, OF try_fail [where rax = 0]] assms(2-4)
    by (simp add: raw_spin_trylock_def eq)
  from smp_reach.run [OF this, where i = i, OF backoff_load] have "smp_reach lb G (goto i (BackoffStore (preempt_count s)) s)" by simp
  from smp_reach.run [OF this, where i = i, OF backoff_store] show ?thesis by simp
qed

lemma reach_release:
  assumes "smp_reach lb G s" "pcs s i = Critical"
  shows "smp_reach lb G (goto i Outside (s\<lparr>lock := (lock s)\<lparr>slock := Bit_Operations.set_bit 0 (slock (lock s))\<rparr>,
    preempt_count := preempt_count s - 1\<rparr>))"
proof -
  let ?l = "(lock s)\<lparr>slock := Bit_Operations.set_bit 0 (slock (lock s))\<rparr>"
  have "smp_reach lb G (goto i Unlock s)" using assms by (rule smp_reach.run [OF _ call_unlock])
  from smp_reach.run [OF this, where i = i, OF unlock [where l = ?l]] have "smp_reach lb G (goto i Leave (s\<lparr>lock := ?l\<rparr>))"
    by (simp add: release_val)
  from smp_reach.run [OF this, where i = i, OF leave_load] have "smp_reach lb G (goto i (LeaveStore (preempt_count s)) (s\<lparr>lock := ?l\<rparr>))" by simp
  from smp_reach.run [OF this, where i = i, OF leave_store] show ?thesis by simp
qed

text \<open>
  C19 (\<^verbatim>\<open>spin_lock\<close> and \<^verbatim>\<open>spin_unlock\<close>, mutual exclusion). In every interleaving of any number of
  processors at most one is between the successful exchange and the release, provided that the
  register of the exchange holds no bits above its low byte; and the lock word is free exactly
  while nobody is there.
\<close>

theorem spinlock_mutual_exclusion:
  assumes "smp_reach lb G s" "\<And>rax. G rax \<Longrightarrow> rax AND NOT 0xFF = 0"
  shows "(holds s i \<and> holds s j \<longrightarrow> i = j) \<and> (slock (lock s) = SPIN_LOCK_UNLOCKED \<longleftrightarrow> (\<forall>k. \<not> holds s k))"
  using lock_inv_reach [OF assms] by (auto simp: lock_inv_def kconst)

lemma critical_state:
  "smp_reach lb (\<lambda>rax. rax = 0) (goto 0 Critical \<lparr>lock = \<lparr>slock = 0\<rparr>, preempt_count = 1, pcs = (\<lambda>_. Outside)\<rparr>)"
proof -
  have "smp_reach lb (\<lambda>rax. rax = 0) (goto 0 TryLock (smp_init_state\<lparr>preempt_count := 1\<rparr>))"
    using reach_to_trylock [OF start, of 0] by (simp add: smp_init_state_def)
  from reach_acquire [OF this, of 0 0] show ?thesis
    by (simp add: smp_init_state_def spin_lock_init_def kconst)
qed

theorem spinlock_mutual_exclusion_witness:
  "holds (goto 0 Critical \<lparr>lock = \<lparr>slock = 0\<rparr>, preempt_count = 1, pcs = (\<lambda>_. Outside)\<rparr>) 0 \<and>
   \<not> holds (goto 0 Critical \<lparr>lock = \<lparr>slock = 0\<rparr>, preempt_count = 1, pcs = (\<lambda>_. Outside)\<rparr>) 1"
proof -
  have "holds (goto 0 Critical \<lparr>lock = \<lparr>slock = 0\<rparr>, preempt_count = 1, pcs = (\<lambda>_. Outside)\<rparr>) 0"
    by (simp add: holds_goto)
  then show ?thesis using spinlock_mutual_exclusion [OF critical_state, of 0 1] by auto
qed

text \<open>
  Supplement (\<^verbatim>\<open>raw_spin_trylock\<close>, uninitialised register). If the register can hold other bits, which
  the output-only operand permits, two processors can be inside the critical section at once.
\<close>

theorem spinlock_dirty_register:
  "\<exists>s. smp_reach lb (\<lambda>_. True) s \<and> holds s 0 \<and> holds s 1"
proof -
  let ?R = "smp_reach lb (\<lambda>_. True)"
  have "?R (goto 0 TryLock (smp_init_state\<lparr>preempt_count := 1\<rparr>))"
    using reach_to_trylock [OF start, of 0] by (simp add: smp_init_state_def)
  from reach_acquire [OF this, of 0 0]
  have "?R (goto 0 Critical \<lparr>lock = \<lparr>slock = 0\<rparr>, preempt_count = 1, pcs = (\<lambda>_. Outside)\<rparr>)"
    by (simp add: smp_init_state_def spin_lock_init_def kconst)
  from reach_to_trylock [OF this, of 1] reach_acquire [of lb "\<lambda>_. True" _ 1 "0x100"]
  have "\<exists>s. ?R s \<and> pcs s 0 = Critical \<and> pcs s 1 = Critical"
    by (fastforce simp: goto_def)
  then show ?thesis by (auto simp: holds_def)
qed

text \<open>Any number of steps of one processor.\<close>

primrec own_steps :: "bool \<Rightarrow> (u64 \<Rightarrow> bool) \<Rightarrow> nat \<Rightarrow> nat \<Rightarrow> smp \<Rightarrow> smp \<Rightarrow> bool" where
  "own_steps lb G i 0 s s' \<longleftrightarrow> s' = s"
| "own_steps lb G i (Suc n) s s' \<longleftrightarrow> (\<exists>t. smp_step lb G i s t \<and> own_steps lb G i n t s')"

text \<open>The steps of a waiting processor, on either kind of processor.\<close>

lemma waiting_step:
  assumes "pcs s i = Waiting"
  shows "smp_step lb G i s s' \<longleftrightarrow> lb \<and> s' = (if bit (slock (lock s)) 0 then s else goto i Disable s)"
proof
  assume "smp_step lb G i s s'"
  then show "lb \<and> s' = (if bit (slock (lock s)) 0 then s else goto i Disable s)"
    using assms by (auto simp: spin_is_locked_bit split: if_splits elim: smp_step_cases)
next
  assume s': "lb \<and> s' = (if bit (slock (lock s)) 0 then s else goto i Disable s)"
  show "smp_step lb G i s s'"
    using s' assms wait_again [where i = i and s = s and lb = lb and G = G and t = "- 1"]
      wait_over [where i = i and s = s and lb = lb and G = G and t = 0]
    by (cases "bit (slock (lock s)) 0") (simp_all add: spin_is_locked_bit)
qed

lemma waiting_steps:
  assumes "pcs s i = Waiting" "bit (slock (lock s)) 0"
  shows "own_steps lb G i n s s' \<longleftrightarrow> s' = s \<and> (n = 0 \<or> lb)"
  by (induction n) (auto simp: waiting_step assms)

text \<open>
  C34 (\<^verbatim>\<open>spin_lock\<close>, the waiting loop). \<^verbatim>\<open>spin_is_locked\<close> tests for the value that means unlocked. In
  every reachable state, with a clean register, a processor in the waiting loop does the
  following. Where \<^verbatim>\<open>bt\<close> with a lock prefix is refused, it traps and makes no step. Where it is
  executed: while some processor holds the lock, its next step leaves the loop, back to the
  disabling of preemption; while nobody holds it, every number of its own steps leaves it where
  it is, in a state that does not change.
\<close>

theorem spin_lock_waits_on_free_lock:
  assumes "smp_reach lb G s" "\<And>rax. G rax \<Longrightarrow> rax AND NOT 0xFF = 0" "pcs s i = Waiting"
  shows "if \<not> lb then \<forall>s'. \<not> smp_step lb G i s s'
    else if \<exists>j. holds s j then \<forall>s'. smp_step lb G i s s' \<longleftrightarrow> s' = goto i Disable s
    else \<forall>n s'. own_steps lb G i n s s' \<longleftrightarrow> s' = s"
proof -
  have "bit (slock (lock s)) 0 \<longleftrightarrow> \<not> (\<exists>j. holds s j)"
    using lock_inv_reach [OF assms(1,2)] by (auto simp: lock_inv_def)
  then show ?thesis using assms(3) waiting_steps [OF assms(3), of lb G] by (auto simp: waiting_step)
qed

text \<open>
  The state is reached: processor 1 finds the lock taken by processor 0, which then releases it
  and leaves. The lock is free, nobody is interested in it any more, and processor 1 waits.
\<close>

lemma waiting_reached:
  assumes "s = \<lparr>lock = \<lparr>slock = 1\<rparr>, preempt_count = 0, pcs = (\<lambda>_. Outside)(1 := Waiting)\<rparr>"
  shows "smp_reach lb (\<lambda>rax. rax = 0) s"
proof -
  let ?R = "smp_reach lb (\<lambda>rax. rax = 0)"
  have "?R (goto 1 TryLock (goto 0 Critical \<lparr>lock = \<lparr>slock = 0\<rparr>, preempt_count = 2, pcs = (\<lambda>_. Outside)\<rparr>))"
    using reach_to_trylock [OF critical_state, of 1] by (simp add: goto_def)
  from reach_fail [OF this, of 1]
  have "?R (goto 1 Waiting (goto 0 Critical \<lparr>lock = \<lparr>slock = 0\<rparr>, preempt_count = 1, pcs = (\<lambda>_. Outside)\<rparr>))"
    by (simp add: goto_def)
  from reach_release [OF this, of 0] show ?thesis by (simp add: assms goto_def fun_upd_twist fun_upd_idem)
qed

theorem spin_lock_waits_on_free_lock_witness:
  "\<exists>s. smp_reach True (\<lambda>rax. rax = 0) s \<and> slock (lock s) = SPIN_LOCK_UNLOCKED \<and>
     pcs s = (\<lambda>_. Outside)(1 := Waiting) \<and> (\<forall>n s'. own_steps True (\<lambda>rax. rax = 0) 1 n s s' \<longleftrightarrow> s' = s)"
proof -
  define s where "s = \<lparr>lock = \<lparr>slock = 1\<rparr>, preempt_count = 0, pcs = (\<lambda>_. Outside)(1 := Waiting)\<rparr>"
  have r: "smp_reach True (\<lambda>rax. rax = 0) s" by (rule waiting_reached) (simp add: s_def)
  have w: "pcs s 1 = Waiting" and free: "\<not> (\<exists>j. holds s j)" by (simp_all add: holds_def s_def)
  have "rax AND NOT 0xFF = 0" if "rax = 0" for rax :: u64 using that by simp
  from spin_lock_waits_on_free_lock [OF r this w] have "\<forall>n s'. own_steps True (\<lambda>rax. rax = 0) 1 n s s' \<longleftrightarrow> s' = s"
    unfolding if_not_P [OF free] by simp
  then show ?thesis using r by (intro exI [of _ s]) (simp add: s_def kconst)
qed

end
