(* ===== verification/Apic.thy ===== *)
theory Apic
  imports Console Mp_Spec Descriptors
begin

text \<open>
  The interrupt controllers: the local APIC (\<^verbatim>\<open>apic.c\<close>, \<^verbatim>\<open>include/apic.h\<close>), the I/O APIC
  (\<^verbatim>\<open>io_apic.c\<close>, \<^verbatim>\<open>include/io_apic.h\<close>), the waking of the other processors (\<^verbatim>\<open>smp.c\<close>) and the old
  interrupt controller (\<^verbatim>\<open>pic8259.c\<close>).

  The local APIC is hardware: what a store to one of its registers does to the registers is a
  parameter \<open>hw\<close> of the model. The locale \<open>local_apic\<close> names the documented behaviour the code
  relies on, and \<open>xapic\<close> is a device that has it. The I/O APIC is its index register and the
  registers behind the window; the 8259 is the sequence of port writes it has received.
\<close>

subsection \<open>Registers of the local APIC\<close>

definition APIC_ID :: u64 where [kconst]: "APIC_ID = 0x20"
definition APIC_ID_MASK :: u32 where [kconst]: "APIC_ID_MASK = push_bit 24 0xFF"
definition APIC_LVR :: u64 where [kconst]: "APIC_LVR = 0x30"
definition APIC_LVR_MASK :: u32 where [kconst]: "APIC_LVR_MASK = 0xFF00FF"
definition APIC_TASKPRI :: u64 where [kconst]: "APIC_TASKPRI = 0x80"
definition APIC_EOI :: u64 where [kconst]: "APIC_EOI = 0xB0"
definition APIC_SPIV :: u64 where [kconst]: "APIC_SPIV = 0xF0"
definition APIC_SPIV_APIC_ENABLED :: u32 where [kconst]: "APIC_SPIV_APIC_ENABLED = push_bit 8 1"
definition APIC_ICR :: u64 where [kconst]: "APIC_ICR = 0x300"
definition APIC_DEST_ALLBUT :: u32 where [kconst]: "APIC_DEST_ALLBUT = 0xC0000"
definition APIC_INT_ASSERT :: u32 where [kconst]: "APIC_INT_ASSERT = 0x4000"
definition APIC_ICR_BUSY :: u32 where [kconst]: "APIC_ICR_BUSY = 0x1000"
definition APIC_DM_INIT :: u32 where [kconst]: "APIC_DM_INIT = 0x500"
definition APIC_DM_STARTUP :: u32 where [kconst]: "APIC_DM_STARTUP = 0x600"
definition APIC_LVTT :: u64 where [kconst]: "APIC_LVTT = 0x320"
definition APIC_LVTTHMR :: u64 where [kconst]: "APIC_LVTTHMR = 0x330"
definition APIC_LVTPC :: u64 where [kconst]: "APIC_LVTPC = 0x340"
definition APIC_LVT0 :: u64 where [kconst]: "APIC_LVT0 = 0x350"
definition APIC_LVT1 :: u64 where [kconst]: "APIC_LVT1 = 0x360"
definition APIC_LVTERR :: u64 where [kconst]: "APIC_LVTERR = 0x370"
definition APIC_LVT_TIMER_PERIODIC :: u32 where [kconst]: "APIC_LVT_TIMER_PERIODIC = push_bit 17 1"
definition APIC_LVT_MASKED :: u32 where [kconst]: "APIC_LVT_MASKED = push_bit 16 1"
definition APIC_TMICT :: u64 where [kconst]: "APIC_TMICT = 0x380"
definition APIC_TDCR :: u64 where [kconst]: "APIC_TDCR = 0x3E0"
definition APIC_TDR_DIV_64 :: u32 where [kconst]: "APIC_TDR_DIV_64 = 0x9"
definition AP_INIT_ADDRESS :: u32 where [kconst]: "AP_INIT_ADDRESS = 0x9000"

definition GET_APIC_VERSION :: "u32 \<Rightarrow> u32" where "GET_APIC_VERSION x = x AND 0xFF"
definition GET_APIC_MAXLVT :: "u32 \<Rightarrow> u32" where "GET_APIC_MAXLVT x = drop_bit 16 x AND 0xFF"

subsection \<open>Registers of the I/O APIC\<close>

definition IO_APIC_VERSION :: u32 where [kconst]: "IO_APIC_VERSION = 0x1"
definition IO_APIC_REDTBL_BASE :: u32 where [kconst]: "IO_APIC_REDTBL_BASE = 0x10"
definition IO_APIC_IRQ_MASK :: u64 where [kconst]: "IO_APIC_IRQ_MASK = push_bit 16 1"
definition IO_APIC_TRIG_MODE :: u64 where [kconst]: "IO_APIC_TRIG_MODE = push_bit 15 1"
definition IO_APIC_INTPOL :: u64 where [kconst]: "IO_APIC_INTPOL = push_bit 13 1"
definition IO_APIC_DESTMOD :: u64 where [kconst]: "IO_APIC_DESTMOD = push_bit 11 1"
definition IO_APIC_DELMOD_FIX :: u64 where [kconst]: "IO_APIC_DELMOD_FIX = push_bit 8 0"

definition GET_IO_APIC_VERSION :: "u32 \<Rightarrow> u32" where "GET_IO_APIC_VERSION x = x AND 0xF"
definition GET_IO_APIC_ENTRY :: "u32 \<Rightarrow> u32" where "GET_IO_APIC_ENTRY x = drop_bit 16 x AND 0xFF"
definition SET_IO_APIC_DEST :: "u64 \<Rightarrow> u64" where "SET_IO_APIC_DEST x = push_bit 56 (x AND 0xFF)"

subsection \<open>Interrupt numbers\<close>

definition DEVICE_IRQ_BASE :: nat where [kconst]: "DEVICE_IRQ_BASE = 0"
definition KEYBOARD_IRQ :: nat where [kconst]: "KEYBOARD_IRQ = DEVICE_IRQ_BASE + 1"
definition CPU_IRQ_BASE :: nat where [kconst]: "CPU_IRQ_BASE = 0x10"
definition BSP_TIMER_IRQ :: nat where [kconst]: "BSP_TIMER_IRQ = CPU_IRQ_BASE + 0"
definition SPURIOUS_IRQ :: nat where [kconst]: "SPURIOUS_IRQ = CPU_IRQ_BASE + 3"

subsection \<open>State\<close>

text \<open>
  \<open>lapic\<close> are the registers of this processor's local APIC and \<open>lapic_log\<close> the stores to them,
  newest last; \<open>screen\<close> is the console that messages go to.
\<close>

type_synonym lapic_regs = "u64 \<Rightarrow> u32"
type_synonym lapic_hw = "u64 \<Rightarrow> u32 \<Rightarrow> lapic_regs \<Rightarrow> lapic_regs"

record apic_state =
  lapic :: lapic_regs
  lapic_log :: "(u64 \<times> u32) list"
  io_index :: u32
  io_regs :: "u32 \<Rightarrow> u32"
  screen :: console
  mp :: mp_state

definition on_screen ::
  "(console \<Rightarrow> console outcome) \<Rightarrow> 'a apic_state_scheme \<Rightarrow> 'a apic_state_scheme outcome" where
  "on_screen f s = obind (f (screen s)) (\<lambda>k. Done (s\<lparr>screen := k\<rparr>))"

definition apic_read :: "u64 \<Rightarrow> 'a apic_state_scheme \<Rightarrow> u32" where
  "apic_read reg s = lapic s reg"

definition apic_write :: "lapic_hw \<Rightarrow> u64 \<Rightarrow> u32 \<Rightarrow> 'a apic_state_scheme \<Rightarrow> 'a apic_state_scheme" where
  "apic_write hw reg v s = s\<lparr>lapic := hw reg v (lapic s), lapic_log := lapic_log s @ [(reg, v)]\<rparr>"

definition ack_APIC :: "lapic_hw \<Rightarrow> 'a apic_state_scheme \<Rightarrow> 'a apic_state_scheme" where
  "ack_APIC hw s = apic_write hw APIC_EOI 0 s"

definition cpu_id :: "'a apic_state_scheme \<Rightarrow> u64" where
  "cpu_id s = ucast (apic_read APIC_ID s)"

subsection \<open>The local APIC of the boot processor\<close>

definition verify_local_APIC :: "lapic_hw \<Rightarrow> 'a apic_state_scheme \<Rightarrow> bool \<times> 'a apic_state_scheme" where
  "verify_local_APIC hw s =
     (let reg0 = apic_read APIC_LVR s;
          s1 = apic_write hw APIC_LVR (reg0 XOR APIC_LVR_MASK) s;
          reg1 = apic_read APIC_LVR s1
      in if reg1 \<noteq> reg0 then (False, s1)
         else if GET_APIC_VERSION reg0 = 0 \<or> GET_APIC_VERSION reg0 = 0xff then (False, s1)
         else if GET_APIC_MAXLVT reg0 < 2 \<or> GET_APIC_MAXLVT reg0 = 0xff then (False, s1)
         else let id0 = apic_read APIC_ID s1;
                  s2 = apic_write hw APIC_ID (id0 XOR APIC_ID_MASK) s1;
                  id1 = apic_read APIC_ID s2;
                  s3 = apic_write hw APIC_ID id0 s2
              in (id1 = id0 XOR APIC_ID_MASK, s3))"

text \<open>
  \<^verbatim>\<open>init_bsp_APIC\<close>: the check of the processor, the check of the APIC, and the set-up. The second
  comparison of the identifier is evaluated only when the first one finds no difference.
\<close>

definition check_bsp :: "'a apic_state_scheme \<Rightarrow> bool outcome" where
  "check_bsp s =
     (let lapic_id = apic_read APIC_ID s
      in if ucast lapic_id \<noteq> boot_cpu_id (mp s) then Done False
         else obind (aget (x86_cpu_to_apicid (mp s)) (unat (boot_cpu_id (mp s)))) (\<lambda>i. Done (lapic_id = ucast i)))"

definition setup_lapic :: "lapic_hw \<Rightarrow> 'a apic_state_scheme \<Rightarrow> 'a apic_state_scheme outcome" where
  "setup_lapic hw s =
     (let s1 = fold (\<lambda>reg. apic_write hw reg 0x10000)
                 [APIC_LVTT, APIC_LVTTHMR, APIC_LVTPC, APIC_LVT1, APIC_LVT0, APIC_LVTERR] s;
          s2 = apic_write hw APIC_TASKPRI 0 s1;
          s3 = apic_write hw APIC_SPIV (apic_read APIC_SPIV s2 OR of_nat (IRQ_TO_VECTOR SPURIOUS_IRQ)) s2;
          s4 = apic_write hw APIC_EOI 0 s3;
          s5 = apic_write hw APIC_SPIV (apic_read APIC_SPIV s4 OR APIC_SPIV_APIC_ENABLED) s4
      in obind (if apic_read APIC_SPIV s5 AND APIC_SPIV_APIC_ENABLED \<noteq> 0
                then on_screen (caos_printf ''enabled\<newline>'' []) s5 else Done s5)
         (\<lambda>s6. Done (apic_write hw APIC_EOI 0 s6)))"

definition init_bsp_APIC :: "lapic_hw \<Rightarrow> 'a apic_state_scheme \<Rightarrow> 'a apic_state_scheme outcome" where
  "init_bsp_APIC hw s =
     obind (check_bsp s) (\<lambda>bsp.
     if \<not> bsp
     then obind (on_screen (caos_printf ''This is not BSP! Please reboot system.\<newline>'' []) s) (\<lambda>_. halt)
     else case verify_local_APIC hw s of (ok, s1) \<Rightarrow>
       if \<not> ok
       then obind (on_screen (caos_printf ''\<newline>Cannot verify BSP's Local APIC!!\<newline>'' []) s1) (\<lambda>_. halt)
       else setup_lapic hw s1)"

subsection \<open>Waking the other processors\<close>

text \<open>
  \<^verbatim>\<open>delay\<close> only passes time. The model of it is the number of iterations that its inner loop
  makes: \<^verbatim>\<open>a\<close> starts at -1, and the loop runs while it is positive. The calls of it in \<^verbatim>\<open>wake_ap\<close>
  change no state.
\<close>

function inner_delay :: "int \<Rightarrow> int \<times> nat" where
  "inner_delay a = (if 0 < a then case inner_delay (a - 1) of (a', k) \<Rightarrow> (a', Suc k) else (a, 0))"
  by pat_completeness auto
termination by (relation "measure nat") auto

primrec delay_loop :: "nat \<Rightarrow> int \<Rightarrow> nat" where
  "delay_loop 0 a = 0"
| "delay_loop (Suc count) a = (case inner_delay a of (a', k) \<Rightarrow> k + delay_loop count a')"

definition delay :: "nat \<Rightarrow> nat" where
  "delay count = delay_loop count (- 1)"

definition wake_ap :: "lapic_hw \<Rightarrow> 'a apic_state_scheme \<Rightarrow> 'a apic_state_scheme outcome" where
  "wake_ap hw s =
     (let startup = APIC_DEST_ALLBUT OR APIC_INT_ASSERT OR APIC_DM_STARTUP OR drop_bit 12 AP_INIT_ADDRESS;
          s1 = apic_write hw APIC_ICR (APIC_DEST_ALLBUT OR APIC_INT_ASSERT OR APIC_DM_INIT) s;
          s2 = apic_write hw APIC_ICR startup s1;
          s3 = apic_write hw APIC_ICR startup s2
      in if apic_read APIC_ICR s3 AND APIC_ICR_BUSY \<noteq> 0
         then obind (on_screen (caos_printf ''AP-WAKENING FAIL!\<newline>'' []) s3) (\<lambda>_. halt)
         else Done s3)"

subsection \<open>The I/O APIC\<close>

definition io_apic_read :: "u32 \<Rightarrow> 'a apic_state_scheme \<Rightarrow> u32 \<times> 'a apic_state_scheme" where
  "io_apic_read reg s = (let s1 = s\<lparr>io_index := reg\<rparr> in (io_regs s1 (io_index s1), s1))"

definition io_apic_modify :: "u32 \<Rightarrow> 'a apic_state_scheme \<Rightarrow> 'a apic_state_scheme" where
  "io_apic_modify value s = s\<lparr>io_regs := (io_regs s)(io_index s := value)\<rparr>"

definition io_apic_write :: "u32 \<Rightarrow> u32 \<Rightarrow> 'a apic_state_scheme \<Rightarrow> 'a apic_state_scheme" where
  "io_apic_write reg value s =
     (let s1 = s\<lparr>io_index := reg\<rparr> in s1\<lparr>io_regs := (io_regs s1)(io_index s1 := value)\<rparr>)"

text \<open>
  The entry is built in 64 bits and handed to a function that takes 32. The result is the
  return value of the C function.
\<close>

definition redirection :: "u64 \<Rightarrow> u64" where
  "redirection irq =
     (let tbl = 0 OR SET_IO_APIC_DEST 0;
          tbl = tbl AND NOT IO_APIC_IRQ_MASK;
          tbl = tbl OR IO_APIC_TRIG_MODE;
          tbl = tbl OR IO_APIC_INTPOL;
          tbl = tbl AND NOT IO_APIC_DESTMOD;
          tbl = tbl OR IO_APIC_DELMOD_FIX
      in tbl OR (irq + of_nat VECTOR_BASE))"

definition io_apic_enable_irq :: "u64 \<Rightarrow> 'a apic_state_scheme \<Rightarrow> int \<times> 'a apic_state_scheme" where
  "io_apic_enable_irq irq s =
     (case io_apic_read IO_APIC_VERSION s of (v, s1) \<Rightarrow>
        let entry = uint (GET_IO_APIC_ENTRY v)
        in if entry < sint irq then (- 1, s1)
           else (0, io_apic_write (ucast (ucast IO_APIC_REDTBL_BASE + irq * 2)) (ucast (redirection irq)) s1))"

definition io_apic_init :: "'a apic_state_scheme \<Rightarrow> 'a apic_state_scheme outcome" where
  "io_apic_init s =
     (let s1 = s\<lparr>screen := outb 0x23 1 (outb 0x22 0x70 (screen s))\<rparr>
      in case io_apic_read 0 s1 of (ident, s2) \<Rightarrow>
         obind (on_screen (caos_printf ''IO APIC ID=%x\<newline>'' [ArgInt (ucast (drop_bit 24 ident AND 0xF))]) s2) (\<lambda>s3.
         case io_apic_read IO_APIC_VERSION s3 of (v, s4) \<Rightarrow>
         obind (on_screen (caos_printf ''IO APIC VER=%x '' [ArgInt (ucast (GET_IO_APIC_VERSION v))]) s4) (\<lambda>s5.
         case io_apic_read 1 s5 of (w, s6) \<Rightarrow>
         on_screen (caos_printf ''IO APIC Entry=%d\<newline>'' [ArgInt (ucast (GET_IO_APIC_ENTRY w))]) s6)))"

declare inner_delay.simps [simp del]

subsection \<open>The documented device\<close>

definition lvt_regs :: "u64 list" where
  "lvt_regs = [APIC_LVTT, APIC_LVTTHMR, APIC_LVTPC, APIC_LVT1, APIC_LVT0, APIC_LVTERR]"

lemma apic_regs_distinct:
  "distinct [APIC_ID, APIC_LVR, APIC_TASKPRI, APIC_EOI, APIC_SPIV, APIC_ICR, APIC_LVTT, APIC_LVTTHMR,
     APIC_LVTPC, APIC_LVT1, APIC_LVT0, APIC_LVTERR, APIC_TMICT, APIC_TDCR]"
  "distinct [APIC_TDCR, APIC_TMICT, APIC_LVTERR, APIC_LVT0, APIC_LVT1, APIC_LVTPC, APIC_LVTTHMR,
     APIC_LVTT, APIC_ICR, APIC_SPIV, APIC_EOI, APIC_TASKPRI, APIC_LVR, APIC_ID]"
  by (simp_all add: kconst)

lemmas apic_regs_neq [simp] =
  apic_regs_distinct [simplified distinct.simps list.set insert_iff empty_iff de_Morgan_disj simp_thms]

text \<open>The fields that no operation on the local APIC changes.\<close>

definition same_rest :: "'a apic_state_scheme \<Rightarrow> 'a apic_state_scheme \<Rightarrow> bool" where
  "same_rest s s' \<longleftrightarrow> io_regs s' = io_regs s \<and> io_index s' = io_index s \<and> mp s' = mp s \<and>
     apic_state.more s' = apic_state.more s"

lemma same_rest_simps [simp]:
  "same_rest s (apic_write hw reg v s') \<longleftrightarrow> same_rest s s'" "same_rest (apic_write hw reg v s) s' \<longleftrightarrow> same_rest s s'"
  "same_rest s (s'\<lparr>screen := k\<rparr>) \<longleftrightarrow> same_rest s s'" "same_rest s s"
  by (simp_all add: same_rest_def apic_write_def)

lemma same_rest_trans [trans]: "same_rest s s' \<Longrightarrow> same_rest s' s'' \<Longrightarrow> same_rest s s''"
  by (simp add: same_rest_def)

lemma same_rest_fold [simp]: "same_rest s (fold (\<lambda>reg. apic_write hw reg v) regs s') \<longleftrightarrow> same_rest s s'"
  by (induction regs arbitrary: s') simp_all

text \<open>
  What the code relies on: the version register is read-only; the identifier keeps its
  top byte, the task priority its low byte, and the spurious-vector register its vector and its
  enable bit, and all three change only when they are written; an entry of the local vector
  table that is written masked, or is masked while another register is written, is masked; and
  the timer entry takes the vector, the mask and the mode written to it if the APIC is enabled
  or the entry is to be masked, and only disabling the APIC changes them otherwise.
\<close>

locale local_apic =
  fixes hw :: lapic_hw
  assumes version_ro: "hw reg v r APIC_LVR = r APIC_LVR"
    and id_write: "hw APIC_ID v r APIC_ID = v AND APIC_ID_MASK"
    and id_keep: "reg \<noteq> APIC_ID \<Longrightarrow> hw reg v r APIC_ID = r APIC_ID"
    and pri_write: "hw APIC_TASKPRI v r APIC_TASKPRI = v AND 0xFF"
    and pri_keep: "reg \<noteq> APIC_TASKPRI \<Longrightarrow> hw reg v r APIC_TASKPRI = r APIC_TASKPRI"
    and spiv_write: "hw APIC_SPIV v r APIC_SPIV AND 0x1FF = v AND 0x1FF"
    and spiv_keep: "reg \<noteq> APIC_SPIV \<Longrightarrow> hw reg v r APIC_SPIV = r APIC_SPIV"
    and lvt_masked: "lvt \<in> set lvt_regs \<Longrightarrow> bit v 16 \<Longrightarrow> bit (hw lvt v r lvt) 16"
    and lvt_keep: "lvt \<in> set lvt_regs \<Longrightarrow> reg \<noteq> lvt \<Longrightarrow> bit (r lvt) 16 \<Longrightarrow> bit (hw reg v r lvt) 16"
    and timer_write: "bit (r APIC_SPIV) 8 \<or> bit v 16 \<Longrightarrow> hw APIC_LVTT v r APIC_LVTT AND 0x300FF = v AND 0x300FF"
    and timer_keep: "reg \<noteq> APIC_LVTT \<Longrightarrow> reg \<noteq> APIC_SPIV \<or> bit (r APIC_LVTT) 16 \<Longrightarrow>
      hw reg v r APIC_LVTT AND 0x300FF = r APIC_LVTT AND 0x300FF"
begin

lemma verify_ok:
  assumes "lapic s APIC_ID AND NOT APIC_ID_MASK = 0"
    and "GET_APIC_VERSION (lapic s APIC_LVR) \<notin> {0, 0xff}" "2 \<le> GET_APIC_MAXLVT (lapic s APIC_LVR)"
    "GET_APIC_MAXLVT (lapic s APIC_LVR) \<noteq> 0xff"
  shows "\<exists>s'. verify_local_APIC hw s = (True, s') \<and> lapic s' APIC_ID = lapic s APIC_ID \<and>
    lapic s' APIC_SPIV = lapic s APIC_SPIV \<and> screen s' = screen s \<and> same_rest s s'"
proof -
  have x: "(i XOR APIC_ID_MASK) AND APIC_ID_MASK = i XOR APIC_ID_MASK \<and> i AND APIC_ID_MASK = i"
    if "i AND NOT APIC_ID_MASK = 0" for i
    using that by (simp add: bit_eq_iff bit_simps) blast
  from assms(1) show ?thesis
    using assms(2-4) x [OF assms(1)]
    by (simp add: verify_local_APIC_def Let_def apic_read_def apic_write_def version_ro id_write id_keep spiv_keep not_less same_rest_def)
qed

text \<open>Masking the table, one register after the other.\<close>

lemma mask_all:
  assumes "set done \<union> set regs \<subseteq> set lvt_regs" "\<forall>l \<in> set done. bit (lapic s l) 16"
  shows "(\<forall>l \<in> set done \<union> set regs. bit (lapic (fold (\<lambda>reg. apic_write hw reg 0x10000) regs s) l) 16)"
  using assms
proof (induction regs arbitrary: s "done")
  case Nil
  then show ?case by simp
next
  case (Cons reg regs)
  let ?s = "apic_write hw reg 0x10000 s"
  have "bit (lapic ?s l) 16" if "l \<in> set (reg # done)" for l
    using that Cons.prems lvt_masked [of l "0x10000"] lvt_keep [of l reg]
    by (cases "l = reg") (auto simp: apic_write_def bit_simps)
  with Cons.IH [of "reg # done" ?s] Cons.prems(1) show ?case by auto
qed

lemma fold_write_keep:
  "set regs \<subseteq> set lvt_regs \<Longrightarrow>
    lapic (fold (\<lambda>reg. apic_write hw reg 0x10000) regs s) APIC_ID = lapic s APIC_ID \<and>
    lapic (fold (\<lambda>reg. apic_write hw reg 0x10000) regs s) APIC_SPIV = lapic s APIC_SPIV \<and>
    screen (fold (\<lambda>reg. apic_write hw reg 0x10000) regs s) = screen s"
proof (induction regs arbitrary: s)
  case (Cons reg regs)
  then have "reg \<noteq> APIC_ID" "reg \<noteq> APIC_SPIV" by (auto simp: lvt_regs_def)
  then show ?case using Cons by (simp add: apic_write_def id_keep spiv_keep)
qed simp

lemma setup_ok:
  assumes "screen_ok (screen s)"
  shows "\<exists>s'. setup_lapic hw s = Done s' \<and> (\<forall>l \<in> set lvt_regs. bit (lapic s' l) 16) \<and>
    lapic s' APIC_TASKPRI = 0 \<and> lapic s' APIC_ID = lapic s APIC_ID \<and> lapic s' APIC_LVTT AND 0x300FF = 0x10000 \<and>
    lapic s' APIC_SPIV AND 0x1FF = (lapic s APIC_SPIV OR 0x133) AND 0x1FF \<and> screen_ok (screen s') \<and> same_rest s s'"
proof -
  define s1 where "s1 = fold (\<lambda>reg. apic_write hw reg 0x10000) lvt_regs s"
  have m1: "\<forall>l \<in> set lvt_regs. bit (lapic s1 l) 16"
    using mask_all [of "[]" lvt_regs s] by (simp add: s1_def)
  have k1: "lapic s1 APIC_ID = lapic s APIC_ID" "lapic s1 APIC_SPIV = lapic s APIC_SPIV" "screen s1 = screen s"
    using fold_write_keep [of lvt_regs s] by (simp_all add: s1_def)
  define s5 where "s5 = (let s2 = apic_write hw APIC_TASKPRI 0 s1;
      s3 = apic_write hw APIC_SPIV (apic_read APIC_SPIV s2 OR 0x33) s2;
      s4 = apic_write hw APIC_EOI 0 s3
    in apic_write hw APIC_SPIV (apic_read APIC_SPIV s4 OR APIC_SPIV_APIC_ENABLED) s4)"
  have notin: "APIC_TASKPRI \<notin> set lvt_regs" "APIC_SPIV \<notin> set lvt_regs" "APIC_EOI \<notin> set lvt_regs"
    by (simp_all add: lvt_regs_def)
  have t1: "lapic s1 APIC_LVTT AND 0x300FF = 0x10000"
    using timer_write [of "lapic s" "0x10000"] by (simp add: s1_def lvt_regs_def apic_write_def timer_keep bit_simps)
  have "bit (lapic s1 APIC_LVTT) 16" using m1 by (simp add: lvt_regs_def)
  moreover have "APIC_LVTT \<in> set lvt_regs" by (simp add: lvt_regs_def)
  ultimately have t5: "lapic s5 APIC_LVTT AND 0x300FF = 0x10000"
    using t1 by (simp add: s5_def Let_def apic_write_def timer_keep lvt_keep)
  have m5: "\<forall>l \<in> set lvt_regs. bit (lapic s5 l) 16"
    using m1 notin by (auto simp: s5_def Let_def apic_write_def intro!: lvt_keep)
  have k5: "lapic s5 APIC_ID = lapic s APIC_ID" "lapic s5 APIC_TASKPRI = 0" "screen s5 = screen s"
    using k1 by (simp_all add: s5_def Let_def apic_write_def id_keep pri_keep pri_write)
  have r5: "same_rest s s5" by (simp add: s5_def s1_def Let_def)
  have or_and: "(x OR y) AND m = (x AND m) OR (y AND m)" for x y m :: u32 by (rule bit_word_eqI) (auto simp: bit_simps)
  have sp: "lapic s5 APIC_SPIV AND 0x1FF = (lapic s APIC_SPIV OR 0x133) AND 0x1FF"
  proof -
    have "lapic s5 APIC_SPIV AND 0x1FF = (lapic s1 APIC_SPIV AND 0x1FF) OR 0x133"
      by (simp add: s5_def Let_def apic_write_def apic_read_def spiv_write spiv_keep or_and
          APIC_SPIV_APIC_ENABLED_def or.assoc)
    then show ?thesis using k1 by (simp add: or_and)
  qed
  have "lapic s5 APIC_SPIV AND APIC_SPIV_APIC_ENABLED = lapic s5 APIC_SPIV AND 0x1FF AND 0x100"
    by (simp add: kconst)
  also have "\<dots> = 0x100" unfolding and.assoc [symmetric] sp by (simp add: or_and and.assoc)
  finally have en: "lapic s5 APIC_SPIV AND APIC_SPIV_APIC_ENABLED \<noteq> 0" by simp
  obtain k where k: "caos_printf ''enabled\<newline>'' [] (screen s5) = Done k" "screen_ok k"
    using printf_ok [of "screen s5" "''enabled\<newline>''" "[]" "bytes ''enabled\<newline>''"] assms k5(3)
    by (auto simp: bytes_def conversion_def)
  have "setup_lapic hw s = Done (apic_write hw APIC_EOI 0 (s5\<lparr>screen := k\<rparr>))"
    using en k(1) unfolding setup_lapic_def s5_def s1_def lvt_regs_def
    by (simp add: Let_def IRQ_TO_VECTOR_def VECTOR_BASE_def SPURIOUS_IRQ_def CPU_IRQ_BASE_def on_screen_def apic_read_def)
  moreover have "\<forall>l \<in> set lvt_regs. bit (lapic (apic_write hw APIC_EOI 0 (s5\<lparr>screen := k\<rparr>)) l) 16"
    using m5 notin by (auto simp: apic_write_def intro!: lvt_keep)
  ultimately show ?thesis
    using k5 sp t5 k(2) r5 by (simp add: apic_write_def same_rest_def pri_keep id_keep spiv_keep timer_keep)
qed

end

text \<open>
  A device with the documented behaviour of the registers above. A software-disabled APIC
  keeps its local vector table masked.
\<close>

definition xapic :: lapic_hw where
  "xapic reg v r =
     (if reg = APIC_LVR then r
      else if reg = APIC_ID then r(APIC_ID := v AND APIC_ID_MASK)
      else if reg = APIC_TASKPRI then r(APIC_TASKPRI := v AND 0xFF)
      else if reg = APIC_EOI then r
      else if reg = APIC_SPIV
      then (\<lambda>q. if q = APIC_SPIV then v AND 0x3FF
                else if q \<in> set lvt_regs \<and> \<not> bit v 8 then r q OR APIC_LVT_MASKED else r q)
      else if reg \<in> set lvt_regs
      then r(reg := if bit (r APIC_SPIV) 8 then v AND 0x3A7FF else v AND 0x3A7FF OR APIC_LVT_MASKED)
      else r(reg := v))"

interpretation xapic: local_apic xapic
proof
  have m: "v AND 0x3FF AND 0x1FF = v AND 0x1FF" "(v AND 0x3A7FF) AND 0x300FF = v AND 0x300FF" for v :: u32
    by (simp_all add: and.assoc)
  show "xapic APIC_SPIV v r APIC_SPIV AND 0x1FF = v AND 0x1FF" for v r
    by (simp add: xapic_def and.assoc)
  have or: "(w OR APIC_LVT_MASKED) AND 0x300FF = w AND 0x300FF" if "bit w 16" for w :: u32
  proof -
    have "Bit_Operations.set_bit 16 w = w" using that by (intro bit_word_eqI) (auto simp: bit_set_bit_iff)
    then show ?thesis by (simp only: APIC_LVT_MASKED_def set_bit_eq_or)
  qed
  have b: "bit (0x3A7FF :: u32) 16" "bit APIC_LVT_MASKED 16"
    by code_simp (simp add: APIC_LVT_MASKED_def bit_push_bit_iff)
  show "bit (r APIC_SPIV) 8 \<or> bit v 16 \<Longrightarrow> xapic APIC_LVTT v r APIC_LVTT AND 0x300FF = v AND 0x300FF" for v r
    using m(2) [of v] or [of "v AND 0x3A7FF"] b(1) by (auto simp: xapic_def lvt_regs_def bit_and_iff)
  show "reg \<noteq> APIC_LVTT \<Longrightarrow> reg \<noteq> APIC_SPIV \<or> bit (r APIC_LVTT) 16 \<Longrightarrow>
      xapic reg v r APIC_LVTT AND 0x300FF = r APIC_LVTT AND 0x300FF" for reg v r
    using or [of "r APIC_LVTT"] by (auto simp: xapic_def lvt_regs_def)
  fix lvt reg :: u64 and v :: u32 and r
  assume lvt: "lvt \<in> set lvt_regs"
  then have neq: "lvt \<notin> {APIC_LVR, APIC_ID, APIC_TASKPRI, APIC_EOI, APIC_SPIV}" by (auto simp: lvt_regs_def)
  show "bit v 16 \<Longrightarrow> bit (xapic lvt v r lvt) 16"
    using lvt neq b by (simp add: xapic_def bit_and_iff bit_or_iff)
  show "reg \<noteq> lvt \<Longrightarrow> bit (r lvt) 16 \<Longrightarrow> bit (xapic reg v r lvt) 16"
    using lvt neq by (auto simp: xapic_def bit_or_iff)
qed (auto simp: xapic_def lvt_regs_def)

subsection \<open>Properties\<close>

lemma init_bsp_APIC_done:
  assumes "local_apic hw" "screen_ok (screen s)"
    and id: "lapic s APIC_ID = 0" "boot_cpu_id (mp s) = 0" "x86_cpu_to_apicid (mp s) = 0 # rest"
    and ver: "GET_APIC_VERSION (lapic s APIC_LVR) \<notin> {0, 0xff}" "2 \<le> GET_APIC_MAXLVT (lapic s APIC_LVR)"
      "GET_APIC_MAXLVT (lapic s APIC_LVR) \<noteq> 0xff"
  shows "\<exists>s'. init_bsp_APIC hw s = Done s' \<and>
    (\<forall>l \<in> {APIC_LVTT, APIC_LVTTHMR, APIC_LVTPC, APIC_LVT1, APIC_LVT0, APIC_LVTERR}. bit (lapic s' l) 16) \<and>
    lapic s' APIC_TASKPRI = 0 \<and> lapic s' APIC_ID = 0 \<and> lapic s' APIC_LVTT AND 0x300FF = 0x10000 \<and>
    lapic s' APIC_SPIV AND 0x1FF = (lapic s APIC_SPIV OR 0x133) AND 0x1FF \<and> screen_ok (screen s') \<and> same_rest s s'"
proof -
  have bsp: "check_bsp s = Done True" using id by (simp add: check_bsp_def Let_def apic_read_def outcome_simps)
  obtain s1 where s1: "verify_local_APIC hw s = (True, s1)" "lapic s1 APIC_ID = 0"
    "lapic s1 APIC_SPIV = lapic s APIC_SPIV" "screen s1 = screen s" "same_rest s s1"
    using local_apic.verify_ok [OF assms(1), of s] id(1) ver by auto
  obtain s' where "setup_lapic hw s1 = Done s'" "\<forall>l \<in> set lvt_regs. bit (lapic s' l) 16"
    "lapic s' APIC_TASKPRI = 0" "lapic s' APIC_ID = 0" "lapic s' APIC_LVTT AND 0x300FF = 0x10000"
    "lapic s' APIC_SPIV AND 0x1FF = (lapic s APIC_SPIV OR 0x133) AND 0x1FF" "screen_ok (screen s')" "same_rest s1 s'"
    using local_apic.setup_ok [OF assms(1), of s1] s1 assms(2) by auto
  then show ?thesis
    using bsp s1(1) same_rest_trans [OF s1(5)] by (simp add: init_bsp_APIC_def lvt_regs_def del: obind_eq_Done_iff)
qed

text \<open>The start-up messages are delivered at once when the busy bit of the command register is clear behind them.\<close>

lemma wake_ap_done:
  assumes "\<And>r. hw APIC_ICR 0xC4609 r APIC_ICR AND APIC_ICR_BUSY = 0"
  shows "wake_ap hw s = Done (apic_write hw APIC_ICR 0xC4609 (apic_write hw APIC_ICR 0xC4609 (apic_write hw APIC_ICR 0xC4500 s)))"
proof -
  have c: "APIC_DEST_ALLBUT OR APIC_INT_ASSERT OR APIC_DM_INIT = 0xC4500"
    "APIC_DEST_ALLBUT OR APIC_INT_ASSERT OR APIC_DM_STARTUP OR drop_bit 12 AP_INIT_ADDRESS = 0xC4609"
    by (simp_all add: kconst)
  show ?thesis unfolding wake_ap_def Let_def c using assms by (simp add: apic_write_def apic_read_def)
qed

lemma on_screen_lock_bt:
  "on_screen (caos_printf fmt args) s = Done s' \<Longrightarrow> lock_bt (screen s') = lock_bt (screen s)"
  by (auto simp: on_screen_def dest: printf_lock_bt)

lemma init_bsp_APIC_lock_bt:
  assumes "init_bsp_APIC hw s = Done s'"
  shows "lock_bt (screen s') = lock_bt (screen s)"
proof -
  have v: "screen (snd (verify_local_APIC hw s)) = screen s"
    by (simp add: verify_local_APIC_def apic_write_def Let_def)
  obtain ok s1 where s1: "verify_local_APIC hw s = (ok, s1)" by fastforce
  then have "setup_lapic hw s1 = Done s'"
    using assms by (auto simp: init_bsp_APIC_def halt_def split: if_splits)
  then have "lock_bt (screen s') = lock_bt (screen s1)"
    by (auto simp: setup_lapic_def Let_def apic_write_def split: if_splits dest: on_screen_lock_bt)
  then show ?thesis using v s1 by simp
qed

lemma screen_line:
  assumes "console_up (screen s)" "render True (bytes fmt) args = Some t" "0x08 \<notin> set t" "0 \<notin> set t" "length t < 128"
  shows "\<exists>k. on_screen (caos_printf fmt args) s = Done (s\<lparr>screen := k\<rparr>) \<and> console_up k"
  using printf_up [OF assms] by (auto simp: on_screen_def)

lemma io_apic_init_done:
  assumes "console_up (screen s)"
  shows "\<exists>k. io_apic_init s = Done (s\<lparr>io_index := 1, screen := k\<rparr>) \<and> console_up k"
proof -
  define s2 where "s2 = s\<lparr>screen := outb 0x23 1 (outb 0x22 0x70 (screen s)), io_index := 0\<rparr>"
  have r1: "render True (bytes ''IO APIC ID=%x\<newline>'') [ArgInt a] = Some (bytes ''IO APIC ID='' @ hex_str a @ [0x0A])"
    and r2: "render True (bytes ''IO APIC VER=%x '') [ArgInt a] = Some (bytes ''IO APIC VER='' @ hex_str a @ [0x20])"
    and r3: "render True (bytes ''IO APIC Entry=%d\<newline>'') [ArgInt a] = Some (bytes ''IO APIC Entry='' @ dec_str a @ [0x0A])" for a
    by (simp_all add: bytes_def conversion_def)
  define a b where "a = (ucast (drop_bit 24 (io_regs s 0) AND 0xF) :: u64)" and "b = (ucast (GET_IO_APIC_VERSION (io_regs s IO_APIC_VERSION)) :: u64)"
  define d where "d = (ucast (GET_IO_APIC_ENTRY (io_regs s 1)) :: u64)"
  have "console_up (screen s2)" using assms by (simp add: s2_def console_up_def screen_ok_def outb_def)
  from screen_line [OF this r1, of a] hex_str_clean [of a] hex_str_length [of a]
  obtain k3 where k3: "on_screen (caos_printf ''IO APIC ID=%x\<newline>'' [ArgInt a]) s2 = Done (s2\<lparr>screen := k3\<rparr>)" "console_up k3"
    by (auto simp: bytes_def)
  define s4 where "s4 = s2\<lparr>screen := k3, io_index := IO_APIC_VERSION\<rparr>"
  have "console_up (screen s4)" using k3(2) by (simp add: s4_def)
  from screen_line [OF this r2, of b] hex_str_clean [of b] hex_str_length [of b]
  obtain k5 where k5: "on_screen (caos_printf ''IO APIC VER=%x '' [ArgInt b]) s4 = Done (s4\<lparr>screen := k5\<rparr>)" "console_up k5"
    by (auto simp: bytes_def)
  define s6 where "s6 = s4\<lparr>screen := k5, io_index := 1\<rparr>"
  have "console_up (screen s6)" using k5(2) by (simp add: s6_def)
  from screen_line [OF this r3, of d] dec_str_clean [of d] dec_str_length [of d]
  obtain k7 where k7: "on_screen (caos_printf ''IO APIC Entry=%d\<newline>'' [ArgInt d]) s6 = Done (s6\<lparr>screen := k7\<rparr>)" "console_up k7"
    by (auto simp: bytes_def)
  have "io_apic_init s = Done (s6\<lparr>screen := k7\<rparr>)"
    using k3(1) k5(1) k7(1) unfolding a_def b_def d_def s6_def s4_def s2_def
    by (simp add: io_apic_init_def io_apic_read_def Let_def del: obind_eq_Done_iff)
  then show ?thesis using k7(2) by (auto simp: s6_def s4_def s2_def)
qed

text \<open>
  C16 (\<^verbatim>\<open>init_bsp_APIC\<close>). On a boot processor whose APIC identifier is zero, as the MP tables say,
  and whose APIC reports a sane version, the set-up returns; then every local interrupt
  source is masked, the task priority lets all interrupts through, the identifier that the
  check inverted is restored, and the APIC is enabled. The spurious vector is or-ed onto what
  the register held.
\<close>

theorem init_bsp_APIC_ready:
  assumes "local_apic hw" "screen_ok (screen s)"
    and id: "lapic s APIC_ID = 0" "boot_cpu_id (mp s) = 0" "x86_cpu_to_apicid (mp s) = 0 # rest"
    and ver: "GET_APIC_VERSION (lapic s APIC_LVR) \<notin> {0, 0xff}" "2 \<le> GET_APIC_MAXLVT (lapic s APIC_LVR)"
      "GET_APIC_MAXLVT (lapic s APIC_LVR) \<noteq> 0xff"
  shows "\<exists>s'. init_bsp_APIC hw s = Done s' \<and>
    (\<forall>l \<in> {APIC_LVTT, APIC_LVTTHMR, APIC_LVTPC, APIC_LVT1, APIC_LVT0, APIC_LVTERR}. bit (lapic s' l) 16) \<and>
    lapic s' APIC_TASKPRI = 0 \<and> lapic s' APIC_ID = 0 \<and> lapic s' APIC_LVTT AND 0x300FF = 0x10000 \<and>
    lapic s' APIC_SPIV AND 0x1FF = (lapic s APIC_SPIV OR 0x133) AND 0x1FF \<and> screen_ok (screen s')"
  using init_bsp_APIC_done [OF assms] by blast

text \<open>
  Supplement (\<^verbatim>\<open>init_bsp_APIC\<close>, other identifiers). The identifier is compared without shifting it down
  from the top byte of the register: a boot processor with any APIC identifier but zero,
  whatever the MP tables say of it, is taken for another processor and the kernel stops.
\<close>

theorem init_bsp_APIC_nonzero_id:
  assumes "lapic s APIC_ID = push_bit 24 (ucast k)" "k \<noteq> (0::u8)"
    and "boot_cpu_id (mp s) < 0x100" "screen_ok (screen s)"
  shows "init_bsp_APIC hw s = Halt"
proof -
  have "unat (push_bit 24 (ucast k) :: u32) = unat k * 2 ^ 24"
    using unsigned_less [of k, where ?'a = nat]
    by (simp add: push_bit_eq_mult unat_word_ariths unsigned_ucast_eq take_bit_nat_eq_self)
  moreover have "0 < unat k" using assms(2) by (simp add: unat_gt_0)
  moreover have "unat k * 2 ^ 24 < 2 ^ 64" using unsigned_less [of k, where ?'a = nat] by simp
  ultimately have "2 ^ 24 \<le> unat (ucast (lapic s APIC_ID) :: u64)"
    using assms(1) by (simp add: unsigned_ucast_eq take_bit_nat_eq_self)
  then have "ucast (lapic s APIC_ID) \<noteq> boot_cpu_id (mp s)"
    using assms(3) by (auto simp: word_less_nat_alt)
  then have "check_bsp s = Done False" by (simp add: check_bsp_def Let_def apic_read_def)
  moreover obtain k where "caos_printf ''This is not BSP! Please reboot system.\<newline>'' [] (screen s) = Done k"
    using printf_ok [of "screen s" "''This is not BSP! Please reboot system.\<newline>''" "[]"
        "bytes ''This is not BSP! Please reboot system.\<newline>''"] assms(4)
    by (auto simp: bytes_def conversion_def)
  ultimately show ?thesis by (simp add: init_bsp_APIC_def on_screen_def halt_def)
qed

lemma delay_idle: "delay n = 0"
proof -
  have "inner_delay (- 1) = (- 1, 0)" by (subst inner_delay.simps) simp
  then have "delay_loop n (- 1) = 0" by (induction n) simp_all
  then show ?thesis by (simp add: delay_def)
qed

text \<open>
  Supplement (\<^verbatim>\<open>wake_ap\<close>). The other processors are sent an INIT and two STARTUP interrupts, to all but
  the sender, whose vector names the page of the start-up code at \<^verbatim>\<open>AP_INIT_ADDRESS\<close>; the function
  returns exactly if the last one is no longer pending. The waits between them are empty: the
  counting loop of \<^verbatim>\<open>delay\<close> makes no iteration.
\<close>

theorem wake_ap_sequence:
  assumes "screen_ok (screen s)"
  shows "(if hw APIC_ICR 0xC4609 (hw APIC_ICR 0xC4609 (hw APIC_ICR 0xC4500 (lapic s))) APIC_ICR AND APIC_ICR_BUSY \<noteq> 0
     then wake_ap hw s = Halt
     else \<exists>s'. wake_ap hw s = Done s' \<and>
       lapic_log s' = lapic_log s @ [(APIC_ICR, 0xC4500), (APIC_ICR, 0xC4609), (APIC_ICR, 0xC4609)]) \<and>
     push_bit 12 (0xC4609 AND 0xFF) = AP_INIT_ADDRESS \<and> delay 1000000 = 0"
proof -
  obtain k where k: "caos_printf ''AP-WAKENING FAIL!\<newline>'' [] (screen s) = Done k"
    using printf_ok [OF assms, of "''AP-WAKENING FAIL!\<newline>''" "[]" "bytes ''AP-WAKENING FAIL!\<newline>''"]
    by (auto simp: bytes_def conversion_def)
  have c: "APIC_DEST_ALLBUT OR APIC_INT_ASSERT OR APIC_DM_INIT = 0xC4500"
    "APIC_DEST_ALLBUT OR APIC_INT_ASSERT OR APIC_DM_STARTUP OR drop_bit 12 AP_INIT_ADDRESS = 0xC4609"
    "push_bit 12 (0xC4609 AND 0xFF) = AP_INIT_ADDRESS"
    by (simp_all add: kconst)
  show ?thesis unfolding wake_ap_def Let_def c
    using k by (simp add: on_screen_def apic_write_def apic_read_def halt_def delay_idle c)
qed

definition demo_apic :: apic_state where
  "demo_apic =
     \<lparr>lapic = (\<lambda>_. 0)(APIC_LVR := 0x50014, APIC_SPIV := 0xFF), lapic_log = [], io_index = 0,
      io_regs = (\<lambda>_. 0)(1 := 0x170011), screen = blank_console,
      mp = demo_mp\<lparr>boot_cpu_id := 0, x86_cpu_to_apicid := [0, 1]\<rparr>\<rparr>"

theorem init_bsp_APIC_ready_witness:
  "\<exists>s'. init_bsp_APIC xapic demo_apic = Done s' \<and> bit (lapic s' APIC_LVTT) 16 \<and> lapic s' APIC_SPIV AND 0x1FF = 0x1FF"
proof -
  have "GET_APIC_VERSION 0x50014 = 0x14" "GET_APIC_MAXLVT 0x50014 = 5"
    by (simp_all add: GET_APIC_VERSION_def GET_APIC_MAXLVT_def)
  with init_bsp_APIC_ready [OF xapic.local_apic_axioms, of demo_apic "[1]"] show ?thesis
    by (auto simp: demo_apic_def blank_console_ok)
qed

theorem init_bsp_APIC_nonzero_id_witness:
  "init_bsp_APIC xapic (demo_apic\<lparr>lapic := (lapic demo_apic)(APIC_ID := 0x1000000),
     mp := demo_mp\<lparr>boot_cpu_id := 1, x86_cpu_to_apicid := [0, 1]\<rparr>\<rparr>) = Halt"
  by (rule init_bsp_APIC_nonzero_id [of _ 1]) (simp_all add: demo_apic_def blank_console_ok)

theorem wake_ap_sequence_witness:
  "\<exists>s'. wake_ap xapic demo_apic = Done s' \<and>
     lapic_log s' = [(APIC_ICR, 0xC4500), (APIC_ICR, 0xC4609), (APIC_ICR, 0xC4609)]"
proof -
  have "xapic APIC_ICR v r APIC_ICR = v" for v r by (simp add: xapic_def lvt_regs_def)
  then show ?thesis
    using wake_ap_sequence [of demo_apic xapic] by (simp add: demo_apic_def blank_console_ok kconst)
qed

end
