(* ===== verification/Keyboard.thy ===== *)
theory Keyboard
  imports Console
begin

text \<open>
  The keyboard driver (\<^verbatim>\<open>keyboard.c\<close>, \<^verbatim>\<open>include/keyboard.h\<close>): the translation tables, the modifier
  state and the interrupt handler, which prints what is typed on the console. The scan code
  that \<^verbatim>\<open>inb(0x60)\<close> reads is an argument of the handler.
\<close>

subsection \<open>Constants and tables\<close>

definition MK_SHIFT :: u64 where [kconst]: "MK_SHIFT = push_bit 0 1"
definition MK_CTRL :: u64 where [kconst]: "MK_CTRL = push_bit 1 1"
definition MK_ALT :: u64 where [kconst]: "MK_ALT = push_bit 2 1"
definition MK_CAPSLOCK :: u64 where [kconst]: "MK_CAPSLOCK = push_bit 3 1"
definition MK_SCROLLLOCK :: u64 where [kconst]: "MK_SCROLLLOCK = push_bit 4 1"
definition MK_NUMLOCK :: u64 where [kconst]: "MK_NUMLOCK = push_bit 5 1"

definition SCAN_NUMLOCK :: u8 where [kconst]: "SCAN_NUMLOCK = 0x45"
definition SCAN_CAPSLOCK :: u8 where [kconst]: "SCAN_CAPSLOCK = 0x1d"
definition SCAN_SCROLLLOCK :: u8 where [kconst]: "SCAN_SCROLLLOCK = 0x46"
definition SCAN_LEFTSHIFT :: u8 where [kconst]: "SCAN_LEFTSHIFT = 0x2a"
definition SCAN_LEFTALT :: u8 where [kconst]: "SCAN_LEFTALT = 0x38"
definition SCAN_LEFTCTRL :: u8 where [kconst]: "SCAN_LEFTCTRL = 0x3a"
definition SCAN_ENTER :: u8 where [kconst]: "SCAN_ENTER = 0x1c"
definition SCAN_BACKSPACE :: u8 where [kconst]: "SCAN_BACKSPACE = 0x0e"

definition TABLE_NORMAL :: nat where [kconst]: "TABLE_NORMAL = 0"
definition TABLE_CAPSLOCK :: nat where [kconst]: "TABLE_CAPSLOCK = 1"
definition TABLE_SHIFT :: nat where [kconst]: "TABLE_SHIFT = 2"
definition TABLE_CAPS_N_SHIFT :: nat where [kconst]: "TABLE_CAPS_N_SHIFT = 3"
definition TABLE_CTRL :: nat where [kconst]: "TABLE_CTRL = 4"

definition scan_to_ascii :: "u8 list list" where
  "scan_to_ascii =
   [[0x00, 0x1b, 0x31, 0x32, 0x33, 0x34, 0x35, 0x36, 0x37, 0x38, 0x39, 0x30, 0x2d, 0x3d, 0x08, 0x09,
      0x71, 0x77, 0x65, 0x72, 0x74, 0x79, 0x75, 0x69, 0x6f, 0x70, 0x5b, 0x5d, 0x0d, 0x00, 0x61, 0x73,
      0x64, 0x66, 0x67, 0x68, 0x6a, 0x6b, 0x6c, 0x3b, 0x27, 0x60, 0x00, 0x5c, 0x7a, 0x78, 0x63, 0x76,
      0x62, 0x6e, 0x6d, 0x2c, 0x2e, 0x2f, 0x00, 0x2a, 0x00, 0x20, 0x00, 0x03, 0x03, 0x03, 0x03, 0x08,
      0x03, 0x03, 0x03, 0x03, 0x03, 0x00, 0x00, 0x00, 0x00, 0x00, 0x2d, 0x00, 0x00, 0x00, 0x2b, 0x00,
      0x00, 0x00, 0x00, 0x7f, 0x00, 0x00, 0x5c, 0x03, 0x03, 0x00, 0x00, 0x00, 0x00, 0x00, 0x00, 0x00,
      0x0d, 0x00, 0x2f, 0x00, 0x00, 0x00, 0x00, 0x00, 0x00, 0x00, 0x00, 0x00, 0x00, 0x00, 0x00, 0x7f,
      0x00, 0x00, 0x00, 0x00, 0x00, 0x00, 0x00, 0x00, 0x00, 0x00, 0x2f, 0x00, 0x00, 0x00, 0x00, 0x00],
     [0x00, 0x1b, 0x31, 0x32, 0x33, 0x34, 0x35, 0x36, 0x37, 0x38, 0x39, 0x30, 0x2d, 0x3d, 0x08, 0x09,
      0x51, 0x57, 0x45, 0x52, 0x54, 0x59, 0x55, 0x49, 0x4f, 0x50, 0x5b, 0x5d, 0x0d, 0x00, 0x41, 0x53,
      0x44, 0x46, 0x47, 0x48, 0x4a, 0x4b, 0x4c, 0x3b, 0x27, 0x60, 0x00, 0x5c, 0x5a, 0x58, 0x43, 0x56,
      0x42, 0x4e, 0x4d, 0x2c, 0x2e, 0x2f, 0x00, 0x2a, 0x00, 0x20, 0x00, 0x03, 0x03, 0x03, 0x03, 0x08,
      0x03, 0x03, 0x03, 0x03, 0x03, 0x00, 0x00, 0x00, 0x00, 0x00, 0x2d, 0x00, 0x00, 0x00, 0x2b, 0x00,
      0x00, 0x00, 0x00, 0x7f, 0x00, 0x00, 0x5c, 0x03, 0x03, 0x00, 0x00, 0x00, 0x00, 0x00, 0x00, 0x00,
      0x0d, 0x00, 0x2f, 0x00, 0x00, 0x00, 0x00, 0x00, 0x00, 0x00, 0x00, 0x00, 0x00, 0x00, 0x00, 0x7f,
      0x00, 0x00, 0x00, 0x00, 0x00, 0x00, 0x00, 0x00, 0x00, 0x00, 0x2f, 0x00, 0x00, 0x00, 0x00, 0x00],
     [0x00, 0x1b, 0x21, 0x40, 0x23, 0x24, 0x25, 0x5e, 0x26, 0x2a, 0x28, 0x29, 0x5f, 0x2b, 0x7e, 0x7e,
      0x51, 0x57, 0x45, 0x52, 0x54, 0x59, 0x55, 0x49, 0x4f, 0x50, 0x7b, 0x7d, 0x7e, 0x00, 0x41, 0x53,
      0x44, 0x46, 0x47, 0x48, 0x4a, 0x4b, 0x4c, 0x3a, 0x27, 0x7e, 0x00, 0x7c, 0x5a, 0x58, 0x43, 0x56,
      0x42, 0x4e, 0x4d, 0x3c, 0x3e, 0x3f, 0x00, 0x2a, 0x00, 0x01, 0x00, 0x01, 0x01, 0x01, 0x01, 0x01,
      0x01, 0x01, 0x01, 0x01, 0x01, 0x00, 0x00, 0x00, 0x00, 0x00, 0x2d, 0x00, 0x00, 0x00, 0x2b, 0x00,
      0x00, 0x00, 0x01, 0x7f, 0x00, 0x00, 0x00, 0x01, 0x01, 0x00, 0x00, 0x00, 0x00, 0x00, 0x00, 0x00,
      0x0d, 0x00, 0x2f, 0x00, 0x00, 0x00, 0x00, 0x00, 0x00, 0x00, 0x00, 0x00, 0x00, 0x00, 0x00, 0x7f,
      0x00, 0x00, 0x00, 0x00, 0x00, 0x00, 0x00, 0x00, 0x00, 0x00, 0x2f, 0x00, 0x00, 0x00, 0x00, 0x00],
     [0x00, 0x1b, 0x21, 0x40, 0x23, 0x24, 0x25, 0x5e, 0x26, 0x2a, 0x28, 0x29, 0x5f, 0x2b, 0x7e, 0x7e,
      0x71, 0x77, 0x65, 0x72, 0x74, 0x79, 0x75, 0x69, 0x6f, 0x70, 0x7b, 0x7d, 0x7e, 0x00, 0x61, 0x73,
      0x64, 0x66, 0x67, 0x68, 0x6a, 0x6b, 0x6c, 0x3a, 0x27, 0x7e, 0x00, 0x7c, 0x7a, 0x78, 0x63, 0x76,
      0x62, 0x6e, 0x6d, 0x3c, 0x3e, 0x3f, 0x00, 0x2a, 0x00, 0x01, 0x00, 0x01, 0x01, 0x01, 0x01, 0x01,
      0x01, 0x01, 0x01, 0x01, 0x01, 0x00, 0x00, 0x00, 0x00, 0x00, 0x2d, 0x00, 0x00, 0x00, 0x2b, 0x00,
      0x00, 0x00, 0x01, 0x7f, 0x00, 0x00, 0x00, 0x01, 0x01, 0x00, 0x00, 0x00, 0x00, 0x00, 0x00, 0x00,
      0x0d, 0x00, 0x2f, 0x00, 0x00, 0x00, 0x00, 0x00, 0x00, 0x00, 0x00, 0x00, 0x00, 0x00, 0x00, 0x7f,
      0x00, 0x00, 0x00, 0x00, 0x00, 0x00, 0x00, 0x00, 0x00, 0x00, 0x2f, 0x00, 0x00, 0x00, 0x00, 0x00],
     [0x00, 0x00, 0x02, 0x02, 0x02, 0x02, 0x02, 0x02, 0x02, 0x02, 0x02, 0x02, 0x00, 0x00, 0x7f, 0x7f,
      0x11, 0x17, 0x05, 0x12, 0x14, 0x19, 0x15, 0x09, 0x0f, 0x10, 0x02, 0x02, 0x0a, 0x00, 0x01, 0x13,
      0x04, 0x06, 0x07, 0x08, 0x0a, 0x0b, 0x0c, 0x00, 0x00, 0x00, 0x00, 0x00, 0x1a, 0x18, 0x03, 0x16,
      0x02, 0x0e, 0x0d, 0x00, 0x00, 0x00, 0x00, 0x00, 0x00, 0x00, 0x00, 0x02, 0x02, 0x02, 0x02, 0x02,
      0x02, 0x02, 0x02, 0x02, 0x02, 0x00, 0x00, 0x00, 0x00, 0x00, 0x00, 0x00, 0x00, 0x00, 0x00, 0x00,
      0x00, 0x00, 0x02, 0x00, 0x00, 0x00, 0x00, 0x02, 0x02, 0x00, 0x00, 0x00, 0x00, 0x00, 0x00, 0x00,
      0x00, 0x00, 0x02, 0x00, 0x00, 0x00, 0x00, 0x00, 0x00, 0x00, 0x00, 0x00, 0x00, 0x00, 0x00, 0x00,
      0x00, 0x00, 0x02, 0x00, 0x00, 0x00, 0x00, 0x00, 0x00, 0x00, 0x00, 0x00, 0x00, 0x00, 0x00, 0x00]]"

subsection \<open>The handler\<close>

record kbd_state =
  key_status :: u64
  key_code :: u8
  key_prefix :: bool
  con :: console

text \<open>
  The modifier keys, in the order of the tests: the new status and whether the scan code was
  one of them.
\<close>

definition modifier_key :: "u8 \<Rightarrow> u64 \<Rightarrow> u64 \<times> bool" where
  "modifier_key scan st =
     (if scan = SCAN_NUMLOCK then (st XOR MK_NUMLOCK, True)
      else if scan = SCAN_CAPSLOCK then (st XOR MK_CAPSLOCK, True)
      else if scan = SCAN_SCROLLLOCK then (st XOR MK_SCROLLLOCK, True)
      else if scan = SCAN_LEFTSHIFT then (st OR MK_SHIFT, True)
      else if scan = SCAN_LEFTSHIFT OR 0x80 then (st AND NOT MK_SHIFT, True)
      else if scan = SCAN_LEFTCTRL then (st OR MK_CTRL, True)
      else if scan = SCAN_LEFTCTRL OR 0x80 then (st AND NOT MK_CTRL, True)
      else if scan = SCAN_LEFTALT then (st OR MK_ALT, True)
      else if scan = SCAN_LEFTALT OR 0x80 then (st AND NOT MK_ALT, True)
      else (st, False))"

definition table_code :: "nat \<Rightarrow> u8 \<Rightarrow> u8 outcome" where
  "table_code t scan = obind (aget scan_to_ascii t) (\<lambda>row. aget row (unat scan))"

definition translate :: "u64 \<Rightarrow> u8 \<Rightarrow> u8 outcome" where
  "translate st scan =
     (if st AND MK_CAPSLOCK \<noteq> 0 \<and> st AND MK_SHIFT \<noteq> 0 then table_code TABLE_CAPS_N_SHIFT scan
      else if st = 0 then table_code TABLE_NORMAL scan
      else if st AND MK_CAPSLOCK \<noteq> 0 then table_code TABLE_CAPSLOCK scan
      else if st AND MK_SHIFT \<noteq> 0 then table_code TABLE_SHIFT scan
      else if st AND MK_CTRL \<noteq> 0 then table_code TABLE_CTRL scan
      else Done 0xff)"

definition keyboard_isr :: "u8 \<Rightarrow> kbd_state \<Rightarrow> kbd_state outcome" where
  "keyboard_isr scan s =
     (if scan = 0 \<or> scan = 0xff then Done s
      else if scan = 0xe0 \<or> scan = 0xe1 then Done (s\<lparr>key_prefix := True\<rparr>)
      else
        let (st, changed) = modifier_key scan (key_status s);
            s1 = s\<lparr>key_status := st\<rparr>
        in if changed then Done s1
           else if scan AND 0x80 \<noteq> 0 then Done s1
           else obind (translate (key_status s1) scan) (\<lambda>c.
             let s2 = s1\<lparr>key_code := c\<rparr>
             in if scan = SCAN_ENTER then
                  obind (caos_printf ''\<newline>'' [] (con s2)) (\<lambda>k. Done (s2\<lparr>con := k\<rparr>))
                else if scan = SCAN_BACKSPACE then
                  obind (caos_delchar 1 (con s2)) (\<lambda>k. Done (s2\<lparr>con := k\<rparr>))
                else
                  obind (caos_printf ''%c'' [ArgInt (ucast (key_code s2))] (con s2)) (\<lambda>k.
                    Done (s2\<lparr>con := k, key_prefix := False\<rparr>))))"

subsection \<open>Lemmas\<close>

lemma tables_shape: "length scan_to_ascii = 5" "\<forall>row \<in> set scan_to_ascii. length row = 128"
  by (simp_all add: scan_to_ascii_def)

lemma unat_make_code: "scan AND 0x80 = 0 \<Longrightarrow> unat (scan :: u8) < 128"
proof -
  assume s: "scan AND 0x80 = 0"
  have "\<not> bit scan 7"
  proof
    assume "bit scan 7"
    then have "bit (scan AND push_bit 7 1) 7" by (simp only: bit_and_iff bit_push_bit_iff bit_1_iff) simp
    then show False using s by simp
  qed
  then have "bit scan n \<longleftrightarrow> n < 7 \<and> bit scan n" for n
    using bit_imp_le_length [of scan n] by (cases "n = 7") auto
  then have "scan = take_bit 7 scan"
    by (intro bit_word_eqI) (simp add: bit_take_bit_iff)
  then have "unat scan = take_bit 7 (unat scan)" by (metis unsigned_take_bit_eq)
  then show ?thesis using take_bit_nat_less_exp [of 7 "unat scan"] by simp
qed

lemma table_code_ok:
  assumes "t < 5" "scan AND 0x80 = 0"
  shows "table_code t scan = Done (scan_to_ascii ! t ! unat scan)"
  using assms tables_shape unat_make_code [of scan] by (simp add: table_code_def outcome_simps)

lemma translate_ok:
  "scan AND 0x80 = 0 \<Longrightarrow> \<exists>c. translate st scan = Done c"
  by (auto simp: translate_def table_code_ok kconst)

lemma ucast_ucast_u8: "ucast (ucast c :: u64) = (c :: u8)"
  by (rule bit_word_eqI) (simp add: bit_simps)

text \<open>Printing one character: a zero prints nothing and a backspace deletes.\<close>

lemma printf_char:
  fixes c :: u8
  assumes ok: "screen_ok k"
  shows "if cursor_offset k = 0 \<and> c = 0x08 then caos_printf ''%c'' [ArgInt (ucast c)] k = Fault
    else \<exists>k'. caos_printf ''%c'' [ArgInt (ucast c)] k = Done k' \<and> screen_ok k'"
proof -
  have "render (lock_bt k) (bytes ''%c'') [ArgInt (ucast c)] = Some [c]"
    by (simp add: bytes_def conversion_def ucast_ucast_u8)
  moreover define b where "b = c # 0 # drop 2 (sz k)"
  ultimately have run: "caos_vsprintf (lock_bt k) (bytes ''%c'') [ArgInt (ucast c)] (0, sz k) = Done (1, b)"
    using vsprintf_render [of 0 "sz k" "lock_bt k" "bytes ''%c''" "[ArgInt (ucast c)]"] ok
    by (simp add: screen_ok_def numeral_2_eq_2)
  have k: "screen_ok (k\<lparr>sz := b\<rparr>)" using ok by (simp add: screen_ok_def b_def)
  consider "c = 0" | "c = 0x08" | "c \<noteq> 0" "c \<noteq> 0x08" by blast
  then have "if cursor_offset k = 0 \<and> c = 0x08 then print_loop b (k\<lparr>sz := b\<rparr>) = Fault
    else \<exists>k'. print_loop b (k\<lparr>sz := b\<rparr>) = Done k' \<and> screen_ok k'"
  proof cases
    case 1
    then show ?thesis using k by (simp add: b_def)
  next
    case 2
    then have "print_loop b (k\<lparr>sz := b\<rparr>) = obind (caos_delchar 1 (k\<lparr>sz := b\<rparr>)) (print_loop (0 # drop 2 (sz k)))"
      by (simp add: b_def del: caos_delchar.simps)
    then show ?thesis using delchar_corner [OF k] 2
      by (auto simp del: caos_delchar.simps obind_eq_Done_iff)
  next
    case 3
    then show ?thesis using print_loop_ok [OF k, of "[c]" "drop 2 (sz k)"] by (auto simp: b_def)
  qed
  moreover have "caos_printf ''%c'' [ArgInt (ucast c)] k = print_loop b (k\<lparr>sz := b\<rparr>)"
    using run by (simp add: caos_printf_def del: obind_eq_Done_iff)
  ultimately show ?thesis by (simp only:)
qed

lemma printf_newline: "screen_ok k \<Longrightarrow> \<exists>k'. caos_printf ''\<newline>'' [] k = Done k' \<and> screen_ok k'"
  by (rule printf_ok [of _ _ _ "[0x0a]"]) (simp_all add: bytes_def conversion_def)

subsection \<open>Typing\<close>

text \<open>The invariant of the driver: a console in order and no status bit beyond the six modifiers.\<close>

definition kbd_ok :: "kbd_state \<Rightarrow> bool" where
  "kbd_ok s \<longleftrightarrow> screen_ok (con s) \<and> key_status s AND NOT 0x3f = 0"

lemma modifier_key_bits:
  assumes "st AND NOT 0x3f = 0"
  shows "fst (modifier_key scan st) AND NOT 0x3f = 0"
proof -
  have "(st XOR m) AND NOT 0x3f = 0" "(st OR m) AND NOT 0x3f = 0" "(st AND NOT m) AND NOT 0x3f = 0"
    if "m AND NOT 0x3f = 0" for m
    using assms that by (simp_all add: bit_eq_iff bit_simps) blast+
  from this [of MK_NUMLOCK] this [of MK_CAPSLOCK] this [of MK_SCROLLLOCK] this [of MK_SHIFT]
    this [of MK_CTRL] this [of MK_ALT]
  show ?thesis using assms by (simp add: modifier_key_def kconst)
qed

text \<open>
  The keys that move the cursor back: Backspace, and any key whose code is a backspace, which is
  what Ctrl and H give.
\<close>

definition deletes :: "u8 \<Rightarrow> u64 \<Rightarrow> bool" where
  "deletes scan st \<longleftrightarrow> scan = SCAN_BACKSPACE \<or> translate (fst (modifier_key scan st)) scan = Done 0x08"

text \<open>The codes that are a backspace: of the key itself, of H with Ctrl, and of F5.\<close>

lemma backspace_codes:
  "\<forall>row \<in> set scan_to_ascii. \<forall>n \<in> set [0..<128]. row ! n = 0x08 \<longrightarrow> n \<in> {0x0e, 0x23, 0x3f}"
  by code_simp

lemma deletes_keys:
  assumes "deletes scan st"
  shows "scan \<in> {0x0e, 0x23, 0x3f}" "scan = SCAN_BACKSPACE \<or> translate st scan = Done 0x08"
proof -
  have keys: "scan \<in> {0x0e, 0x23, 0x3f}" if tr: "translate x scan = Done 0x08" for x
  proof -
    have "\<exists>t<5. table_code t scan = Done 0x08"
      using tr unfolding translate_def kconst
      by (auto split: if_splits intro: exI [of _ 0] exI [of _ 1] exI [of _ 2] exI [of _ 3] exI [of _ 4])
    then obtain t where t: "t < 5" "table_code t scan = Done 0x08" by blast
    then have n: "unat scan < 128" "scan_to_ascii ! t ! unat scan = 0x08" "scan_to_ascii ! t \<in> set scan_to_ascii"
      using tables_shape by (auto simp: table_code_def nth_mem)
    then have "unat scan \<in> {0x0e, 0x23, 0x3f}" using backspace_codes by auto
    moreover have "scan = k" if "unat scan = unat k" for k using that by (rule unsigned_word_eqI)
    from this [of "0x0e"] this [of "0x23"] this [of "0x3f"]
    have "unat scan = 14 \<Longrightarrow> scan = 0x0e" "unat scan = 35 \<Longrightarrow> scan = 0x23" "unat scan = 63 \<Longrightarrow> scan = 0x3f" by simp_all
    ultimately show ?thesis by fastforce
  qed
  then show k: "scan \<in> {0x0e, 0x23, 0x3f}" using assms by (auto simp: deletes_def kconst)
  then have "fst (modifier_key scan st) = st" by (auto simp: modifier_key_def kconst)
  then show "scan = SCAN_BACKSPACE \<or> translate st scan = Done 0x08" using assms by (simp add: deletes_def)
qed

text \<open>The handler returns unless it would delete in front of the first cell, and then it does not.\<close>

lemma kbd_isr_cases:
  assumes "kbd_ok s"
  shows "if cursor_offset (con s) = 0 \<and> deletes scan (key_status s) then keyboard_isr scan s = Fault
    else \<exists>s'. keyboard_isr scan s = Done s' \<and> kbd_ok s'"
proof (cases "cursor_offset (con s) = 0 \<and> deletes scan (key_status s)")
  case True
  have ok: "screen_ok (con s)" using assms by (simp add: kbd_ok_def)
  from True have k: "scan \<in> {0x0e, 0x23, 0x3f}" "scan = SCAN_BACKSPACE \<or> translate (key_status s) scan = Done 0x08"
    using deletes_keys by blast+
  have "scan AND 0x80 = 0" using k(1) by auto
  then obtain c where c: "translate (key_status s) scan = Done c" using translate_ok by blast
  have "modifier_key scan (key_status s) = (key_status s, False)" using k(1) by (auto simp: modifier_key_def kconst)
  moreover have "scan \<noteq> 0" "scan \<noteq> 0xff" "scan \<noteq> 0xe0" "scan \<noteq> 0xe1" "scan \<noteq> SCAN_ENTER" "scan AND 0x80 = 0"
    using k(1) by (auto simp: kconst)
  ultimately show ?thesis
    using True c k(2) delchar_corner [OF ok] printf_char [OF ok, of "0x08"]
    by (auto simp: keyboard_isr_def Let_def simp del: caos_delchar.simps obind_eq_Done_iff)
next
  case cur: False
  show ?thesis
  proof (cases "scan = 0 \<or> scan = 0xff \<or> scan = 0xe0 \<or> scan = 0xe1")
    case True
    then show ?thesis using assms cur by (auto simp: keyboard_isr_def kbd_ok_def)
  next
    case False
    obtain st ch where m: "modifier_key scan (key_status s) = (st, ch)" by fastforce
    then have st: "st AND NOT 0x3f = 0"
      using modifier_key_bits [of "key_status s" scan] assms by (simp add: kbd_ok_def)
    show ?thesis
    proof (cases "ch \<or> scan AND 0x80 \<noteq> 0")
      case True
      then show ?thesis using False m st assms cur by (auto simp: keyboard_isr_def kbd_ok_def Let_def)
    next
      case ord: False
      then obtain c where "translate st scan = Done c" using translate_ok by blast
      moreover have "cursor_offset (con s) \<noteq> 0 \<or> (scan \<noteq> SCAN_BACKSPACE \<and> translate st scan \<noteq> Done 0x08)"
        using cur m by (auto simp: deletes_def)
      ultimately have "\<exists>s'. keyboard_isr scan s = Done s' \<and> kbd_ok s'"
        using False ord m st assms printf_newline [of "con s"] delchar_ok [of "con s"] printf_char [of "con s" c]
        by (auto simp: keyboard_isr_def kbd_ok_def Let_def simp del: obind_eq_Done_iff caos_delchar.simps split: if_splits)
      then show ?thesis unfolding if_not_P [OF cur] .
    qed
  qed
qed

lemma kbd_isr_ok:
  assumes "kbd_ok s" and "cursor_offset (con s) \<noteq> 0"
  shows "\<exists>s'. keyboard_isr scan s = Done s' \<and> kbd_ok s'"
  using kbd_isr_cases [OF assms(1), of scan] assms(2) by simp

lemma kbd_isr_lock_bt: "keyboard_isr scan s = Done s' \<Longrightarrow> lock_bt (con s') = lock_bt (con s)"
  by (auto simp: keyboard_isr_def Let_def split: if_splits prod.splits
      simp del: caos_delchar.simps dest!: printf_lock_bt delchar_lock_bt)

text \<open>
  C20 (\<^verbatim>\<open>keyboard_isr\<close>, invariant). Whatever byte the controller delivers, the handler returns,
  reads no translation table out of its bounds and keeps the console and the modifier state in
  order, as long as the cursor is not on the first cell of the screen.
\<close>

theorem keyboard_isr_ok:
  assumes "kbd_ok s" and "cursor_offset (con s) \<noteq> 0"
  shows "\<exists>s'. keyboard_isr scan s = Done s' \<and> kbd_ok s'"
  using assms by (rule kbd_isr_ok)

theorem keyboard_isr_ok_witness:
  "\<exists>s'. keyboard_isr 0x1e \<lparr>key_status = MK_SHIFT, key_code = 0, key_prefix = False, con = blank_console\<rparr> = Done s' \<and>
    kbd_ok s'"
  by (rule keyboard_isr_ok) (simp_all add: kbd_ok_def screen_ok_def blank_console_def kconst)

text \<open>The letters of the main block, by the scan code of their key.\<close>

definition letter_keys :: "(u8 \<times> u8) list" where
  "letter_keys =
     zip (map of_nat [0x10..<0x1a]) (bytes ''qwertyuiop'') @
     zip (map of_nat [0x1e..<0x27]) (bytes ''asdfghjkl'') @
     zip (map of_nat [0x2c..<0x33]) (bytes ''zxcvbnm'')"

lemma letter_rows:
  "\<forall>(scan, c) \<in> set letter_keys. scan AND 0x80 = 0 \<and>
     map (\<lambda>row. row ! unat scan) scan_to_ascii = [c, c - 0x20, c - 0x20, c, c AND 0x1f]"
  by code_simp

text \<open>
  C21 (\<^verbatim>\<open>scan_to_ascii\<close>, case of letters). For each of the 26 letter keys and every modifier
  state, the code the handler computes is: the lower or upper case letter, upper exactly when
  one of Shift and Caps Lock is on, if either of them or no modifier at all is on; else, with
  Ctrl held, the control code of the letter; and the error code 0xff for any other state, so
  with Num Lock, Scroll Lock or Alt alone no letter can be typed.
\<close>

theorem letter_case:
  assumes "(scan, c) \<in> set letter_keys"
  shows "translate st scan = Done
    (if st = 0 \<or> st AND MK_CAPSLOCK \<noteq> 0 \<or> st AND MK_SHIFT \<noteq> 0
     then (if (st AND MK_CAPSLOCK \<noteq> 0) \<noteq> (st AND MK_SHIFT \<noteq> 0) then c - 0x20 else c)
     else if st AND MK_CTRL \<noteq> 0 then c AND 0x1f else 0xff)"
proof -
  have rows: "scan AND 0x80 = 0" "map (\<lambda>row. row ! unat scan) scan_to_ascii = [c, c - 0x20, c - 0x20, c, c AND 0x1f]"
    using letter_rows assms by auto
  have "scan_to_ascii ! t ! unat scan = [c, c - 0x20, c - 0x20, c, c AND 0x1f] ! t" if "t < 5" for t
    using rows(2) that tables_shape(1) by (metis nth_map)
  then have "table_code t scan = Done ([c, c - 0x20, c - 0x20, c, c AND 0x1f] ! t)" if "t < 5" for t
    using table_code_ok [OF that rows(1)] that by simp
  then show ?thesis by (auto simp: translate_def kconst)
qed

theorem letter_case_witness: "translate MK_SHIFT 0x10 = Done 0x51 \<and> translate MK_NUMLOCK 0x10 = Done 0xff"
proof -
  have "(0x10, 0x71) \<in> set letter_keys" by code_simp
  from letter_case [OF this] show ?thesis by (simp add: kconst)
qed

end
