(* ===== verification/Interrupts.thy ===== *)
theory Interrupts
  imports Apic Keyboard
begin

text \<open>
  Interrupt dispatch (\<^verbatim>\<open>irq_handler.c\<close>): the table of handlers, registering a handler with the
  I/O APIC, and \<^verbatim>\<open>handle_irq\<close>, which every interrupt entry calls; with the timer handler and its
  set-up (\<^verbatim>\<open>apic.c\<close>) and the set-up of the keyboard (\<^verbatim>\<open>keyboard.c\<close>). The handlers share the
  console of the kernel.
\<close>

subsection \<open>State\<close>

definition MAX_IRQ :: nat where [kconst]: "MAX_IRQ = 32"

text \<open>The functions that are registered as handlers.\<close>

datatype irq_fn = Ignore_isr_handler | Bsp_local_timer | Keyboard_isr

record irq_state = apic_state +
  irq_handler :: "irq_fn option list"
  idt :: "idt_desc list"
  tick :: u8
  status :: u64
  code :: u8
  prefix :: bool

subsection \<open>Handlers\<close>

definition ignore_isr_handler :: "nat \<Rightarrow> irq_state \<Rightarrow> irq_state outcome" where
  "ignore_isr_handler num s =
     on_screen (caos_printf ''Unknown interrupt occur, <irq=%d>\<newline>'' [ArgInt (of_nat num)]) s"

text \<open>The loop of \<^verbatim>\<open>bsp_local_timer\<close> over the first line, from its end.\<close>

primrec clear_line :: "nat \<Rightarrow> console \<Rightarrow> console outcome" where
  "clear_line 0 k = Done k"
| "clear_line (Suc i) k = obind (set_screen (of_nat i) 0x20 k) (clear_line i)"

definition bsp_local_timer :: "nat \<Rightarrow> irq_state \<Rightarrow> irq_state outcome" where
  "bsp_local_timer num s =
     obind (clear_line 80 (screen s)) (\<lambda>k0.
     obind (set_screen 0 0x42 k0) (\<lambda>k1.
     obind (set_screen 1 0x53 k1) (\<lambda>k2.
     obind (set_screen 2 0x50 k2) (\<lambda>k3.
     obind (set_screen 3 (tick s) k3) (\<lambda>k4.
     obind (set_screen 77 0x41 k4) (\<lambda>k5.
     obind (set_screen 78 0x50 k5) (\<lambda>k6.
     Done (s\<lparr>screen := k6, tick := tick s + 1\<rparr>))))))))"

text \<open>The keyboard handler on the shared console; \<open>scan\<close> is the byte at port 0x60.\<close>

definition kbd_view :: "irq_state \<Rightarrow> kbd_state" where
  "kbd_view s = \<lparr>key_status = status s, key_code = code s, key_prefix = prefix s, con = screen s\<rparr>"

definition kbd_back :: "irq_state \<Rightarrow> kbd_state \<Rightarrow> irq_state" where
  "kbd_back s k = s\<lparr>screen := con k, status := key_status k, code := key_code k, prefix := key_prefix k\<rparr>"

fun call_handler :: "u8 \<Rightarrow> irq_fn \<Rightarrow> nat \<Rightarrow> irq_state \<Rightarrow> irq_state outcome" where
  "call_handler scan Ignore_isr_handler num s = ignore_isr_handler num s"
| "call_handler scan Bsp_local_timer num s = bsp_local_timer num s"
| "call_handler scan Keyboard_isr num s = obind (keyboard_isr scan (kbd_view s)) (\<lambda>k. Done (kbd_back s k))"

subsection \<open>The table and the dispatch\<close>

definition irq_init :: "(isr_entry \<Rightarrow> u64) \<Rightarrow> irq_state \<Rightarrow> irq_state" where
  "irq_init isr s =
     s\<lparr>irq_handler := replicate MAX_IRQ (Some Ignore_isr_handler), idt := declare_irqs isr (idt s)\<rparr>"

definition register_irq :: "u64 \<Rightarrow> irq_fn \<Rightarrow> irq_state \<Rightarrow> (int \<times> irq_state) outcome" where
  "register_irq irq handler s =
     obind (aput (irq_handler s) (unat irq) (Some handler)) (\<lambda>t.
     Done (io_apic_enable_irq irq (s\<lparr>irq_handler := t\<rparr>)))"

definition end_irq :: "lapic_hw \<Rightarrow> nat \<Rightarrow> irq_state \<Rightarrow> irq_state" where
  "end_irq hw irq s = ack_APIC hw s"

definition handle_irq :: "lapic_hw \<Rightarrow> u8 \<Rightarrow> nat \<Rightarrow> irq_state \<Rightarrow> irq_state outcome" where
  "handle_irq hw scan irq s =
     (let task_pri = apic_read APIC_TASKPRI s;
          s1 = apic_write hw APIC_TASKPRI (of_nat (IRQ_TO_VECTOR irq)) s
      in obind (aget (irq_handler s1) irq) (\<lambda>h.
         obind (case h of None \<Rightarrow> Done s1 | Some f \<Rightarrow> call_handler scan f irq s1) (\<lambda>s2.
         let s3 = end_irq hw irq s2
         in Done (apic_write hw APIC_TASKPRI task_pri s3))))"

subsection \<open>Devices\<close>

definition init_bsp_timer :: "lapic_hw \<Rightarrow> irq_state \<Rightarrow> irq_state outcome" where
  "init_bsp_timer hw s =
     obind (on_screen (caos_printf ''Init local timer of CPU #%d '' [ArgInt (cpu_id s)]) s) (\<lambda>s1.
     let s2 = apic_write hw APIC_TMICT 0xFFFFFF s1;
         s3 = apic_write hw APIC_TDCR APIC_TDR_DIV_64 s2;
         lvt_timer = apic_read APIC_LVTT s3;
         lvt_timer = lvt_timer AND NOT APIC_LVT_MASKED;
         lvt_timer = lvt_timer OR APIC_LVT_TIMER_PERIODIC;
         lvt_timer = lvt_timer OR of_nat (IRQ_TO_VECTOR BSP_TIMER_IRQ);
         s4 = apic_write hw APIC_LVTT lvt_timer s3
     in if apic_read APIC_LVTT s4 AND APIC_LVT_MASKED = 0
        then obind (on_screen (caos_printf ''..success\<newline>'' []) s4) (\<lambda>s5.
             obind (register_irq (of_nat BSP_TIMER_IRQ) Bsp_local_timer s5) (\<lambda>(_, s6). Done s6))
        else on_screen (caos_printf ''..fail\<newline>'' []) s4)"

definition keyboard_init :: "irq_state \<Rightarrow> (int \<times> irq_state) outcome" where
  "keyboard_init s =
     obind (on_screen (caos_printf ''Initialize keyboard..'' []) s) (\<lambda>s1.
     obind (register_irq (of_nat KEYBOARD_IRQ) Keyboard_isr s1) (\<lambda>(r, s2).
     if r = 0
     then obind (on_screen (caos_printf ''OK\<newline>'' []) s2) (\<lambda>s3. Done (0, s3))
     else obind (on_screen (caos_printf ''ERROR\<newline>'' []) s2) (\<lambda>s3. Done (- 1, s3))))"

subsection \<open>Lemmas: the handlers\<close>

lemma set_screen_in:
  "i < length (video_mem k) \<Longrightarrow> i < 2 ^ 64 \<Longrightarrow>
    set_screen (of_nat i) c k = Done (k\<lparr>video_mem := (video_mem k)[i := BG_BLACK OR ucast c]\<rparr>)"
  by (simp add: set_screen_def outcome_simps)

lemma clear_line_spec:
  "n \<le> length (video_mem k) \<Longrightarrow> n < 2 ^ 64 \<Longrightarrow>
    clear_line n k = Done (k\<lparr>video_mem := replicate n 0x0720 @ drop n (video_mem k)\<rparr>)"
proof (induction n arbitrary: k)
  case (Suc n)
  have "drop n ((video_mem k)[n := 0x0720]) = 0x0720 # drop (Suc n) (video_mem k)"
    using Suc.prems by (simp add: drop_update_swap Cons_nth_drop_Suc [symmetric])
  then show ?case using Suc by (simp add: set_screen_in BG_BLACK_def replicate_append_same [symmetric])
qed simp

text \<open>The line that the timer draws.\<close>

definition timer_line :: "u8 \<Rightarrow> u16 list" where
  "timer_line t = [0x0742, 0x0753, 0x0750, 0x0700 OR ucast t] @ replicate 73 0x0720 @ [0x0741, 0x0750, 0x0720]"

lemma timer_draws:
  assumes "length (video_mem (screen s)) = 2000"
  shows "bsp_local_timer num s =
    Done (s\<lparr>screen := (screen s)\<lparr>video_mem := timer_line (tick s) @ drop 80 (video_mem (screen s))\<rparr>,
            tick := tick s + 1\<rparr>)"
proof -
  let ?r = "drop 80 (video_mem (screen s))"
  note in' = set_screen_in [of 0, simplified] set_screen_in [of 1, simplified] set_screen_in [of 2, simplified]
    set_screen_in [of 3, simplified] set_screen_in [of 77, simplified] set_screen_in [of 78, simplified]
  have "(replicate 80 (0x0720 :: u16))[0 := 0x0742, 1 := 0x0753, 2 := 0x0750, 3 := 0x0700 OR ucast (tick s), 77 := 0x0741, 78 := 0x0750]
      = timer_line (tick s)"
    by (simp add: timer_line_def numeral_eq_Suc)
  then have "(replicate 80 (0x0720 :: u16) @ ?r)[0 := 0x0742, 1 := 0x0753, 2 := 0x0750, 3 := 0x0700 OR ucast (tick s), 77 := 0x0741, 78 := 0x0750]
      = timer_line (tick s) @ ?r"
    by (simp add: list_update_append)
  then show ?thesis using assms
    by (simp add: bsp_local_timer_def clear_line_spec in' BG_BLACK_def del: obind_eq_Done_iff)
qed

subsection \<open>The contract of a handler\<close>

text \<open>
  What \<^verbatim>\<open>handle_irq\<close> needs of a handler: called with the kernel's drivers in order, in a state in which
  it is able to do its work, it returns with them in order and has not touched the local APIC;
  in any other state it goes wrong. Whether it is able does not depend on the local APIC.
\<close>

definition drivers_ok :: "irq_state \<Rightarrow> bool" where
  "drivers_ok s \<longleftrightarrow> kbd_ok (kbd_view s) \<and> length (irq_handler s) = MAX_IRQ"

locale irq_service =
  fixes serve :: "nat \<Rightarrow> irq_state \<Rightarrow> irq_state outcome"
    and able :: "nat \<Rightarrow> irq_state \<Rightarrow> bool"
  assumes serve_ok: "drivers_ok s \<Longrightarrow> n < MAX_IRQ \<Longrightarrow> able n s \<Longrightarrow>
    \<exists>s'. serve n s = Done s' \<and> drivers_ok s' \<and> lapic s' = lapic s \<and> lapic_log s' = lapic_log s \<and>
      irq_handler s' = irq_handler s \<and> lock_bt (screen s') = lock_bt (screen s)"
    and serve_refused: "drivers_ok s \<Longrightarrow> n < MAX_IRQ \<Longrightarrow> \<not> able n s \<Longrightarrow> serve n s = Fault"
    and able_apic: "able n (apic_write hw r v s) = able n s"
begin

text \<open>A handler between the two stores to the task priority register.\<close>

lemma served:
  assumes "local_apic hw" "drivers_ok s" "irq < MAX_IRQ" "able irq s" "lapic s APIC_TASKPRI AND 0xFF = lapic s APIC_TASKPRI"
  shows "\<exists>s2. serve irq (apic_write hw APIC_TASKPRI v s) = Done s2 \<and> drivers_ok s2 \<and>
    lapic_log s2 = lapic_log s @ [(APIC_TASKPRI, v)] \<and> irq_handler s2 = irq_handler s \<and>
    lapic s2 = hw APIC_TASKPRI v (lapic s) \<and> lock_bt (screen s2) = lock_bt (screen s) \<and>
    lapic (apic_write hw APIC_TASKPRI (lapic s APIC_TASKPRI) (end_irq hw irq s2)) APIC_TASKPRI = lapic s APIC_TASKPRI"
proof -
  have "drivers_ok (apic_write hw APIC_TASKPRI v s)" "able irq (apic_write hw APIC_TASKPRI v s)"
    using assms able_apic by (simp_all add: drivers_ok_def kbd_view_def apic_write_def)
  from serve_ok [OF this(1) assms(3) this(2)] show ?thesis
    using assms(5) local_apic.pri_write [OF assms(1)] by (auto simp: apic_write_def end_irq_def)
qed

lemma refused:
  assumes "drivers_ok s" "irq < MAX_IRQ" "\<not> able irq s"
  shows "serve irq (apic_write hw APIC_TASKPRI v s) = Fault"
proof -
  have "drivers_ok (apic_write hw APIC_TASKPRI v s)"
    using assms(1) by (simp add: drivers_ok_def kbd_view_def apic_write_def)
  then show ?thesis using serve_refused assms able_apic by blast
qed

end

lemma render_unknown:
  "render lb (bytes ''Unknown interrupt occur, <irq=%d>\<newline>'') [ArgInt a] =
    (if a = 0 \<or> lb then Some (bytes ''Unknown interrupt occur, <irq='' @ dec_str a @ bytes ''>\<newline>'') else None)"
  using render_text [of "bytes ''Unknown interrupt occur, <irq=''" lb "bytes ''%d>\<newline>''"]
  by (simp add: bytes_def conversion_def)

lemma irq_number: "n < MAX_IRQ \<Longrightarrow> (of_nat n :: u64) = 0 \<longleftrightarrow> n = 0"
  by (simp add: MAX_IRQ_def unat_eq_0 [symmetric] unat_of_nat take_bit_nat_eq_self del: unat_eq_zero)

text \<open>The handler of unknown interrupts prints their number in base ten.\<close>

interpretation ignoring: irq_service ignore_isr_handler "\<lambda>n s. n = 0 \<or> lock_bt (screen s)"
proof
  fix s n assume ok: "drivers_ok s" "n < MAX_IRQ" "n = 0 \<or> lock_bt (screen s)"
  have r: "render (lock_bt (screen s)) (bytes ''Unknown interrupt occur, <irq=%d>\<newline>'') [ArgInt (of_nat n)] =
      Some (bytes ''Unknown interrupt occur, <irq='' @ dec_str (of_nat n) @ bytes ''>\<newline>'')"
    using ok(3) irq_number [OF ok(2)] by (simp add: render_unknown)
  have "\<exists>k. caos_printf ''Unknown interrupt occur, <irq=%d>\<newline>'' [ArgInt (of_nat n)] (screen s) = Done k \<and> screen_ok k"
    by (rule printf_ok [OF _ r])
      (use ok dec_str_clean dec_str_length [of "of_nat n"] in \<open>simp_all add: drivers_ok_def kbd_ok_def kbd_view_def bytes_def\<close>)
  then obtain k where "caos_printf ''Unknown interrupt occur, <irq=%d>\<newline>'' [ArgInt (of_nat n)] (screen s) = Done k" "screen_ok k"
    by blast
  moreover from this(1) have "lock_bt k = lock_bt (screen s)" by (rule printf_lock_bt)
  ultimately show "\<exists>s'. ignore_isr_handler n s = Done s' \<and> drivers_ok s' \<and> lapic s' = lapic s \<and> lapic_log s' = lapic_log s \<and>
      irq_handler s' = irq_handler s \<and> lock_bt (screen s') = lock_bt (screen s)"
    using ok by (auto simp: ignore_isr_handler_def on_screen_def drivers_ok_def kbd_ok_def kbd_view_def)
next
  fix s n assume ok: "drivers_ok s" "n < MAX_IRQ" "\<not> (n = 0 \<or> lock_bt (screen s))"
  then have "render (lock_bt (screen s)) (bytes ''Unknown interrupt occur, <irq=%d>\<newline>'') [ArgInt (of_nat n)] = None"
    using irq_number [OF ok(2)] by (simp add: render_unknown)
  from printf_trap [OF this] show "ignore_isr_handler n s = Fault"
    by (simp add: ignore_isr_handler_def on_screen_def)
qed (simp add: apic_write_def)

interpretation timing: irq_service bsp_local_timer "\<lambda>n s. True"
proof
  fix s n assume "drivers_ok s"
  then have "length (video_mem (screen s)) = 2000" "length (sz (screen s)) = 128" "unat (cursor_offset (screen s)) < 2000"
    "status s AND NOT 0x3f = 0" "length (irq_handler s) = MAX_IRQ"
    by (simp_all add: drivers_ok_def kbd_ok_def kbd_view_def screen_ok_def)
  then show "\<exists>s'. bsp_local_timer n s = Done s' \<and> drivers_ok s' \<and> lapic s' = lapic s \<and> lapic_log s' = lapic_log s \<and>
      irq_handler s' = irq_handler s \<and> lock_bt (screen s') = lock_bt (screen s)"
    by (simp add: timer_draws drivers_ok_def kbd_ok_def kbd_view_def screen_ok_def timer_line_def)
qed simp_all

text \<open>The keyboard handler deletes no character in front of the first cell.\<close>

definition erases_corner :: "u8 \<Rightarrow> irq_state \<Rightarrow> bool" where
  "erases_corner scan s \<longleftrightarrow> cursor_offset (screen s) = 0 \<and> deletes scan (status s)"

interpretation typing: irq_service "call_handler scan Keyboard_isr" "\<lambda>n s. \<not> erases_corner scan s"
proof
  fix s n assume ok: "drivers_ok s" "\<not> erases_corner scan s"
  then obtain k where k: "keyboard_isr scan (kbd_view s) = Done k" "kbd_ok k"
    using kbd_isr_cases [of "kbd_view s" scan] by (auto simp: drivers_ok_def erases_corner_def kbd_view_def)
  have "lock_bt (con k) = lock_bt (screen s)" using kbd_isr_lock_bt [OF k(1)] by (simp add: kbd_view_def)
  moreover have "kbd_view (kbd_back s k) = k" by (simp add: kbd_view_def kbd_back_def)
  ultimately show "\<exists>s'. call_handler scan Keyboard_isr n s = Done s' \<and> drivers_ok s' \<and> lapic s' = lapic s \<and>
      lapic_log s' = lapic_log s \<and> irq_handler s' = irq_handler s \<and> lock_bt (screen s') = lock_bt (screen s)"
    using ok(1) k by (simp add: drivers_ok_def kbd_back_def)
next
  fix s n assume "drivers_ok s" "\<not> \<not> erases_corner scan s"
  then show "call_handler scan Keyboard_isr n s = Fault"
    using kbd_isr_cases [of "kbd_view s" scan] by (auto simp: drivers_ok_def erases_corner_def kbd_view_def)
qed (simp add: apic_write_def erases_corner_def)

text \<open>When a handler is able to do its work.\<close>

fun handler_able :: "u8 \<Rightarrow> irq_fn \<Rightarrow> nat \<Rightarrow> irq_state \<Rightarrow> bool" where
  "handler_able scan Ignore_isr_handler n s \<longleftrightarrow> n = 0 \<or> lock_bt (screen s)"
| "handler_able scan Bsp_local_timer n s \<longleftrightarrow> True"
| "handler_able scan Keyboard_isr n s \<longleftrightarrow> \<not> erases_corner scan s"

lemma handlers_serve: "irq_service (call_handler scan f) (handler_able scan f)"
proof (cases f)
  case Keyboard_isr
  moreover have "handler_able scan Keyboard_isr = (\<lambda>n s. \<not> erases_corner scan s)" by (simp add: fun_eq_iff)
  ultimately show ?thesis using typing.irq_service_axioms by simp
next
  case Bsp_local_timer
  moreover have "call_handler scan Bsp_local_timer = bsp_local_timer" "handler_able scan Bsp_local_timer = (\<lambda>n s. True)"
    by (simp_all add: fun_eq_iff)
  ultimately show ?thesis using timing.irq_service_axioms by simp
next
  case Ignore_isr_handler
  moreover have "call_handler scan Ignore_isr_handler = ignore_isr_handler"
    "handler_able scan Ignore_isr_handler = (\<lambda>n s. n = 0 \<or> lock_bt (screen s))" by (simp_all add: fun_eq_iff)
  ultimately show ?thesis using ignoring.irq_service_axioms by simp
qed

subsection \<open>Properties\<close>

lemma handle_irq_served:
  assumes hw: "local_apic hw" and ok: "drivers_ok s" and irq: "irq < MAX_IRQ"
    and pri: "lapic s APIC_TASKPRI AND 0xFF = lapic s APIC_TASKPRI" and h: "irq_handler s ! irq = Some f"
    and able: "handler_able scan f irq s"
  shows "\<exists>s2 s'. call_handler scan f irq (apic_write hw APIC_TASKPRI (of_nat (irq + 0x20)) s) = Done s2 \<and>
    handle_irq hw scan irq s = Done s' \<and> drivers_ok s' \<and>
    lapic_log s' = lapic_log s @
      [(APIC_TASKPRI, of_nat (irq + 0x20)), (APIC_EOI, 0), (APIC_TASKPRI, lapic s APIC_TASKPRI)] \<and>
    lapic s' APIC_TASKPRI = lapic s APIC_TASKPRI \<and>
    (screen s', tick s', status s', code s') = (screen s2, tick s2, status s2, code s2) \<and>
    irq_handler s' = irq_handler s \<and> lapic s' APIC_LVTT AND 0x300FF = lapic s APIC_LVTT AND 0x300FF \<and>
    lapic s' APIC_SPIV = lapic s APIC_SPIV \<and> lock_bt (screen s') = lock_bt (screen s)"
proof -
  from irq_service.served [OF handlers_serve hw ok irq able pri]
  obtain s2 where s2: "call_handler scan f irq (apic_write hw APIC_TASKPRI (of_nat (irq + 0x20)) s) = Done s2"
    "drivers_ok s2" "lapic_log s2 = lapic_log s @ [(APIC_TASKPRI, of_nat (irq + 0x20))]"
    "lapic (apic_write hw APIC_TASKPRI (lapic s APIC_TASKPRI) (end_irq hw irq s2)) APIC_TASKPRI = lapic s APIC_TASKPRI"
    "irq_handler s2 = irq_handler s" "lock_bt (screen s2) = lock_bt (screen s)" "lapic s2 = hw APIC_TASKPRI (of_nat (irq + 0x20)) (lapic s)"
    by blast
  let ?s' = "apic_write hw APIC_TASKPRI (lapic s APIC_TASKPRI) (end_irq hw irq s2)"
  have vec: "(of_nat (IRQ_TO_VECTOR irq) :: u32) = of_nat (irq + 0x20)" by (simp add: IRQ_TO_VECTOR_def VECTOR_BASE_def)
  have "aget (irq_handler (apic_write hw APIC_TASKPRI (of_nat (irq + 0x20)) s)) irq = Done (Some f)"
    using irq h ok by (simp add: apic_write_def drivers_ok_def)
  then have "handle_irq hw scan irq s = Done ?s'"
    unfolding handle_irq_def Let_def vec by (simp add: apic_read_def s2(1) del: obind_eq_Done_iff aget_Done_iff of_nat_add)
  moreover have "drivers_ok ?s'" "lapic_log ?s' = lapic_log s @ [(APIC_TASKPRI, of_nat (irq + 0x20)), (APIC_EOI, 0),
      (APIC_TASKPRI, lapic s APIC_TASKPRI)]"
    "(screen ?s', tick ?s', status ?s', code ?s') = (screen s2, tick s2, status s2, code s2)"
    using s2(2,3) by (simp_all add: drivers_ok_def kbd_view_def apic_write_def end_irq_def ack_APIC_def)
  moreover have "irq_handler ?s' = irq_handler s" "lock_bt (screen ?s') = lock_bt (screen s)" "lapic ?s' APIC_SPIV = lapic s APIC_SPIV"
    "lapic ?s' APIC_LVTT AND 0x300FF = lapic s APIC_LVTT AND 0x300FF"
    using s2(5-7) by (simp_all add: apic_write_def end_irq_def ack_APIC_def local_apic.spiv_keep [OF hw] local_apic.timer_keep [OF hw])
  ultimately show ?thesis using s2(1,4) by blast
qed

lemma handle_irq_refused:
  assumes "drivers_ok s" "irq < MAX_IRQ" "irq_handler s ! irq = Some f" "\<not> handler_able scan f irq s"
  shows "handle_irq hw scan irq s = Fault"
proof -
  have vec: "(of_nat (IRQ_TO_VECTOR irq) :: u32) = of_nat (irq + 0x20)" by (simp add: IRQ_TO_VECTOR_def VECTOR_BASE_def)
  have "aget (irq_handler (apic_write hw APIC_TASKPRI (of_nat (irq + 0x20)) s)) irq = Done (Some f)"
    using assms(1-3) by (simp add: apic_write_def drivers_ok_def)
  then show ?thesis
    unfolding handle_irq_def Let_def vec
    using irq_service.refused [OF handlers_serve assms(1,2,4)] by (simp del: obind_eq_Done_iff aget_Done_iff of_nat_add)
qed

text \<open>
  C12 (\<^verbatim>\<open>handle_irq\<close>). For each of the 32 interrupt numbers and whatever handler is registered for it,
  the dispatch returns with the drivers in order exactly when the handler is able to do its work.
  Then the handler runs after the task priority has been raised to the vector of the interrupt,
  the interrupt is acknowledged once, and the priority is put back to what it was before. A
  handler is not able to do its work, and the dispatch goes wrong, in two cases: the handler of
  unknown interrupts prints a number other than zero in base ten, which traps on a processor that
  refuses \<^verbatim>\<open>bt\<close> with a lock prefix; and the keyboard handler deletes a character while the cursor
  is on the first cell of the screen.
\<close>

theorem handle_irq_dispatch:
  assumes hw: "local_apic hw" and ok: "drivers_ok s" and irq: "irq < MAX_IRQ"
    and pri: "lapic s APIC_TASKPRI AND 0xFF = lapic s APIC_TASKPRI" and h: "irq_handler s ! irq = Some f"
  shows "if (case f of Ignore_isr_handler \<Rightarrow> irq = 0 \<or> lock_bt (screen s) | Bsp_local_timer \<Rightarrow> True
      | Keyboard_isr \<Rightarrow> \<not> (cursor_offset (screen s) = 0 \<and> deletes scan (status s)))
    then \<exists>s2 s'. call_handler scan f irq (apic_write hw APIC_TASKPRI (of_nat (irq + 0x20)) s) = Done s2 \<and>
      handle_irq hw scan irq s = Done s' \<and> drivers_ok s' \<and>
      lapic_log s' = lapic_log s @
        [(APIC_TASKPRI, of_nat (irq + 0x20)), (APIC_EOI, 0), (APIC_TASKPRI, lapic s APIC_TASKPRI)] \<and>
      lapic s' APIC_TASKPRI = lapic s APIC_TASKPRI \<and>
      (screen s', tick s', status s', code s') = (screen s2, tick s2, status s2, code s2)
    else handle_irq hw scan irq s = Fault"
proof -
  have able: "(case f of Ignore_isr_handler \<Rightarrow> irq = 0 \<or> lock_bt (screen s) | Bsp_local_timer \<Rightarrow> True
      | Keyboard_isr \<Rightarrow> \<not> (cursor_offset (screen s) = 0 \<and> deletes scan (status s))) = handler_able scan f irq s"
    by (cases f) (simp_all add: erases_corner_def)
  show ?thesis
  proof (cases "handler_able scan f irq s")
    case True
    from handle_irq_served [OF hw ok irq pri h this] show ?thesis unfolding able if_P [OF True] by blast
  next
    case False
    from handle_irq_refused [OF ok irq h this] show ?thesis unfolding able if_not_P [OF False] .
  qed
qed

lemma redirection_small:
  "\<forall>n \<in> set [0..<32]. (ucast (redirection (of_nat n)) :: u32) = 0xA020 + of_nat n \<and>
     (ucast (ucast IO_APIC_REDTBL_BASE + (of_nat n :: u64) * 2) :: u32) = 0x10 + 2 * of_nat n"
  by code_simp

lemma enable_irq_spec:
  assumes "n < 32"
  shows "io_apic_enable_irq (of_nat n) s =
    (if n \<le> unat (GET_IO_APIC_ENTRY (io_regs s IO_APIC_VERSION))
     then (0, s\<lparr>io_index := 0x10 + 2 * of_nat n, io_regs := (io_regs s)(0x10 + 2 * of_nat n := 0xA020 + of_nat n)\<rparr>)
     else (- 1, s\<lparr>io_index := IO_APIC_VERSION\<rparr>))"
proof -
  have "unat (of_nat n :: u64) = n" using assms by simp
  then have "\<not> bit (of_nat n :: u64) 63" using assms
    by (simp add: bit_of_nat_iff bit_iff_odd [of n])
  then have "sint (of_nat n :: u64) = int n" using assms sint_of_low [of "of_nat n"]
    by (simp add: unsigned_of_nat take_bit_nat_eq_self)
  moreover have "(ucast (redirection (of_nat n)) :: u32) = 0xA020 + of_nat n"
    "(ucast (ucast IO_APIC_REDTBL_BASE + (of_nat n :: u64) * 2) :: u32) = 0x10 + 2 * of_nat n"
    using redirection_small assms by auto
  moreover have "uint e < int n \<longleftrightarrow> \<not> n \<le> unat e" for e :: u32
    by (metis not_le of_nat_less_iff uint_nat)
  ultimately show ?thesis
    by (simp add: io_apic_enable_irq_def io_apic_read_def io_apic_write_def Let_def)
qed

text \<open>
  C15 (\<^verbatim>\<open>register_irq\<close>). The handler is entered into the table, and the redirection entry of the
  interrupt is set to its vector, level triggered, active low and not masked, if the I/O APIC
  has an entry for it; no other register of the I/O APIC changes, in particular not the half
  of the entry that holds the destination. Without an entry the call reports the error, but
  the handler stays in the table. A number beyond the table is not checked: the store goes
  outside of it.
\<close>

theorem register_irq_routes:
  assumes "length (irq_handler s) = MAX_IRQ" and "n < 2 ^ 64"
  shows "if n < MAX_IRQ
    then \<exists>r s'. register_irq (of_nat n) h s = Done (r, s') \<and> irq_handler s' = (irq_handler s)[n := Some h] \<and>
      (if n \<le> unat (GET_IO_APIC_ENTRY (io_regs s IO_APIC_VERSION))
       then r = 0 \<and> io_regs s' = (io_regs s)(0x10 + 2 * of_nat n := 0xA000 + of_nat (IRQ_TO_VECTOR n))
       else r = - 1 \<and> io_regs s' = io_regs s)
    else register_irq (of_nat n) h s = Fault"
proof (cases "n < MAX_IRQ")
  case True
  then have "register_irq (of_nat n) h s =
      Done (io_apic_enable_irq (of_nat n) (s\<lparr>irq_handler := (irq_handler s)[n := Some h]\<rparr>))"
    using assms by (simp add: register_irq_def outcome_simps del: obind_eq_Done_iff aput_Done_iff)
  then show ?thesis using True by (simp add: enable_irq_spec MAX_IRQ_def IRQ_TO_VECTOR_def VECTOR_BASE_def)
next
  case False
  then show ?thesis using assms by (simp add: register_irq_def outcome_simps)
qed

lemma printf_line:
  assumes "kbd_ok (kbd_view s)" "render (lock_bt (screen s)) (bytes fmt) args = Some t" "0x08 \<notin> set t" "0 \<notin> set t" "length t < 128"
  shows "\<exists>k. on_screen (caos_printf fmt args) s = Done (s\<lparr>screen := k\<rparr>) \<and> kbd_ok (kbd_view (s\<lparr>screen := k\<rparr>)) \<and>
    lock_bt k = lock_bt (screen s)"
proof -
  have "screen_ok (screen s)" using assms(1) by (simp add: kbd_ok_def kbd_view_def)
  from printf_ok [OF this assms(2-5)] obtain k where "caos_printf fmt args (screen s) = Done k" "screen_ok k" by blast
  moreover from this(1) have "lock_bt k = lock_bt (screen s)" by (rule printf_lock_bt)
  ultimately show ?thesis using assms(1)
    by (intro exI [of _ k]) (simp add: on_screen_def kbd_ok_def kbd_view_def)
qed

lemma masked_bit: "(x :: u32) AND APIC_LVT_MASKED = 0 \<longleftrightarrow> \<not> bit x 16"
  using and_exp_eq_0_iff_not_bit [of x 16] by (simp add: APIC_LVT_MASKED_def)

lemma init_bsp_timer_done:
  assumes hw: "local_apic hw" and ok: "drivers_ok s" and on: "bit (lapic s APIC_SPIV) 8"
    and lvtt: "lapic s APIC_LVTT AND 0x300FF = 0x10000"
    and entries: "16 \<le> unat (GET_IO_APIC_ENTRY (io_regs s IO_APIC_VERSION))"
    and num: "cpu_id s = 0 \<or> lock_bt (screen s)"
  shows "\<exists>s'. init_bsp_timer hw s = Done s' \<and> drivers_ok s' \<and> lapic s' APIC_LVTT AND 0x300FF = 0x20030 \<and>
    irq_handler s' = (irq_handler s)[BSP_TIMER_IRQ := Some Bsp_local_timer] \<and>
    io_regs s' = (io_regs s)(0x30 := 0xA030) \<and> lapic s' APIC_TASKPRI = lapic s APIC_TASKPRI \<and>
    bit (lapic s' APIC_SPIV) 8 \<and> idt s' = idt s \<and> mp s' = mp s \<and> lock_bt (screen s') = lock_bt (screen s)"
proof -
  have k: "kbd_ok (kbd_view s)" using ok by (simp add: drivers_ok_def)
  have r1: "render (lock_bt (screen s)) (bytes ''Init local timer of CPU #%d '') [ArgInt (cpu_id s)] =
      Some (bytes ''Init local timer of CPU #'' @ dec_str (cpu_id s) @ [0x20])"
    using render_text [of "bytes ''Init local timer of CPU #''" "lock_bt (screen s)" "bytes ''%d ''"] num
    by (auto simp: bytes_def conversion_def)
  obtain k1 where k1: "on_screen (caos_printf ''Init local timer of CPU #%d '' [ArgInt (cpu_id s)]) s = Done (s\<lparr>screen := k1\<rparr>)"
    "kbd_ok (kbd_view (s\<lparr>screen := k1\<rparr>))" "lock_bt k1 = lock_bt (screen s)"
    using printf_line [OF k r1] dec_str_clean dec_str_length [of "cpu_id s"] by (auto simp: bytes_def)
  define s3 where "s3 = apic_write hw APIC_TDCR APIC_TDR_DIV_64 (apic_write hw APIC_TMICT 0xFFFFFF (s\<lparr>screen := k1\<rparr>))"
  define v where "v = (lapic s3 APIC_LVTT AND NOT APIC_LVT_MASKED OR APIC_LVT_TIMER_PERIODIC) OR of_nat (IRQ_TO_VECTOR BSP_TIMER_IRQ)"
  define s4 where "s4 = apic_write hw APIC_LVTT v s3"
  have l3: "lapic s3 APIC_LVTT AND 0x300FF = 0x10000" "bit (lapic s3 APIC_SPIV) 8"
    using lvtt on by (simp_all add: s3_def apic_write_def local_apic.timer_keep [OF hw] local_apic.spiv_keep [OF hw])
  have "lapic s3 APIC_LVTT AND 0x200FF = (lapic s3 APIC_LVTT AND 0x300FF) AND 0x200FF" by (simp add: and.assoc)
  also have "\<dots> = 0" unfolding l3(1) by simp
  finally have "(lapic s3 APIC_LVTT AND NOT APIC_LVT_MASKED) AND 0x300FF = 0"
    by (simp add: and.assoc APIC_LVT_MASKED_def)
  then have v: "v AND 0x300FF = 0x20030"
    by (simp add: v_def bit.conj_disj_distrib2 APIC_LVT_TIMER_PERIODIC_def IRQ_TO_VECTOR_def VECTOR_BASE_def
        BSP_TIMER_IRQ_def CPU_IRQ_BASE_def)
  have l4: "lapic s4 APIC_LVTT AND 0x300FF = 0x20030"
    using local_apic.timer_write [OF hw, of "lapic s3" v] l3(2) v by (simp add: s4_def apic_write_def)
  have keep4: "lapic s4 APIC_TASKPRI = lapic s APIC_TASKPRI" "bit (lapic s4 APIC_SPIV) 8" "idt s4 = idt s" "mp s4 = mp s"
    "lock_bt (screen s4) = lock_bt (screen s)"
    using on k1(3) by (simp_all add: s4_def s3_def apic_write_def local_apic.pri_keep [OF hw] local_apic.spiv_keep [OF hw])
  have "bit (lapic s4 APIC_LVTT AND 0x300FF) 16 = bit (lapic s4 APIC_LVTT) 16" by (simp add: bit_and_iff)
  then have unmasked: "apic_read APIC_LVTT s4 AND APIC_LVT_MASKED = 0"
    unfolding l4 masked_bit apic_read_def by simp
  have k4: "kbd_ok (kbd_view s4)" using k1(2) by (simp add: s4_def s3_def apic_write_def kbd_view_def)
  have r2: "render (lock_bt (screen s4)) (bytes ''..success\<newline>'') [] = Some (bytes ''..success\<newline>'')"
    by (simp add: bytes_def conversion_def)
  obtain k5 where k5: "on_screen (caos_printf ''..success\<newline>'' []) s4 = Done (s4\<lparr>screen := k5\<rparr>)"
    "kbd_ok (kbd_view (s4\<lparr>screen := k5\<rparr>))" "lock_bt k5 = lock_bt (screen s4)"
    using printf_line [OF k4 r2] by (auto simp: bytes_def)
  let ?s5 = "s4\<lparr>screen := k5, irq_handler := (irq_handler s)[16 := Some Bsp_local_timer]\<rparr>"
  have same: "irq_handler s4 = irq_handler s" "io_regs s4 = io_regs s" by (simp_all add: s4_def s3_def apic_write_def)
  have "register_irq (of_nat 16) Bsp_local_timer (s4\<lparr>screen := k5\<rparr>) = Done (io_apic_enable_irq (of_nat 16) ?s5)"
    using ok same by (simp add: register_irq_def outcome_simps drivers_ok_def MAX_IRQ_def del: obind_eq_Done_iff)
  moreover have "init_bsp_timer hw s = obind (on_screen (caos_printf ''..success\<newline>'' []) s4) (\<lambda>s5.
      obind (register_irq (of_nat BSP_TIMER_IRQ) Bsp_local_timer s5) (\<lambda>(_, s6). Done s6))"
    using unmasked unfolding init_bsp_timer_def Let_def k1(1) s4_def v_def s3_def apic_read_def by simp
  moreover have "BSP_TIMER_IRQ = 16" by (simp add: kconst)
  ultimately have "init_bsp_timer hw s = Done (snd (io_apic_enable_irq (of_nat 16) ?s5))"
    using k5(1) by (simp add: split_beta del: obind_eq_Done_iff)
  then show ?thesis
    using enable_irq_spec [of 16 ?s5] entries same l4 k5(2,3) ok keep4
    by (simp add: drivers_ok_def kbd_view_def kconst)
qed

lemma keyboard_init_done:
  assumes ok: "drivers_ok s" and entries: "1 \<le> unat (GET_IO_APIC_ENTRY (io_regs s IO_APIC_VERSION))"
  shows "\<exists>s'. keyboard_init s = Done (0, s') \<and> drivers_ok s' \<and> lapic s' = lapic s \<and> lock_bt (screen s') = lock_bt (screen s) \<and>
    irq_handler s' = (irq_handler s)[KEYBOARD_IRQ := Some Keyboard_isr] \<and>
    io_regs s' = (io_regs s)(0x12 := 0xA021) \<and> idt s' = idt s \<and> mp s' = mp s"
proof -
  have k: "kbd_ok (kbd_view s)" using ok by (simp add: drivers_ok_def)
  have r: "render lb (bytes ''Initialize keyboard..'') [] = Some (bytes ''Initialize keyboard..'')"
    "render lb (bytes ''OK\<newline>'') [] = Some (bytes ''OK\<newline>'')" for lb
    by (simp_all add: bytes_def conversion_def)
  obtain k1 where k1: "on_screen (caos_printf ''Initialize keyboard..'' []) s = Done (s\<lparr>screen := k1\<rparr>)"
    "kbd_ok (kbd_view (s\<lparr>screen := k1\<rparr>))" "lock_bt k1 = lock_bt (screen s)"
    using printf_line [OF k r(1)] by (auto simp: bytes_def)
  define s1 where "s1 = s\<lparr>screen := k1, irq_handler := (irq_handler s)[1 := Some Keyboard_isr]\<rparr>"
  have "register_irq (of_nat 1) Keyboard_isr (s\<lparr>screen := k1\<rparr>) = Done (io_apic_enable_irq (of_nat 1) s1)"
    using ok by (simp add: register_irq_def outcome_simps drivers_ok_def MAX_IRQ_def s1_def del: obind_eq_Done_iff)
  moreover define s2 where "s2 = s1\<lparr>io_index := 0x12, io_regs := (io_regs s1)(0x12 := 0xA021)\<rparr>"
  moreover have "io_regs s1 = io_regs s" by (simp add: s1_def)
  then have "io_apic_enable_irq (of_nat 1) s1 = (0, s2)"
    using enable_irq_spec [of 1 s1] entries by (simp add: s2_def)
  ultimately have reg: "register_irq (of_nat KEYBOARD_IRQ) Keyboard_isr (s\<lparr>screen := k1\<rparr>) = Done (0, s2)"
    by (simp add: kconst)
  have "kbd_ok (kbd_view s2)" using k1(2) by (simp add: s2_def s1_def kbd_view_def)
  from printf_line [OF this r(2)]
  obtain k2 where k2: "on_screen (caos_printf ''OK\<newline>'' []) s2 = Done (s2\<lparr>screen := k2\<rparr>)"
    "kbd_ok (kbd_view (s2\<lparr>screen := k2\<rparr>))" "lock_bt k2 = lock_bt (screen s2)"
    by (auto simp: bytes_def)
  have "keyboard_init s = Done (0, s2\<lparr>screen := k2\<rparr>)"
    using k1(1) reg k2(1) by (simp add: keyboard_init_def del: obind_eq_Done_iff)
  then show ?thesis using k1(3) k2(2,3) ok by (auto simp: s2_def s1_def drivers_ok_def kconst)
qed


subsection \<open>A concrete machine\<close>

definition demo_irq :: irq_state where
  "demo_irq =
     \<lparr>lapic = (\<lambda>_. 0)(APIC_LVR := 0x50014, APIC_SPIV := 0x1FF, APIC_LVTT := 0x10000), lapic_log = [], io_index = 0,
      io_regs = (\<lambda>_. 0)(1 := 0x170011), screen = blank_console, mp = demo_mp,
      irq_handler = (replicate 32 (Some Ignore_isr_handler))[1 := Some Keyboard_isr], idt = [], tick = 0,
      status = 0, code = 0, prefix = False\<rparr>"

lemma demo_irq_ok: "drivers_ok demo_irq" "lock_bt (screen demo_irq)"
  by (simp_all add: drivers_ok_def kbd_view_def kbd_ok_def demo_irq_def screen_ok_def MAX_IRQ_def
      blank_console_def)

theorem handle_irq_dispatch_witness:
  "(\<exists>s'. handle_irq xapic 0x1e 1 demo_irq = Done s' \<and> drivers_ok s' \<and>
     lapic_log s' = [(APIC_TASKPRI, 0x21), (APIC_EOI, 0), (APIC_TASKPRI, 0)]) \<and>
   handle_irq xapic 0 5 (demo_irq\<lparr>screen := blank_console\<lparr>lock_bt := False\<rparr>\<rparr>) = Fault"
proof
  have s: "irq_handler demo_irq ! 1 = Some Keyboard_isr" "lapic demo_irq APIC_TASKPRI = 0" "lapic_log demo_irq = []"
    "cursor_offset (screen demo_irq) \<noteq> 0"
    by (simp_all add: demo_irq_def blank_console_def)
  then show "\<exists>s'. handle_irq xapic 0x1e 1 demo_irq = Done s' \<and> drivers_ok s' \<and>
     lapic_log s' = [(APIC_TASKPRI, 0x21), (APIC_EOI, 0), (APIC_TASKPRI, 0)]"
    using handle_irq_dispatch [OF xapic.local_apic_axioms demo_irq_ok(1), of 1 Keyboard_isr "0x1e"]
    by (auto simp: MAX_IRQ_def)
  let ?s = "demo_irq\<lparr>screen := blank_console\<lparr>lock_bt := False\<rparr>\<rparr>"
  have "drivers_ok ?s" "irq_handler ?s ! 5 = Some Ignore_isr_handler" "lapic ?s APIC_TASKPRI = 0" "\<not> lock_bt (screen ?s)"
    using demo_irq_ok(1) by (simp_all add: drivers_ok_def kbd_view_def kbd_ok_def demo_irq_def screen_ok_def)
  then show "handle_irq xapic 0 5 ?s = Fault"
    using handle_irq_dispatch [OF xapic.local_apic_axioms, of ?s 5 Ignore_isr_handler 0] by (simp add: MAX_IRQ_def)
qed

lemma demo_entries: "GET_IO_APIC_ENTRY (io_regs demo_irq IO_APIC_VERSION) = 23"
  by (simp add: GET_IO_APIC_ENTRY_def demo_irq_def IO_APIC_VERSION_def)

theorem register_irq_routes_witness:
  "\<exists>r s'. register_irq (of_nat 1) Keyboard_isr demo_irq = Done (r, s') \<and> r = 0 \<and>
     io_regs s' = (io_regs demo_irq)(0x12 := 0xA021)"
  using register_irq_routes [of demo_irq 1 Keyboard_isr] demo_irq_ok demo_entries
  by (auto simp: drivers_ok_def MAX_IRQ_def IRQ_TO_VECTOR_def VECTOR_BASE_def)


end
