(* ===== verification/Pic8259.thy ===== *)
theory Pic8259
  imports Console Descriptors
begin

text \<open>
  The old interrupt controllers (\<^verbatim>\<open>pic8259.c\<close>): the mask the kernel keeps and the bytes it writes
  to the ports of the two chips, newest last. The kernel does not call these functions any
  more, the I/O APIC has replaced the chips.
\<close>

subsection \<open>Operations\<close>

record pic =
  irq_mask :: u16
  pic_ports :: "(u16 \<times> u8) list"

definition pic_reset :: pic where
  "pic_reset = \<lparr>irq_mask = 0xfffb, pic_ports = []\<rparr>"

definition irq_mask0_7 :: "pic \<Rightarrow> u8" where
  "irq_mask0_7 p = ucast (irq_mask p AND 0xff)"

definition irq_mask8_15 :: "pic \<Rightarrow> u8" where
  "irq_mask8_15 p = ucast (drop_bit 8 (irq_mask p) AND 0xff)"

definition pic_out :: "u16 \<Rightarrow> u8 \<Rightarrow> pic \<Rightarrow> pic" where
  "pic_out port v p = p\<lparr>pic_ports := pic_ports p @ [(port, v)]\<rparr>"

definition pic8259_init :: "pic \<Rightarrow> pic" where
  "pic8259_init p =
     fold (\<lambda>(port, v). pic_out port v)
       [(0x20, 0x11), (0xa0, 0x11), (0x21, of_nat VECTOR_BASE), (0xa1, of_nat VECTOR_BASE),
        (0x21, 0x04), (0xa1, 0x02), (0x21, 0x01), (0xa1, 0x01),
        (0x21, irq_mask0_7 p), (0xa1, irq_mask8_15 p)] p"

text \<open>The shift count of \<^verbatim>\<open>1<<irq\<close> is taken modulo 32, as the processor does.\<close>

definition write_mask :: "nat \<Rightarrow> pic \<Rightarrow> pic" where
  "write_mask irq p =
     (if 8 \<le> irq then pic_out 0xa1 (irq_mask8_15 p) p else pic_out 0x21 (irq_mask0_7 p) p)"

definition enable_pic8259 :: "nat \<Rightarrow> pic \<Rightarrow> pic" where
  "enable_pic8259 irq p =
     write_mask irq (p\<lparr>irq_mask := ucast (ucast (irq_mask p) AND NOT (push_bit (irq mod 32) (1::u32)))\<rparr>)"

definition disable_pic8259 :: "nat \<Rightarrow> pic \<Rightarrow> pic" where
  "disable_pic8259 irq p =
     write_mask irq (p\<lparr>irq_mask := ucast (ucast (irq_mask p) OR push_bit (irq mod 32) (1::u32))\<rparr>)"

definition ack_pic8259 :: "pic \<Rightarrow> pic" where
  "ack_pic8259 p = pic_out 0xa0 0x20 (pic_out 0x20 0x20 p)"

subsection \<open>What the chips mask\<close>

text \<open>The byte last written to a port; the data ports 0x21 and 0xa1 hold the mask after the set-up.\<close>

definition last_out :: "u16 \<Rightarrow> pic \<Rightarrow> u8 option" where
  "last_out port p = map_of (rev (pic_ports p)) port"

definition in_step :: "pic \<Rightarrow> bool" where
  "in_step p \<longleftrightarrow> last_out 0x21 p = Some (irq_mask0_7 p) \<and> last_out 0xa1 p = Some (irq_mask8_15 p)"

text \<open>
  Whether the two chips let an interrupt through to the processor. The lines 8 to 15 are those of
  the second chip, whose output is connected to line 2 of the first: they need both chips.
\<close>

definition chip_passes :: "u16 \<Rightarrow> nat \<Rightarrow> pic \<Rightarrow> bool" where
  "chip_passes port line p \<longleftrightarrow> (case last_out port p of Some m \<Rightarrow> \<not> bit m line | None \<Rightarrow> False)"

definition lets_through :: "nat \<Rightarrow> pic \<Rightarrow> bool" where
  "lets_through irq p \<longleftrightarrow>
     (if irq < 8 then chip_passes 0x21 irq p else chip_passes 0xa1 (irq - 8) p \<and> chip_passes 0x21 2 p)"

datatype pic_op = Enable nat | Disable nat | Ack

fun pic_do :: "pic_op \<Rightarrow> pic \<Rightarrow> pic" where
  "pic_do (Enable irq) p = enable_pic8259 irq p"
| "pic_do (Disable irq) p = disable_pic8259 irq p"
| "pic_do Ack p = ack_pic8259 p"

text \<open>What a history of calls asks for: an interrupt is on if the last call about it enabled it.\<close>

fun asked :: "pic_op list \<Rightarrow> nat \<Rightarrow> bool" where
  "asked [] irq = (irq = 2)"
| "asked (Enable i # ops) irq = (irq = i \<or> asked ops irq)"
| "asked (Disable i # ops) irq = (irq \<noteq> i \<and> asked ops irq)"
| "asked (Ack # ops) irq = asked ops irq"

fun op_irq :: "pic_op \<Rightarrow> nat" where
  "op_irq (Enable i) = i"
| "op_irq (Disable i) = i"
| "op_irq Ack = 0"

subsection \<open>Lemmas\<close>

lemma last_out_pic_out [simp]: "last_out q (pic_out port v p) = (if q = port then Some v else last_out q p)"
  by (simp add: last_out_def pic_out_def)

lemma mask_pic_out [simp]:
  "irq_mask (pic_out port v p) = irq_mask p" "irq_mask0_7 (pic_out port v p) = irq_mask0_7 p"
  "irq_mask8_15 (pic_out port v p) = irq_mask8_15 p"
  by (simp_all add: pic_out_def irq_mask0_7_def irq_mask8_15_def)

lemma init_in_step: "in_step (pic8259_init p) \<and> irq_mask (pic8259_init p) = irq_mask p"
  by (simp add: pic8259_init_def in_step_def)

lemma mask_bits:
  "bit (irq_mask0_7 p) n \<longleftrightarrow> n < 8 \<and> bit (irq_mask p) n"
  "bit (irq_mask8_15 p) n \<longleftrightarrow> n < 8 \<and> bit (irq_mask p) (8 + n)"
proof -
  have m: "(0xff :: u16) = mask 8" by (simp add: mask_eq_exp_minus_1)
  show "bit (irq_mask0_7 p) n \<longleftrightarrow> n < 8 \<and> bit (irq_mask p) n"
    "bit (irq_mask8_15 p) n \<longleftrightarrow> n < 8 \<and> bit (irq_mask p) (8 + n)"
    unfolding irq_mask0_7_def irq_mask8_15_def m by (auto simp: bit_simps simp del: mask_numeral)
qed

text \<open>An operation on an interrupt below 16 changes only the byte it writes.\<close>

lemma write_mask_in_step:
  assumes "irq < 16" "in_step p" "\<And>n. n < 16 \<Longrightarrow> n \<noteq> irq \<Longrightarrow> bit m n = bit (irq_mask p) n"
  shows "in_step (write_mask irq (p\<lparr>irq_mask := m\<rparr>))"
proof -
  have "irq_mask0_7 (p\<lparr>irq_mask := m\<rparr>) = irq_mask0_7 p" if "8 \<le> irq"
    using assms(3) that by (intro bit_word_eqI) (auto simp: mask_bits)
  moreover have "irq_mask8_15 (p\<lparr>irq_mask := m\<rparr>) = irq_mask8_15 p" if "irq < 8"
    using assms(3) that by (intro bit_word_eqI) (auto simp: mask_bits)
  ultimately show ?thesis
    using assms(2) by (auto simp: in_step_def write_mask_def last_out_def pic_out_def irq_mask0_7_def irq_mask8_15_def)
qed

lemma write_mask_mask [simp]: "irq_mask (write_mask irq p) = irq_mask p"
  by (simp add: write_mask_def)

lemma enable_bits:
  "irq < 16 \<Longrightarrow> n < 16 \<Longrightarrow> bit (irq_mask (enable_pic8259 irq p)) n \<longleftrightarrow> n \<noteq> irq \<and> bit (irq_mask p) n"
  "irq < 16 \<Longrightarrow> n < 16 \<Longrightarrow> bit (irq_mask (disable_pic8259 irq p)) n \<longleftrightarrow> n = irq \<or> bit (irq_mask p) n"
  by (auto simp: enable_pic8259_def disable_pic8259_def bit_simps)

lemma pic_do_in_step:
  assumes "in_step p" "op_irq x < 16"
  shows "in_step (pic_do x p)"
proof (cases x)
  case (Enable irq)
  then show ?thesis using assms
    by (auto simp: enable_pic8259_def bit_simps intro!: write_mask_in_step)
next
  case (Disable irq)
  then show ?thesis using assms
    by (auto simp: disable_pic8259_def bit_simps intro!: write_mask_in_step)
next
  case Ack
  then show ?thesis using assms by (simp add: ack_pic8259_def in_step_def)
qed

text \<open>
  C13 (\<^verbatim>\<open>pic8259.c\<close>, refinement). After the set-up and any history of enabling, disabling and
  acknowledging calls for the 16 interrupts, the two chips let through exactly the interrupts
  whose last call enabled them, and of those the lines of the second chip only while the cascade
  input, interrupt 2, is on as well. It is on from the start, but a call can turn it off, and then
  enabling an interrupt of the second chip has no effect.
\<close>

theorem pic_history:
  assumes "\<forall>x \<in> set ops. op_irq x < 16" and "irq < 16"
  shows "lets_through irq (foldr pic_do ops (pic8259_init pic_reset)) \<longleftrightarrow>
    asked ops irq \<and> (8 \<le> irq \<longrightarrow> asked ops 2)"
proof -
  have *: "in_step (foldr pic_do ops (pic8259_init pic_reset)) \<and>
    (\<forall>n<16. \<not> bit (irq_mask (foldr pic_do ops (pic8259_init pic_reset))) n \<longleftrightarrow> asked ops n)"
    using assms(1)
  proof (induction ops)
    case Nil
    have "\<forall>n<16. \<not> bit (0xfffb :: u16) n \<longleftrightarrow> n = 2" by code_simp
    then show ?case using init_in_step [of pic_reset] by (simp add: pic_reset_def)
  next
    case (Cons x ops)
    then show ?case
      using pic_do_in_step [of "foldr pic_do ops (pic8259_init pic_reset)" x]
      by (cases x) (auto simp: enable_bits ack_pic8259_def)
  qed
  then show ?thesis
    using assms(2) by (auto simp: lets_through_def chip_passes_def in_step_def mask_bits)
qed

theorem pic_history_witness:
  "lets_through 1 (foldr pic_do [Ack, Enable 1, Enable 12] (pic8259_init pic_reset)) \<and>
   lets_through 12 (foldr pic_do [Ack, Enable 1, Enable 12] (pic8259_init pic_reset)) \<and>
   \<not> lets_through 12 (foldr pic_do [Disable 2, Enable 12] (pic8259_init pic_reset))"
  using pic_history [of "[Ack, Enable 1, Enable 12]" 1] pic_history [of "[Ack, Enable 1, Enable 12]" 12]
    pic_history [of "[Disable 2, Enable 12]" 12] by simp

end
