(* ===== verification/Exceptions.thy ===== *)
theory Exceptions
  imports Console Descriptors
begin

text \<open>
  The handlers of processor exceptions (\<^verbatim>\<open>except_handler.c\<close>), each of which reports the exception
  on the console and returns. The error code is a 32-bit \<^verbatim>\<open>int\<close> passed on to a variable argument
  list, which is read as 64 bits: \<open>err\<close> is the whole register.
\<close>

subsection \<open>The handlers\<close>

definition do_divide_error :: "u64 \<Rightarrow> u64 \<Rightarrow> console \<Rightarrow> console outcome" where
  "do_divide_error err rip =
     caos_printf ''EXCEPTION: divide_error, error=%x, rip=%x\<newline>'' [ArgInt err, ArgInt rip]"

definition do_debug :: "u64 \<Rightarrow> u64 \<Rightarrow> console \<Rightarrow> console outcome" where
  "do_debug err rip =
     caos_printf ''EXCEPTION: debug, error=%x, rip=%x\<newline>'' [ArgInt err, ArgInt rip]"

definition do_nmi :: "u64 \<Rightarrow> u64 \<Rightarrow> console \<Rightarrow> console outcome" where
  "do_nmi err rip =
     caos_printf ''EXCEPTION: nmi, error=%x, rip=%x\<newline>'' [ArgInt err, ArgInt rip]"

definition do_int3 :: "u64 \<Rightarrow> u64 \<Rightarrow> console \<Rightarrow> console outcome" where
  "do_int3 err rip =
     caos_printf ''EXCEPTION: int3, error=%x, rip=%x\<newline>'' [ArgInt err, ArgInt rip]"

definition do_overflow :: "u64 \<Rightarrow> u64 \<Rightarrow> console \<Rightarrow> console outcome" where
  "do_overflow err rip =
     caos_printf ''EXCEPTION: overflow, error=%x, rip=%x\<newline>'' [ArgInt err, ArgInt rip]"

definition do_bounds :: "u64 \<Rightarrow> u64 \<Rightarrow> console \<Rightarrow> console outcome" where
  "do_bounds err rip =
     caos_printf ''EXCEPTION: bounds, error=%x, rip=%x\<newline>'' [ArgInt err, ArgInt rip]"

definition do_invalid_op :: "u64 \<Rightarrow> u64 \<Rightarrow> console \<Rightarrow> console outcome" where
  "do_invalid_op err rip =
     caos_printf ''EXCEPTION: invalid operatioin, error=%x, rip=%x\<newline>'' [ArgInt err, ArgInt rip]"

definition do_device_not_available :: "u64 \<Rightarrow> u64 \<Rightarrow> console \<Rightarrow> console outcome" where
  "do_device_not_available err rip =
     caos_printf ''EXCEPTION: device not avalible, error=%x, rip=%x\<newline>'' [ArgInt err, ArgInt rip]"

definition do_doublefault_fn :: "u64 \<Rightarrow> u64 \<Rightarrow> console \<Rightarrow> console outcome" where
  "do_doublefault_fn err rip =
     caos_printf ''EXCEPTION: doublefault, error=%x, rip=%x\<newline>'' [ArgInt err, ArgInt rip]"

definition do_coprocessor_segment_overrun :: "u64 \<Rightarrow> u64 \<Rightarrow> console \<Rightarrow> console outcome" where
  "do_coprocessor_segment_overrun err rip =
     caos_printf ''EXCEPTION: coprocessor segment overrun, error=%x, rip=%x\<newline>'' [ArgInt err, ArgInt rip]"

definition do_invalid_TSS :: "u64 \<Rightarrow> u64 \<Rightarrow> console \<Rightarrow> console outcome" where
  "do_invalid_TSS err rip =
     caos_printf ''EXCEPTION: invalid TSS, error=%x, rip=%x\<newline>'' [ArgInt err, ArgInt rip]"

definition do_segment_not_present :: "u64 \<Rightarrow> u64 \<Rightarrow> console \<Rightarrow> console outcome" where
  "do_segment_not_present err rip =
     caos_printf ''EXCEPTION: segment not present, error=%x, rip=%x\<newline>'' [ArgInt err, ArgInt rip]"

definition do_stack_segment :: "u64 \<Rightarrow> u64 \<Rightarrow> console \<Rightarrow> console outcome" where
  "do_stack_segment err rip =
     caos_printf ''EXCEPTION: stack segment, error=%x, rip=%x\<newline>'' [ArgInt err, ArgInt rip]"

definition do_general_protection :: "u64 \<Rightarrow> u64 \<Rightarrow> console \<Rightarrow> console outcome" where
  "do_general_protection err rip =
     caos_printf ''EXCEPTION: general protection, error=%x, rip=%x\<newline>'' [ArgInt err, ArgInt rip]"

definition do_page_fault :: "u64 \<Rightarrow> u64 \<Rightarrow> console \<Rightarrow> console outcome" where
  "do_page_fault err rip =
     caos_printf ''EXCEPTION: page fault, error=%x, rip=%x\<newline>'' [ArgInt err, ArgInt rip]"

definition do_coprocessor_error :: "u64 \<Rightarrow> u64 \<Rightarrow> console \<Rightarrow> console outcome" where
  "do_coprocessor_error err rip =
     caos_printf ''EXCEPTION: coprocessor error, error=%x, rip=%x\<newline>'' [ArgInt err, ArgInt rip]"

definition do_alignment_check :: "u64 \<Rightarrow> u64 \<Rightarrow> console \<Rightarrow> console outcome" where
  "do_alignment_check err rip =
     caos_printf ''EXCEPTION: alignment check, error=%x, rip=%x\<newline>'' [ArgInt err, ArgInt rip]"

definition do_machine_check :: "u64 \<Rightarrow> u64 \<Rightarrow> console \<Rightarrow> console outcome" where
  "do_machine_check err rip =
     caos_printf ''EXCEPTION: machine check , error=%x, rip=%x\<newline>'' [ArgInt err, ArgInt rip]"

definition do_simd_coprocessor_error :: "u64 \<Rightarrow> u64 \<Rightarrow> console \<Rightarrow> console outcome" where
  "do_simd_coprocessor_error err rip =
     caos_printf ''EXCEPTION: SIMD coprocessor error, error=%x, rip=%x\<newline>'' [ArgInt err, ArgInt rip]"

text \<open>The C function that the assembly entry of each exception calls.\<close>

definition exception_handlers :: "(isr_entry \<times> (u64 \<Rightarrow> u64 \<Rightarrow> console \<Rightarrow> console outcome)) list" where
  "exception_handlers =
     [(Divide_error, do_divide_error),
      (Debug, do_debug),
      (Nmi, do_nmi),
      (Int3, do_int3),
      (Overflow, do_overflow),
      (Bounds, do_bounds),
      (Invalid_op, do_invalid_op),
      (Device_not_available, do_device_not_available),
      (Doublefault_fn, do_doublefault_fn),
      (Coprocessor_segment_overrun, do_coprocessor_segment_overrun),
      (Invalid_TSS, do_invalid_TSS),
      (Segment_not_present, do_segment_not_present),
      (Stack_segment, do_stack_segment),
      (General_protection, do_general_protection),
      (Page_fault, do_page_fault),
      (Coprocessor_error, do_coprocessor_error),
      (Alignment_check, do_alignment_check),
      (Machine_check, do_machine_check),
      (Simd_coprocessor_error, do_simd_coprocessor_error)]"

subsection \<open>Lemmas\<close>

lemmas do_defs =
  do_divide_error_def do_debug_def do_nmi_def do_int3_def do_overflow_def do_bounds_def
  do_invalid_op_def do_device_not_available_def do_doublefault_fn_def
  do_coprocessor_segment_overrun_def do_invalid_TSS_def do_segment_not_present_def
  do_stack_segment_def do_general_protection_def do_page_fault_def do_coprocessor_error_def
  do_alignment_check_def do_machine_check_def do_simd_coprocessor_error_def

lemma render_exception:
  assumes "0x25 \<notin> set m"
  shows "render lb (m @ bytes '', error=%x, rip=%x\<newline>'') [ArgInt err, ArgInt rip] =
    Some (m @ bytes '', error='' @ hex_str err @ bytes '', rip='' @ hex_str rip @ [0x0a])"
  using assms by (simp add: render_text bytes_def conversion_def)

lemma exception_message:
  assumes "screen_ok k" "0x25 \<notin> set (bytes m)" "0x08 \<notin> set (bytes m)" "0 \<notin> set (bytes m)" "length m \<le> 60"
  shows "\<exists>k'. caos_printf (m @ '', error=%x, rip=%x\<newline>'') [ArgInt err, ArgInt rip] k = Done k' \<and> screen_ok k'"
proof (rule printf_ok [OF assms(1)])
  show "render (lock_bt k) (bytes (m @ '', error=%x, rip=%x\<newline>'')) [ArgInt err, ArgInt rip] =
      Some (bytes m @ bytes '', error='' @ hex_str err @ bytes '', rip='' @ hex_str rip @ [0x0a])"
    using render_exception [OF assms(2)] by (simp add: bytes_def)
qed (use assms hex_str_length [of err] hex_str_length [of rip] in \<open>simp_all add: hex_str_clean bytes_def\<close>)

text \<open>The texts in front of the error code.\<close>

definition exception_names :: "string list" where
  "exception_names =
     [''EXCEPTION: divide_error'', ''EXCEPTION: debug'', ''EXCEPTION: nmi'', ''EXCEPTION: int3'',
      ''EXCEPTION: overflow'', ''EXCEPTION: bounds'', ''EXCEPTION: invalid operatioin'',
      ''EXCEPTION: device not avalible'', ''EXCEPTION: doublefault'',
      ''EXCEPTION: coprocessor segment overrun'', ''EXCEPTION: invalid TSS'',
      ''EXCEPTION: segment not present'', ''EXCEPTION: stack segment'',
      ''EXCEPTION: general protection'', ''EXCEPTION: page fault'',
      ''EXCEPTION: coprocessor error'', ''EXCEPTION: alignment check'',
      ''EXCEPTION: machine check '', ''EXCEPTION: SIMD coprocessor error'']"

lemma handler_messages:
  "map (\<lambda>(e, h). h err rip) exception_handlers =
     map (\<lambda>m. caos_printf (m @ '', error=%x, rip=%x\<newline>'') [ArgInt err, ArgInt rip]) exception_names"
  by (simp add: exception_handlers_def exception_names_def do_defs)

lemma handler_message:
  assumes "(e, h) \<in> set exception_handlers"
  shows "\<exists>m \<in> set exception_names. h err rip = caos_printf (m @ '', error=%x, rip=%x\<newline>'') [ArgInt err, ArgInt rip]"
proof -
  have "h err rip \<in> set (map (\<lambda>(e, h). h err rip) exception_handlers)" using assms by force
  then show ?thesis unfolding handler_messages by auto
qed

lemma exception_names_ok:
  "\<forall>m \<in> set exception_names. 0x25 \<notin> set (bytes m) \<and> 0x08 \<notin> set (bytes m) \<and> 0 \<notin> set (bytes m) \<and> length m \<le> 60"
  by (simp add: exception_names_def bytes_def)

text \<open>
  Supplement (\<^verbatim>\<open>except_handler.c\<close>, every exception is reported). Each of the 19 exception vectors of the
  interrupt table has a C handler, which whatever the error code and the instruction address
  prints its report within the buffer and the screen and returns.
\<close>

theorem exception_reports:
  assumes "(n, e, ty) \<in> set exception_vectors" and "screen_ok k"
  shows "\<exists>h k'. map_of exception_handlers e = Some h \<and> h err rip k = Done k' \<and> screen_ok k'"
proof -
  have *: "\<exists>k'. h err rip k = Done k' \<and> screen_ok k'" if "(e, h) \<in> set exception_handlers" for h
    using handler_message [OF that, of err rip] exception_names_ok exception_message [OF assms(2), of _ err rip]
    by fastforce
  have "map_of exception_handlers e \<noteq> None"
    using assms(1) by (auto simp: exception_vectors_def exception_handlers_def)
  then show ?thesis using * map_of_SomeD by fastforce
qed

theorem exception_reports_witness:
  "\<exists>h k'. map_of exception_handlers Page_fault = Some h \<and> h 2 0xFFFF800000100000 blank_console = Done k' \<and> screen_ok k'"
  by (rule exception_reports [of 14 _ DESTYPE_INT]) (simp_all add: exception_vectors_def screen_ok_def blank_console_def)

end
