(* ===== verification/Percpu.thy ===== *)
theory Percpu
  imports Page_Alloc Kstring Processor
begin

text \<open>
  The per-processor data (\<^verbatim>\<open>percpu.c\<close>): the section \<^verbatim>\<open>.data.percpu\<close> of the kernel image is copied
  into pages of the page allocator, and \<^verbatim>\<open>per_cpu\<close> finds a variable in the copy of a processor.
\<close>

subsection \<open>Operations\<close>

record percpu_state = mm_state +
  memory :: bmem
  cpu_offset :: "u64 list"
  percpu_buf :: u64
  start_percpu :: u64
  end_percpu :: u64

definition percpu_size :: "percpu_state \<Rightarrow> u64" where
  "percpu_size s = end_percpu s - start_percpu s"

text \<open>The two messages; the second shows the first eight bytes of the section.\<close>

definition read64 :: "bmem \<Rightarrow> u64 \<Rightarrow> u64" where
  "read64 m p = word_rcat (rev (bytes_at m p 8))"

definition percpu_report :: "percpu_state \<Rightarrow> percpu_state" where
  "percpu_report s =
     say ''TEST PER-CPU SECTION: 5 == %d?\<newline>'' [ArgInt (read64 (memory s) (start_percpu s))]
       (say ''per-cpu section: %x ~ %x (%d-bytes)\<newline>''
          [ArgInt (start_percpu s), ArgInt (end_percpu s), ArgInt (end_percpu s - start_percpu s)] s)"

text \<open>The order of the block that is requested for the copies.\<close>

definition percpu_order :: "u64 \<Rightarrow> u64" where
  "percpu_order len = PAGE_ORDER ((len div PAGE_SIZE) * of_nat NR_CPUS)"

text \<open>The loop over the copies; there are five of them.\<close>

fun copy_sections :: "nat list \<Rightarrow> u64 \<Rightarrow> percpu_state \<Rightarrow> percpu_state outcome" where
  "copy_sections [] len s = Done s"
| "copy_sections (i # is) len s =
     (let m = fst (caos_memcpy (memory s) (percpu_buf s) (start_percpu s) len)
      in obind (aput (cpu_offset s) i (percpu_buf s - start_percpu s)) (\<lambda>offs.
         copy_sections is len (s\<lparr>memory := m, cpu_offset := offs, percpu_buf := percpu_buf s + len\<rparr>)))"

definition setup_per_cpu_areas :: "percpu_state \<Rightarrow> percpu_state outcome" where
  "setup_per_cpu_areas s =
     obind (alloc_pages 0 (percpu_order (percpu_size s)) (percpu_report s)) (\<lambda>(pg, s1).
     copy_sections [0..<5] (percpu_size s) (s1\<lparr>percpu_buf := page_to_virt s1 pg\<rparr>))"

text \<open>\<^verbatim>\<open>&per_cpu(var, cpu)\<close>, for a variable at an address of the section.\<close>

definition per_cpu :: "u64 \<Rightarrow> nat \<Rightarrow> percpu_state \<Rightarrow> u64 outcome" where
  "per_cpu var cpu s = obind (aget (cpu_offset s) cpu) (\<lambda>off. Done (var + off))"

subsection \<open>Lemmas\<close>

text \<open>The memory when the copies \<open>i\<close> to \<open>n - 1\<close> of the \<open>z\<close> bytes at \<open>S\<close> have been made at \<open>B\<close>.\<close>

definition replicated :: "bmem \<Rightarrow> u64 \<Rightarrow> u64 \<Rightarrow> nat \<Rightarrow> nat \<Rightarrow> nat \<Rightarrow> bmem" where
  "replicated m B S z i n =
     (\<lambda>a. if i * z \<le> unat (a - B) \<and> unat (a - B) < n * z then m (S + of_nat (unat (a - B) mod z)) else m a)"

lemma replicated_none: "replicated m B S z n n = m"
  by (rule ext) (auto simp: replicated_def)

lemma replicated_step:
  assumes dis: "region S z \<inter> region B (n * z) = {}" and i: "i < n" and z: "n * z \<le> 2 ^ 64"
  shows "replicated (copied m (B + of_nat (i * z)) S z) B S z (Suc i) n = replicated m B S z i n"
proof
  fix a
  define d where "d = unat (a - B)"
  have iz: "i * z + z \<le> n * z" using i by (metis Suc_leI mult_Suc mult_le_mono1 add.commute)
  have izz: "i * z + z \<le> 2 ^ 64" using iz z by (rule order_trans)
  have reg: "b \<in> region (B + of_nat (i * z)) z \<longleftrightarrow> i * z \<le> unat (b - B) \<and> unat (b - B) < i * z + z" for b
    by (rule region_shift [OF izz])
  have sec: "S + of_nat k \<notin> region (B + of_nat (i * z)) z" if "k < z" for k
  proof -
    have "unat (of_nat k :: u64) = k" using that izz by (intro unat_of_nat_u64) linarith
    then have "S + of_nat k \<in> region S z" using that by (simp add: region_def)
    then have "S + of_nat k \<notin> region B (n * z)" using dis by auto
    then show ?thesis using reg [of "S + of_nat k"] iz by (auto simp: region_def)
  qed
  consider "d < i * z" | "i * z \<le> d" "d < i * z + z" | "i * z + z \<le> d" "d < n * z" | "n * z \<le> d" by linarith
  then show "replicated (copied m (B + of_nat (i * z)) S z) B S z (Suc i) n a = replicated m B S z i n a"
  proof cases
    case 2
    have "a - (B + of_nat (i * z)) = of_nat d - of_nat (i * z)" by (simp add: d_def)
    also have "\<dots> = of_nat (d - i * z)" using 2(1) by (simp add: of_nat_diff)
    also have "d - i * z = d mod z"
      using 2 by (metis add_diff_inverse_nat mod_less mod_mult_self3 not_le diff_less_mono less_diff_conv2 add.commute)
    finally show ?thesis
      using 2 iz by (simp add: replicated_def copied_def reg d_def [symmetric] del: of_nat_mult)
  next
    case 3
    then have "0 < z" by (cases z) auto
    then have "S + of_nat (d mod z) \<notin> region (B + of_nat (i * z)) z" by (intro sec) simp
    then show ?thesis using 3 by (simp add: replicated_def copied_def d_def [symmetric] del: of_nat_mult)
  qed (use iz in \<open>auto simp: replicated_def copied_def reg d_def [symmetric] simp del: of_nat_mult\<close>)
qed

lemma copy_sections_spec:
  assumes "i \<le> n" "length (cpu_offset s) = n" "percpu_buf s = B + of_nat (i * z)" "start_percpu s = S"
    and "region S z \<inter> region B (n * z) = {}" "n * z \<le> 2 ^ 64" "z < 2 ^ 64"
  shows "\<exists>s'. copy_sections [i..<n] (of_nat z) s = Done s' \<and> memory s' = replicated (memory s) B S z i n \<and>
    length (cpu_offset s') = n \<and> start_percpu s' = S \<and>
    (\<forall>j<n. cpu_offset s' ! j = (if i \<le> j then B + of_nat (j * z) - S else cpu_offset s ! j))"
  using assms
proof (induction "n - i" arbitrary: i s)
  case 0
  then show ?case by (simp add: replicated_none)
next
  case (Suc k)
  then have i: "i < n" by simp
  let ?m = "copied (memory s) (B + of_nat (i * z)) S z"
  have "i * z + z \<le> n * z" using i by (metis Suc_leI mult_Suc mult_le_mono1 add.commute)
  then have "region (B + of_nat (i * z)) z \<subseteq> region B (n * z)"
    using region_sub [of "i * z" z B] region_mono [of "i * z + z" "n * z" B] Suc.prems(6) by (meson order_trans)
  then have "region (B + of_nat (i * z)) z \<inter> region S z = {}" using Suc.prems(5) by blast
  then have cp: "fst (caos_memcpy (memory s) (percpu_buf s) (start_percpu s) (of_nat z)) = ?m"
    using memcpy_copied [of "B + of_nat (i * z)" "of_nat z" S "memory s"] Suc.prems by simp
  define s1 where "s1 = s\<lparr>memory := ?m, cpu_offset := (cpu_offset s)[i := B + of_nat (i * z) - S],
    percpu_buf := B + of_nat (Suc i * z)\<rparr>"
  have nxt: "B + of_nat (i * z) + of_nat z = B + of_nat (Suc i * z)" by (simp add: algebra_simps)
  have "copy_sections [i..<n] (of_nat z) s = copy_sections [Suc i..<n] (of_nat z) s1"
    unfolding s1_def nxt [symmetric] using i Suc.prems(2-4) cp
    by (simp add: upt_conv_Cons outcome_simps del: of_nat_mult)
  moreover have s1: "length (cpu_offset s1) = n" "percpu_buf s1 = B + of_nat (Suc i * z)" "start_percpu s1 = S"
    using Suc.prems by (simp_all add: s1_def)
  have "k = n - Suc i" "Suc i \<le> n" using Suc.hyps(2) i by simp_all
  from Suc.hyps(1) [OF this s1 Suc.prems(5-7)]
  obtain s' where "copy_sections [Suc i..<n] (of_nat z) s1 = Done s'"
    "memory s' = replicated (memory s1) B S z (Suc i) n" "length (cpu_offset s') = n" "start_percpu s' = S"
    "\<forall>j<n. cpu_offset s' ! j = (if Suc i \<le> j then B + of_nat (j * z) - S else cpu_offset s1 ! j)"
    by blast
  moreover have "memory s1 = ?m" "cpu_offset s1 = (cpu_offset s)[i := B + of_nat (i * z) - S]" by (simp_all add: s1_def)
  ultimately show ?case
    using replicated_step [OF Suc.prems(5) i Suc.prems(6), of "memory s"] i Suc.prems(2)
    by (auto simp: nth_list_update Suc_le_eq le_less simp del: of_nat_mult)
qed

lemma per_cpu_copies_done:
  assumes inv: "mm_inv s" and grant: "alloc_pages 0 0 (percpu_report s) = Done (Some f, s1)"
    and z: "unat (percpu_size s) = z" "z \<le> 819" and offs: "length (cpu_offset s) = 5"
    and dis: "region (start_percpu s) z \<inter> region (va (0x1000 * of_nat f)) 4096 = {}"
  shows "\<exists>s'. setup_per_cpu_areas s = Done s' \<and>
    (\<forall>cpu<5. \<forall>k<z. \<exists>a. per_cpu (start_percpu s + of_nat k) cpu s' = Done a \<and>
       unat (a - va (0x1000 * of_nat f)) = cpu * z + k \<and> cpu * z + k < 4096 \<and>
       memory s' a = memory s (start_percpu s + of_nat k)) \<and>
    (\<forall>a. a \<notin> region (va (0x1000 * of_nat f)) 4096 \<longrightarrow> memory s' a = memory s a)"
proof -
  let ?B = "va (0x1000 * of_nat f)" and ?S = "start_percpu s"
  have inv': "mm_inv (percpu_report s)"
    using inv by (auto simp: mm_inv_def percpu_report_def say_def split: list.splits)
  note a = alloc_pages_Some [OF inv' grant]
  have "f < length (mem_map (percpu_report s))" using subsetD [OF a(3) block_start] by (simp add: free_set_def)
  then have f: "f < 2 ^ 32" using inv' by (auto elim: mm_invE)
  have "percpu_size s div PAGE_SIZE = 0"
    using z by (simp add: PAGE_SIZE_val word_eq_iff_unsigned unat_div unsigned_eq_0_iff [symmetric] div_eq_0_iff unat_eq_0 [symmetric])
  then have order: "percpu_order (percpu_size s) = 0" by (simp add: percpu_order_def PAGE_ORDER_def fls64_def)
  have s1: "memory s1 = memory s" "cpu_offset s1 = cpu_offset s" "start_percpu s1 = ?S"
    using a(2) by (simp_all add: alloc_at_def set_zone_def percpu_report_def say_def)
  have size: "percpu_size s = of_nat z" using z(1) by (metis of_nat_unat ucast_id)
  have run: "setup_per_cpu_areas s = copy_sections [0..<5] (of_nat z) (s1\<lparr>percpu_buf := ?B\<rparr>)"
    using grant f by (simp add: setup_per_cpu_areas_def order size [symmetric] page_to_virt_index)
  have "region ?B (5 * z) \<subseteq> region ?B 4096" using z(2) by (intro region_mono) simp
  then have "region ?S z \<inter> region ?B (5 * z) = {}" using dis by blast
  then obtain s' where s': "copy_sections [0..<5] (of_nat z) (s1\<lparr>percpu_buf := ?B\<rparr>) = Done s'"
    "memory s' = replicated (memory s) ?B ?S z 0 5" "length (cpu_offset s') = 5"
    "\<forall>j<5. cpu_offset s' ! j = ?B + of_nat (j * z) - ?S"
    using copy_sections_spec [of 0 5 "s1\<lparr>percpu_buf := ?B\<rparr>" ?B z ?S] s1 offs z(2) by auto
  have "\<exists>a. per_cpu (?S + of_nat k) cpu s' = Done a \<and> unat (a - ?B) = cpu * z + k \<and> cpu * z + k < 4096 \<and>
      memory s' a = memory s (?S + of_nat k)" if "cpu < 5" "k < z" for cpu k
  proof -
    have "cpu * z \<le> 4 * z" using that(1) by (intro mult_le_mono1) simp
    then have less: "cpu * z + k < 5 * z" using that(2) by linarith
    then have "cpu * z + k < 18446744073709551616" using z(2) by linarith
    then have "unat (of_nat (cpu * z + k) :: u64) = cpu * z + k" by (intro unat_of_nat_u64) simp
    moreover have "per_cpu (?S + of_nat k) cpu s' = Done (?B + of_nat (cpu * z + k))"
      using s'(3,4) that(1) by (simp add: per_cpu_def outcome_simps algebra_simps)
    moreover have "(cpu * z + k) mod z = k" using that(2) by simp
    ultimately show ?thesis
      using less z(2) s'(2) by (intro exI [of _ "?B + of_nat (cpu * z + k)"]) (simp add: replicated_def del: of_nat_add of_nat_mult)
  qed
  moreover have "memory s' b = memory s b" if "b \<notin> region ?B 4096" for b
    using that z(2) s'(2) by (auto simp: replicated_def region_def)
  ultimately show ?thesis using run s'(1) by auto
qed

text \<open>
  C14 (\<^verbatim>\<open>setup_per_cpu_areas\<close>). For a section of at most 819 bytes that does not lie in the granted
  page, \<^verbatim>\<open>per_cpu\<close> leads each of the five processors to a copy of its own: an address inside the
  granted page that holds the value the variable has in the section, with different addresses
  for different processors or variables. No byte outside of the page changes.
\<close>

theorem per_cpu_copies:
  assumes inv: "mm_inv s" and grant: "alloc_pages 0 0 (percpu_report s) = Done (Some f, s1)"
    and z: "unat (percpu_size s) = z" "z \<le> 819" and offs: "length (cpu_offset s) = 5"
    and dis: "region (start_percpu s) z \<inter> region (va (0x1000 * of_nat f)) 4096 = {}"
  shows "\<exists>s'. setup_per_cpu_areas s = Done s' \<and>
    (\<forall>cpu<5. \<forall>k<z. \<exists>a. per_cpu (start_percpu s + of_nat k) cpu s' = Done a \<and>
       unat (a - va (0x1000 * of_nat f)) = cpu * z + k \<and> cpu * z + k < 4096 \<and>
       memory s' a = memory s (start_percpu s + of_nat k)) \<and>
    (\<forall>a. a \<notin> region (va (0x1000 * of_nat f)) 4096 \<longrightarrow> memory s' a = memory s a)"
  using per_cpu_copies_done [OF assms] .

text \<open>
  Supplement (\<^verbatim>\<open>setup_per_cpu_areas\<close>, size of the buffer). The block that is requested holds the five copies
  exactly if the section has at most 819 bytes: the number of pages is rounded down and the
  request is for two processors, not for the five that are copied.
\<close>

theorem per_cpu_buffer_size:
  "5 * unat len \<le> 4096 * 2 ^ unat (percpu_order len) \<longleftrightarrow> unat len \<le> 819"
proof -
  define k where "k = unat len div 4096"
  have k: "4096 * k \<le> unat len" "unat len < 4096 * k + 4096" by (simp_all add: k_def)
  have "k * 2 < 18446744073709551616" using k(1) unat_u64_less [of len] by linarith
  then have x: "unat (len div PAGE_SIZE * of_nat NR_CPUS) = 2 * k"
    by (subst unat_mult_u64) (simp_all add: unat_div PAGE_SIZE_val NR_CPUS_def k_def)
  show ?thesis
  proof (cases "k = 0")
    case True
    then have "len div PAGE_SIZE * of_nat NR_CPUS = 0" using x by (simp add: unat_eq_0)
    then show ?thesis by (auto simp: percpu_order_def PAGE_ORDER_def fls64_def)
  next
    case False
    define q where "q = unat (percpu_order len)"
    have nz: "len div PAGE_SIZE * of_nat NR_CPUS \<noteq> 0" using False x by (auto simp: unat_eq_0 [symmetric])
    have "2 ^ (q - 1) \<le> 2 * k" using fls64_bounds(2) [OF nz] x by (simp add: q_def percpu_order_def PAGE_ORDER_def)
    moreover have "2 * k < 2 ^ q"
      using fls64_bounds(1) [of "len div PAGE_SIZE * of_nat NR_CPUS"] x by (simp add: q_def percpu_order_def PAGE_ORDER_def)
    moreover from this have "q \<noteq> 0" using False by (intro notI) simp
    then have "(2::nat) ^ q = 2 * 2 ^ (q - 1)" by (cases q) auto
    ultimately have "4096 * 2 ^ q < 5 * unat len" using k(1) False by linarith
    then show ?thesis using k(1) False by (simp add: q_def)
  qed
qed

text \<open>A machine with sixteen frames and a section of sixteen bytes above them.\<close>

definition demo_percpu :: percpu_state where
  "demo_percpu =
     mm_state.extend (small_mm [0, 5])
       (percpu_state.fields (\<lambda>a. ucast (a + 5)) [0, 0, 0, 0, 0] 0 (va 0x100000) (va 0x100010))"

lemma demo_percpu_sel:
  "mem_map demo_percpu = mem_map (small_mm [0, 5])" "zones demo_percpu = zones (small_mm [0, 5])"
  "cpu_offset demo_percpu = [0, 0, 0, 0, 0]" "start_percpu demo_percpu = va 0x100000"
  "end_percpu demo_percpu = va 0x100010" "memory demo_percpu = (\<lambda>a. ucast (a + 5))"
  by (simp_all add: demo_percpu_def mm_state.defs percpu_state.defs)

lemma demo_percpu_inv: "mm_inv demo_percpu" "mm_inv (percpu_report demo_percpu)"
  using small_mm_inv(1) by (auto simp: mm_inv_def percpu_report_def say_def demo_percpu_sel split: list.splits)

lemma demo_percpu_alloc: "\<exists>s1. alloc_pages 0 0 (percpu_report demo_percpu) = Done (Some 1, s1)"
proof -
  let ?m = "mem_map (small_mm [0, 5])"
  have run: "run_free ?m 1 (2 ^ unat (0::u64))" "\<not> run_free ?m 0 (2 ^ unat (0::u64))"
    and b: "(0::u64) \<le> MAX_PAGE_ORDER" "2 ^ unat (0::u64) < free_count ?m"
    by code_simp+
  have m: "mem_map (percpu_report demo_percpu) = ?m" by (simp add: percpu_report_def say_def demo_percpu_sel)
  obtain f where "f \<le> 1" "run_free ?m f (2 ^ unat (0::u64))"
    "alloc_pages 0 0 (percpu_report demo_percpu) = Done (Some f, alloc_at 0 0 f (percpu_report demo_percpu))"
    using alloc_pages_cases(2) [OF demo_percpu_inv(2) b(1), of 1 0, unfolded m] b(2) run(1) by blast
  moreover from this run(2) have "f = 1" by (cases f) auto
  ultimately show ?thesis by blast
qed

theorem per_cpu_copies_witness:
  "\<exists>s' a. setup_per_cpu_areas demo_percpu = Done s' \<and> per_cpu (va 0x100008) 4 s' = Done a \<and>
     unat (a - va 0x1000) = 72 \<and> memory s' a = memory demo_percpu (va 0x100008)"
proof -
  obtain s1 where grant: "alloc_pages 0 0 (percpu_report demo_percpu) = Done (Some 1, s1)"
    using demo_percpu_alloc by blast
  have z: "unat (percpu_size demo_percpu) = 16" by (simp add: percpu_size_def demo_percpu_sel va_def)
  have "a \<notin> region (va 0x1000) 4096" if "a \<in> region (va 0x100000) 16" for a
  proof -
    define d where "d = a - va 0x100000"
    have d: "unat d < 16" "a - va 0x1000 = d + 0xFF000" using that by (simp_all add: d_def region_def va_def)
    then have "unat (d + 0xFF000) = unat d + 0xFF000" by (subst unat_add_u64) simp_all
    then show ?thesis using d by (simp add: region_def)
  qed
  then have "region (start_percpu demo_percpu) 16 \<inter> region (va (0x1000 * of_nat 1)) 4096 = {}"
    by (auto simp: demo_percpu_sel)
  from per_cpu_copies [OF demo_percpu_inv(1) grant z _ _ this]
  obtain s' where s': "setup_per_cpu_areas demo_percpu = Done s'"
    "\<forall>cpu<5. \<forall>k<16. \<exists>a. per_cpu (va 0x100000 + of_nat k) cpu s' = Done a \<and>
       unat (a - va 0x1000) = cpu * 16 + k \<and> memory s' a = memory demo_percpu (va 0x100000 + of_nat k)"
    by (auto simp: demo_percpu_sel)
  have "va 0x100000 + of_nat 8 = va 0x100008" by (simp add: va_def)
  then show ?thesis using s'(1) s'(2) [rule_format, of 4 8] by auto
qed

end
