(* ===== verification/Boot.thy ===== *)
theory Boot
  imports Descriptors Mp_Spec Page_Alloc
begin

text \<open>
  The architecture set-up (\<^verbatim>\<open>setup.c\<close>, \<^verbatim>\<open>include/setup.h\<close>): the parameters of the boot loader, the
  identification of the processor, and the order in which the descriptor tables, the page
  tables, the MP tables and the page descriptors are built from boot memory.
\<close>

subsection \<open>State\<close>

definition PARAMS_OFFSET_START_CODE :: nat where [kconst]: "PARAMS_OFFSET_START_CODE = 0"
definition PARAMS_OFFSET_END_CODE :: nat where [kconst]: "PARAMS_OFFSET_END_CODE = 1"
definition PARAMS_OFFSET_START_DATA :: nat where [kconst]: "PARAMS_OFFSET_START_DATA = 2"
definition PARAMS_OFFSET_END_DATA :: nat where [kconst]: "PARAMS_OFFSET_END_DATA = 3"
definition PARAMS_OFFSET_START_BSS :: nat where [kconst]: "PARAMS_OFFSET_START_BSS = 4"
definition PARAMS_OFFSET_END_BSS :: nat where [kconst]: "PARAMS_OFFSET_END_BSS = 5"
definition PARAMS_OFFSET_END_KERNEL :: nat where [kconst]: "PARAMS_OFFSET_END_KERNEL = 6"
definition PARAMS_OFFSET_PHYMEM_SIZE :: nat where [kconst]: "PARAMS_OFFSET_PHYMEM_SIZE = 7"
definition PARAMS_OFFSET_BOOT_GDT :: nat where [kconst]: "PARAMS_OFFSET_BOOT_GDT = 8"
definition PARAMS_OFFSET_BOOT_SIZE :: nat where [kconst]: "PARAMS_OFFSET_BOOT_SIZE = 9"
definition PARAMS_OFFSET_START_VIDEO :: nat where [kconst]: "PARAMS_OFFSET_START_VIDEO = 10"
definition PARAMS_OFFSET_END_VIDEO :: nat where [kconst]: "PARAMS_OFFSET_END_VIDEO = 11"
definition PARAMS_OFFSET_START_PERCPU :: nat where [kconst]: "PARAMS_OFFSET_START_PERCPU = 12"
definition PARAMS_OFFSET_END_PERCPU :: nat where [kconst]: "PARAMS_OFFSET_END_PERCPU = 13"

definition X86_VENDOR_UNKNOWN :: u8 where [kconst]: "X86_VENDOR_UNKNOWN = 0xff"
definition X86_VENDOR_INTEL :: u8 where [kconst]: "X86_VENDOR_INTEL = 0"
definition X86_VENDOR_AMD :: u8 where [kconst]: "X86_VENDOR_AMD = 1"

record mm_struct =
  mm_start_code :: u64
  mm_end_code :: u64
  mm_start_data :: u64
  mm_end_data :: u64
  mm_start_bss :: u64
  mm_end_bss :: u64
  mm_start_brk :: u64
  mm_brk :: u64
  mm_start_stack :: u64
  mm_start_heap :: u64
  mm_end_heap :: u64
  mm_start_percpu :: u64
  mm_end_percpu :: u64
  mm_start_reserved :: u64
  mm_end_reserved :: u64

record cpuinfo_x86 =
  x86_vendor :: u8
  cpuid_level :: u32
  x86_vendor_id :: "u8 list"
  x86_cache_size :: u32
  x86_cache_alignment :: u32
  x86_tlbsize :: u32
  x86_virt_bits :: u8
  x86_phys_bits :: u8
  x86_max_cores :: u8
  x86_apicid :: u8
  booted_cores :: u8
  phys_proc_id :: u8
  cpu_core_id :: u8

text \<open>
  What the set-up finds: the parameters at \<^verbatim>\<open>BOOT_PARAMS\<close>, the words of the loader's descriptor
  table at an address, the BIOS memory, the \<^verbatim>\<open>cpuid\<close> instruction (its results in \<^verbatim>\<open>eax\<close>, \<^verbatim>\<open>ebx\<close>, \<^verbatim>\<open>ecx\<close>
  and \<^verbatim>\<open>edx\<close>), what the uncleared pages of boot memory hold where descriptors are built, and the
  addresses of the interrupt entry points.
\<close>

record firmware =
  boot_params :: "nat \<Rightarrow> u64"
  gdt_words :: "u64 \<Rightarrow> nat \<Rightarrow> u64"
  bios :: bmem
  cpuid :: "u32 \<Rightarrow> u32 \<times> u32 \<times> u32 \<times> u32"
  raw_gdt :: "gdt_desc list"
  raw_pages :: "nat \<Rightarrow> page"
  isr_addr :: "isr_entry \<Rightarrow> u64"

record boot_state =
  machine :: desc_state
  init_mm :: mm_struct
  phy_mem_size :: u64
  boot_gdt :: u64
  boot_cpu_data :: cpuinfo_x86
  smp_tables :: mp_state

text \<open>A step of the memory manager or of paging on the machine.\<close>

definition on_machine :: "(desc_state \<Rightarrow> desc_state outcome) \<Rightarrow> boot_state \<Rightarrow> boot_state outcome" where
  "on_machine f s = obind (f (machine s)) (\<lambda>d. Done (s\<lparr>machine := d\<rparr>))"

definition on_pt :: "(pt_state \<Rightarrow> pt_state outcome) \<Rightarrow> desc_state \<Rightarrow> desc_state outcome" where
  "on_pt f d = obind (f (pt_state.truncate d)) (\<lambda>p. Done (pt_state.extend p (pt_state.more d)))"

subsection \<open>The processor\<close>

text \<open>The four bytes of a register, lowest first, written at position \<open>i\<close> of the identifier.\<close>

definition put_reg :: "nat \<Rightarrow> u32 \<Rightarrow> u8 list \<Rightarrow> u8 list" where
  "put_reg i r buf =
     buf[i := ucast r, i + 1 := ucast (drop_bit 8 r), i + 2 := ucast (drop_bit 16 r), i + 3 := ucast (drop_bit 24 r)]"

definition vendor_of :: "u8 list \<Rightarrow> u8" where
  "vendor_of ident =
     (if ident ! 9 = 0x41 \<and> ident ! 10 = 0x4d \<and> ident ! 11 = 0x44 then X86_VENDOR_AMD
      else if ident ! 7 = 0x49 \<and> ident ! 8 = 0x6e \<and> ident ! 9 = 0x74 \<and> ident ! 10 = 0x65 \<and> ident ! 11 = 0x6c
      then X86_VENDOR_INTEL else X86_VENDOR_UNKNOWN)"

definition early_identify_cpu :: "firmware \<Rightarrow> boot_state \<Rightarrow> boot_state" where
  "early_identify_cpu fw s =
     (case cpuid fw 0 of (a, b, c, d) \<Rightarrow>
       let cpu0 = (boot_cpu_data s)\<lparr>x86_cache_size := - 1, x86_vendor := X86_VENDOR_UNKNOWN,
                    x86_vendor_id := (x86_vendor_id (boot_cpu_data s))[0 := 0],
                    x86_cache_alignment := 64, x86_max_cores := 4\<rparr>;
           ident = put_reg 4 d (put_reg 8 c (put_reg 0 b (x86_vendor_id cpu0)));
           cpu1 = cpu0\<lparr>cpuid_level := a, x86_vendor_id := ident, x86_vendor := vendor_of ident\<rparr>
       in s\<lparr>boot_cpu_data := cpu1,
            machine := say ''CPU VENDOR=%s\<newline>'' [ArgStr (map (\<lambda>c. char_of (unat c)) (c_string ident))] (machine s)\<rparr>)"

subsection \<open>The set-up\<close>

text \<open>
  There is one console: the messages of the MP parser are appended to those of the steps before
  it, and those of the steps behind it follow.
\<close>

definition read_params :: "(nat \<Rightarrow> u64) \<Rightarrow> boot_state \<Rightarrow> boot_state" where
  "read_params p s =
     s\<lparr>phy_mem_size := p PARAMS_OFFSET_PHYMEM_SIZE, boot_gdt := p PARAMS_OFFSET_BOOT_GDT,
       init_mm := (init_mm s)
         \<lparr>mm_start_code := p PARAMS_OFFSET_START_CODE, mm_end_code := p PARAMS_OFFSET_END_CODE,
          mm_start_data := p PARAMS_OFFSET_START_DATA, mm_end_data := p PARAMS_OFFSET_END_DATA,
          mm_start_bss := p PARAMS_OFFSET_START_BSS, mm_end_bss := p PARAMS_OFFSET_END_BSS,
          mm_start_brk := p PARAMS_OFFSET_END_KERNEL, mm_start_stack := KERNEL_STACK_START,
          mm_start_heap := KERNEL_STACK_START,
          mm_end_heap := phys_to_virt (p PARAMS_OFFSET_BOOT_SIZE * 0x100000),
          mm_start_percpu := p PARAMS_OFFSET_START_PERCPU, mm_end_percpu := p PARAMS_OFFSET_END_PERCPU,
          mm_start_reserved := p PARAMS_OFFSET_START_VIDEO, mm_end_reserved := p PARAMS_OFFSET_END_VIDEO\<rparr>\<rparr>"

definition setup_arch :: "firmware \<Rightarrow> boot_state \<Rightarrow> boot_state outcome" where
  "setup_arch fw s =
     (let s1 = early_identify_cpu fw (read_params (boot_params fw) s);
          s2 = s1\<lparr>machine := bootmem_init (mm_start_heap (init_mm s1)) (mm_end_heap (init_mm s1)) (machine s1)\<rparr>
      in obind (on_machine (gdt_init (gdt_words fw (boot_gdt s2)) (raw_gdt fw)) s2) (\<lambda>s3.
         obind (on_machine (idt_init (isr_addr fw)) s3) (\<lambda>s4.
         obind (on_machine (on_pt (paging_init (phy_mem_size s4))) s4) (\<lambda>s5.
         obind (mp_spec_init (bios fw) ((smp_tables s5)\<lparr>mp_log := klog (machine s5)\<rparr>)) (\<lambda>mp.
         on_machine (mem_map_init (raw_pages fw) (phy_mem_size s5))
           (s5\<lparr>smp_tables := mp, machine := (machine s5)\<lparr>klog := mp_log mp\<rparr>\<rparr>))))))"

subsection \<open>Lemmas\<close>

definition mem_map_pages :: "nat \<Rightarrow> nat" where
  "mem_map_pages M = (18432 * M + 4106) div 4096"

lemma mem_map_init_done:
  assumes M: "2 \<le> unat M" "unat M \<le> 4096" and i: "bootmem_page_index s = of_nat i"
    and room: "i + mem_map_pages (unat M) < unat (bootmem_page_max s)" "unat (bootmem_page_max s) \<le> 256 * unat M"
  shows "\<exists>m h k. mem_map_init raw M s =
    Done (s\<lparr>bootmem_page_index := of_nat (i + mem_map_pages (unat M)), klog := k,
            mem_map_base := lin (4096 * i), mem_map := m, lists := h\<rparr>)"
proof -
  define pc where "pc = (ucast ((M * 0x100000) div PAGE_SIZE) :: u32)"
  define pg where "pg = (ucast (PAGE_ALIGN (scast (ucast ((ucast pc :: u64) * sizeof_page + 11) :: u32)) div PAGE_SIZE) :: u32)"
  note sizes = mem_map_sizes [OF M(2), folded pc_def, folded pg_def]
  have pg: "scast pg = (of_nat (mem_map_pages (unat M)) :: u64)"
    using sizes(2) by (metis mem_map_pages_def of_nat_unat ucast_id)
  have "alloc_bootmem (scast pg) s = Done (lin (4096 * i), s\<lparr>bootmem_page_index := of_nat (i + mem_map_pages (unat M))\<rparr>)"
    unfolding pg using alloc_bootmem_lin [OF i room(1)] .
  then obtain k where run: "mem_map_init raw M s = build_mem_map raw (256 * unat M) (lin (4096 * i))
      (s\<lparr>bootmem_page_index := of_nat (i + mem_map_pages (unat M)), klog := k\<rparr>)"
    using sizes(1) by (simp add: mem_map_init_def pc_def [symmetric] pg_def [symmetric] say_def Let_def del: of_nat_add)
  define t where "t = s\<lparr>bootmem_page_index := of_nat (i + mem_map_pages (unat M)), klog := k\<rparr>"
  define m0 where "m0 = map (\<lambda>l. init_page (raw l) l) [0..<256 * unat M]"
  have len: "length m0 = 256 * unat M" by (simp add: m0_def)
  have "i + mem_map_pages (unat M) < 18446744073709551616"
    using room(1) unat_u64_less [of "bootmem_page_max s"] by linarith
  then have "unat (bootmem_page_index t) = i + mem_map_pages (unat M)"
    unfolding t_def by (simp del: of_nat_add)
  then have idx: "unat (bootmem_page_index t) < 256 * unat M" using room by linarith
  have "\<forall>l \<in> set [0]. l < length m0" using len M by simp
  then obtain m1 where m1: "mark_busy [0] m0 = Done m1" "length m1 = length m0" using mark_busy_ok by blast
  have "\<forall>l \<in> set bios_and_kernel. l < length m1" using m1(2) len M by (simp add: set_bios_and_kernel Ball_def)
  then obtain m2 where m2: "mark_busy bios_and_kernel m1 = Done m2" "length m2 = length m1" using mark_busy_ok by blast
  have "\<forall>l \<in> set [unat (bootmem_page_start t)..<unat (bootmem_page_index t)]. l < length m2"
    using m1(2) m2(2) len idx by auto
  then obtain m3 where "mark_busy [unat (bootmem_page_start t)..<unat (bootmem_page_index t)] m2 = Done m3"
    using mark_busy_ok by blast
  then show ?thesis
    using run m1(1) m2(1)
    by (auto simp: build_mem_map_def m0_def [symmetric] t_def Let_def simp del: mark_busy.simps of_nat_add
        intro!: exI)
qed

lemma truncate_sel [simp]:
  "bootmem_page_index (pt_state.truncate d) = bootmem_page_index d"
  "bootmem_page_max (pt_state.truncate d) = bootmem_page_max d"
  "bootmem_page_start (pt_state.truncate d) = bootmem_page_start d"
  "contig_page_data (pt_state.truncate d) = contig_page_data d"
  by (simp_all add: pt_state.defs)

lemma extend_sel [simp]:
  "bootmem_page_index (pt_state.extend p (pt_state.more d)) = bootmem_page_index p"
  "bootmem_page_max (pt_state.extend p (pt_state.more d)) = bootmem_page_max p"
  "bootmem_page_start (pt_state.extend p (pt_state.more d)) = bootmem_page_start p"
  "contig_page_data (pt_state.extend p (pt_state.more d)) = contig_page_data p"
  "swapper_pg_dir (pt_state.extend p (pt_state.more d)) = swapper_pg_dir p"
  "gdtr (pt_state.extend p (pt_state.more d)) = gdtr d" "idtr (pt_state.extend p (pt_state.more d)) = idtr d"
  "tss (pt_state.extend p (pt_state.more d)) = tss d" "idt_table (pt_state.extend p (pt_state.more d)) = idt_table d"
  by (cases d, simp add: pt_state.defs)+

lemma bootmem_range:
  assumes "0 < B" "B \<le> 2 ^ 19"
  shows "drop_bit PAGE_SHIFT (pa KERNEL_STACK_START) = 0x200"
    and "unat (drop_bit PAGE_SHIFT (pa (phys_to_virt (of_nat B * 0x100000))) - 1) = 256 * B - 1"
proof -
  have "unat (of_nat B * 0x100000 :: u64) = B * 0x100000"
    using assms(2) by (subst unat_mult_u64) simp_all
  then have "unat (drop_bit 12 (of_nat B * 0x100000) :: u64) = 256 * B"
    by (simp add: unat_drop_bit_eq drop_bit_eq_div [of 12 "B * 0x100000"])
  then show "unat (drop_bit PAGE_SHIFT (pa (phys_to_virt (of_nat B * 0x100000))) - 1) = 256 * B - 1"
    using assms(1) by (subst unat_sub_u64) (simp_all add: phys_to_virt_def PAGE_SHIFT_def word_le_nat_alt)
qed (simp add: kconst pa_def)

text \<open>The parser accepts the MP tables, whatever has been printed before.\<close>

definition tables_accepted :: "firmware \<Rightarrow> boot_state \<Rightarrow> bool" where
  "tables_accepted fw s \<longleftrightarrow> (\<forall>log. \<exists>mp'. mp_spec_init (bios fw) ((smp_tables s)\<lparr>mp_log := log\<rparr>) = Done mp')"

text \<open>What the set-up leaves for \<open>M\<close> megabytes of memory.\<close>

definition booted :: "firmware \<Rightarrow> nat \<Rightarrow> boot_state \<Rightarrow> boot_state \<Rightarrow> bool" where
  "booted fw M s s' \<longleftrightarrow>
     (\<exists>log. mp_spec_init (bios fw) ((smp_tables s)\<lparr>mp_log := log\<rparr>) = Done (smp_tables s')) \<and>
     phy_mem_size s' = of_nat M \<and> mm_start_percpu (init_mm s') = boot_params fw PARAMS_OFFSET_START_PERCPU \<and>
     mm_end_percpu (init_mm s') = boot_params fw PARAMS_OFFSET_END_PERCPU \<and>
     address (gdtr (machine s')) = lin (4096 * 0x200) \<and> tss (machine s') = lin (4096 * 0x201) \<and>
     address (idtr (machine s')) = lin (4096 * 0x202) \<and> swapper_pg_dir (machine s') = lin (4096 * 0x203) \<and>
     idt_table (machine s') = initial_idt (isr_addr fw) \<and>
     mem_map_base (machine s') = lin (4096 * (0x211 + M div 2)) \<and> bootmem_page_start (machine s') = 0x200 \<and>
     bootmem_page_index (machine s') = of_nat (0x211 + M div 2 + mem_map_pages M) \<and>
     (\<exists>t. mem_map_init (raw_pages fw) (of_nat M) t = Done (machine s') \<and> contig_page_data t = contig_page_data (machine s)) \<and>
     tables_laid (tables (machine s')) 0x203 (M div 2)"

lemma boot_layout_done:
  assumes params: "boot_params fw PARAMS_OFFSET_PHYMEM_SIZE = of_nat M" "boot_params fw PARAMS_OFFSET_BOOT_SIZE = of_nat B"
    and M: "even M" "2 \<le> M" "M \<le> 1024" and B: "B \<le> M"
    and room: "0x211 + M div 2 + mem_map_pages M < 256 * B - 1"
    and gdt: "1 \<le> n" "n \<le> 5" "\<forall>j. 1 \<le> j \<and> j < n \<longrightarrow> gdt_words fw (boot_params fw PARAMS_OFFSET_BOOT_GDT) j \<noteq> 0"
      "gdt_words fw (boot_params fw PARAMS_OFFSET_BOOT_GDT) n = 0" "length (raw_gdt fw) = 512"
    and mp: "tables_accepted fw s"
  shows "\<exists>s'. setup_arch fw s = Done s' \<and> booted fw M s s'"
proof -
  have u: "unat (of_nat M :: u64) = M" using M(3) by simp
  have B0: "0 < B" "B \<le> 2 ^ 19" using room B M(3) by (cases B; simp)+
  note range = bootmem_range [OF B0]
  define s2 where "s2 = (let s1 = early_identify_cpu fw (read_params (boot_params fw) s)
    in s1\<lparr>machine := bootmem_init (mm_start_heap (init_mm s1)) (mm_end_heap (init_mm s1)) (machine s1)\<rparr>)"
  have s2: "bootmem_page_start (machine s2) = 0x200" "bootmem_page_index (machine s2) = 0x200"
    "unat (bootmem_page_max (machine s2)) = 256 * B - 1" "contig_page_data (machine s2) = contig_page_data (machine s)"
    "phy_mem_size s2 = of_nat M" "boot_gdt s2 = boot_params fw PARAMS_OFFSET_BOOT_GDT" "smp_tables s2 = smp_tables s"
    "mm_start_percpu (init_mm s2) = boot_params fw PARAMS_OFFSET_START_PERCPU"
    "mm_end_percpu (init_mm s2) = boot_params fw PARAMS_OFFSET_END_PERCPU"
    using range params
    by (simp_all add: s2_def early_identify_cpu_def read_params_def bootmem_init_def say_def Let_def split_beta)
  have max27: "256 * B - 1 \<le> 2 ^ 27" using B M(3) by simp
  obtain d3 where d3: "gdt_init (gdt_words fw (boot_gdt s2)) (raw_gdt fw) (machine s2) = Done d3"
    "address (gdtr d3) = lin (4096 * 0x200)" "tss d3 = lin (4096 * 0x201)" "bootmem_page_index d3 = of_nat 0x202"
    "bootmem_page_max d3 = bootmem_page_max (machine s2)" "bootmem_page_start d3 = 0x200"
    "contig_page_data d3 = contig_page_data (machine s)"
    using gdt_init_done [of n "gdt_words fw (boot_gdt s2)" "raw_gdt fw" "machine s2"] gdt s2 room max27 by auto
  obtain d4 where d4: "idt_init (isr_addr fw) d3 = Done d4" "address (idtr d4) = lin (4096 * 0x202)"
    "bootmem_page_index d4 = of_nat 0x203" "bootmem_page_max d4 = bootmem_page_max (machine s2)"
    "bootmem_page_start d4 = 0x200" "contig_page_data d4 = contig_page_data (machine s)" "gdtr d4 = gdtr d3" "tss d4 = tss d3"
    "idt_table d4 = initial_idt (isr_addr fw)"
    using idt_init_done [of d3 "isr_addr fw"] d3 s2 room by auto
  have c: "1 \<le> M div 2" "M div 2 \<le> 512" "2 * (M div 2) = M" using M by auto
  obtain p where p: "paging_init (of_nat M) (pt_state.truncate d4) = Done p" "swapper_pg_dir p = lin (4096 * 0x203)"
    "bootmem_page_index p = of_nat (0x203 + 14 + M div 2)" "bootmem_page_start p = 0x200"
    "bootmem_page_max p = bootmem_page_max (machine s2)" "contig_page_data p = contig_page_data (machine s)"
    using paging_init_done [of "pt_state.truncate d4" "0x203" "M div 2"] d4 s2 room c by auto
  have i4: "bootmem_page_index (pt_state.truncate d4) = of_nat 0x203"
    "0x203 + 14 + M div 2 < unat (bootmem_page_max (pt_state.truncate d4))"
    using d4(3,4) s2(3) room by (simp_all add: pt_state.defs)
  have laid: "tables_laid (tables p) 0x203 (M div 2)"
    using paging_init_laid [OF i4 c(1,2)] p(1) c(3) by simp
  have ext: "tables (pt_state.extend p x) = tables p" for x by (simp add: pt_state.defs)
  define d5 where "d5 = pt_state.extend p (pt_state.more d4)"
  obtain mp' where mp': "mp_spec_init (bios fw) ((smp_tables s)\<lparr>mp_log := klog d5\<rparr>) = Done mp'"
    using mp unfolding tables_accepted_def by blast
  define d6 where "d6 = d5\<lparr>klog := mp_log mp'\<rparr>"
  have i5: "bootmem_page_index d6 = of_nat (0x211 + M div 2)" using p(3) by (simp add: d6_def d5_def)
  have "0x211 + M div 2 + mem_map_pages (unat (of_nat M :: u64)) < unat (bootmem_page_max d6)"
    "unat (bootmem_page_max d6) \<le> 256 * unat (of_nat M :: u64)"
    using room p(5) s2(3) B u by (simp_all add: d6_def d5_def)
  then obtain m h k where m: "mem_map_init (raw_pages fw) (of_nat M) d6 =
      Done (d6\<lparr>bootmem_page_index := of_nat (0x211 + M div 2 + mem_map_pages M), klog := k,
        mem_map_base := lin (4096 * (0x211 + M div 2)), mem_map := m, lists := h\<rparr>)"
    using mem_map_init_done [of "of_nat M" d6 "0x211 + M div 2" "raw_pages fw"] M u i5 by auto
  let ?s' = "s2\<lparr>machine := d6\<lparr>bootmem_page_index := of_nat (0x211 + M div 2 + mem_map_pages M), klog := k,
      mem_map_base := lin (4096 * (0x211 + M div 2)), mem_map := m, lists := h\<rparr>, smp_tables := mp'\<rparr>"
  have "setup_arch fw s = Done ?s'"
    unfolding setup_arch_def Let_def
    using d3(1) d4(1) p(1) m mp' s2(5,7)
    by (simp add: s2_def [unfolded Let_def, symmetric] on_machine_def on_pt_def d5_def [symmetric] d6_def [symmetric] del: obind_eq_Done_iff of_nat_add)
  then show ?thesis
    using d3 d4 p m s2 mp' laid unfolding booted_def
    by (intro exI [of _ ?s'] conjI exI [of _ "klog d5"] exI [of _ d6]) (simp_all add: d6_def d5_def ext del: of_nat_add)
qed

subsection \<open>Properties\<close>

text \<open>
  What the boot loader has to provide: an even number \<open>M\<close> of megabytes up to 1024 and \<open>B\<close>
  megabytes of them for booting, enough for what the set-up builds, and at most four descriptors
  in its table.
\<close>

definition firmware_ok :: "firmware \<Rightarrow> nat \<Rightarrow> nat \<Rightarrow> bool" where
  "firmware_ok fw M B \<longleftrightarrow>
     boot_params fw PARAMS_OFFSET_PHYMEM_SIZE = of_nat M \<and> boot_params fw PARAMS_OFFSET_BOOT_SIZE = of_nat B \<and>
     even M \<and> 2 \<le> M \<and> M \<le> 1024 \<and> B \<le> M \<and> 0x211 + M div 2 + mem_map_pages M < 256 * B - 1 \<and>
     (\<exists>n. 1 \<le> n \<and> n \<le> 5 \<and> (\<forall>j. 1 \<le> j \<and> j < n \<longrightarrow> gdt_words fw (boot_params fw PARAMS_OFFSET_BOOT_GDT) j \<noteq> 0) \<and>
        gdt_words fw (boot_params fw PARAMS_OFFSET_BOOT_GDT) n = 0) \<and> length (raw_gdt fw) = 512"

lemma firmware_okD:
  assumes "firmware_ok fw M B" "tables_accepted fw s"
  shows "\<exists>s'. setup_arch fw s = Done s' \<and> booted fw M s s'"
  using assms boot_layout_done [of fw M B _ s] unfolding firmware_ok_def by blast

text \<open>
  C11 (\<^verbatim>\<open>setup_arch\<close>, the layout of boot memory). For an even number \<open>M\<close> of megabytes from 2 to 1024,
  if the boot area is large enough for what the set-up builds (with the 8 megabytes that
  \<^verbatim>\<open>setup.asm\<close> passes, that is so up to 302 megabytes) and the MP tables are accepted, the set-up
  returns, and the structures lie where the comment in \<^verbatim>\<open>setup.c\<close> says: from frame 0x200 on the
  descriptor table, the task segment, the interrupt table, the top-level page table, the tables of
  the second and the third level, the page tables of main memory, one for two megabytes, the
  table of the third level and the ten page tables of the reserved window, and the page
  descriptors up to the last frame of boot memory in use. The tables below the top-level one are
  located by the entries that lead to them. For 128 megabytes the page descriptors are in the
  frames 0x251 to 0x491; for 512 megabytes they start at frame 0x311.
\<close>

theorem boot_layout:
  assumes "firmware_ok fw M B" "tables_accepted fw s"
  shows "\<exists>s'. setup_arch fw s = Done s' \<and>
    (\<exists>log. mp_spec_init (bios fw) ((smp_tables s)\<lparr>mp_log := log\<rparr>) = Done (smp_tables s')) \<and>
    address (gdtr (machine s')) = lin 0x200000 \<and> tss (machine s') = lin 0x201000 \<and>
    address (idtr (machine s')) = lin 0x202000 \<and> swapper_pg_dir (machine s') = lin 0x203000 \<and>
    tables (machine s') (lin (0x203000 + 8 * 0x100)) = 0x204003 \<and>
    tables (machine s') (lin 0x204000) = 0x205003 \<and>
    (\<forall>k < M div 2. tables (machine s') (lin (0x205000 + 8 * k)) = of_nat (0x206003 + 4096 * k)) \<and>
    tables (machine s') (lin (0x204000 + 8 * 3)) = of_nat (0x206011 + 4096 * (M div 2)) \<and>
    (\<forall>k<10. tables (machine s') (lin (0x206000 + 4096 * (M div 2) + 8 * k)) = of_nat (0x207011 + 4096 * (M div 2 + k))) \<and>
    mem_map_base (machine s') = lin (4096 * (0x211 + M div 2)) \<and>
    bootmem_page_index (machine s') = of_nat (0x211 + M div 2 + (18432 * M + 4106) div 4096) \<and>
    (M = 128 \<longrightarrow> mem_map_base (machine s') = lin 0x251000 \<and> bootmem_page_index (machine s') = 0x492) \<and>
    (M = 512 \<longrightarrow> mem_map_base (machine s') = lin 0x311000)"
proof -
  obtain s' where s': "setup_arch fw s = Done s'" "booted fw M s s'" using firmware_okD [OF assms] by blast
  then have l: "tables_laid (tables (machine s')) 0x203 (M div 2)" by (simp add: booted_def)
  have "tables (machine s') (lin (0x203000 + 8 * 0x100)) = 0x204003" "tables (machine s') (lin 0x204000) = 0x205003"
    "tables (machine s') (lin (0x204000 + 8 * 3)) = of_nat (0x206011 + 4096 * (M div 2))"
    "\<forall>k < M div 2. tables (machine s') (lin (0x205000 + 8 * k)) = of_nat (0x206003 + 4096 * k)"
    "\<forall>k<10. tables (machine s') (lin (0x206000 + 4096 * (M div 2) + 8 * k)) = of_nat (0x207011 + 4096 * (M div 2 + k))"
    using l by (simp_all add: tables_laid_def entry_def algebra_simps)
  with s' show ?thesis by (intro exI [of _ s']) (auto simp: booted_def mem_map_pages_def)
qed

lemma boot_done:
  assumes fw: "firmware_ok fw M B" "tables_accepted fw s"
    and zones: "node_zones (contig_page_data (machine s)) = [z0]" "free_pages_z z0 = 0"
  shows "\<exists>s'. setup_arch fw s = Done s' \<and> booted fw M s s' \<and>
    unat (bootmem_page_index (machine s')) = 0x211 + M div 2 + mem_map_pages M \<and>
    (\<forall>l. \<exists>m. memory_init (phy_mem_size s') ((machine s')\<lparr>klog := l\<rparr>) = Done m \<and> mm_inv m \<and> length (mem_map m) = 256 * M \<and>
       free_set (mem_map m) = {1..<0x9f} \<union> {0x211 + M div 2 + mem_map_pages M..<256 * M} \<and>
       (\<forall>i<256 * M. pg_virtual (mem_map m ! i) = va (0x1000 * of_nat i)))"
proof -
  obtain s' t where s': "setup_arch fw s = Done s'" "phy_mem_size s' = of_nat M" "bootmem_page_start (machine s') = 0x200"
    "bootmem_page_index (machine s') = of_nat (0x211 + M div 2 + mem_map_pages M)"
    "mem_map_init (raw_pages fw) (of_nat M) t = Done (machine s')" "contig_page_data t = contig_page_data (machine s)" "booted fw M s s'"
    using firmware_okD [OF fw] by (auto simp: booted_def)
  have M: "2 \<le> M" "M \<le> 1024" "0x211 + M div 2 + mem_map_pages M < 256 * B - 1" "B \<le> M"
    using fw(1) by (auto simp: firmware_ok_def)
  have u: "unat (of_nat M :: u64) = M" using M(2) by simp
  define e where "e = 0x211 + M div 2 + mem_map_pages M"
  have e: "e < 256 * M" "0x200 \<le> e" using M by (simp_all add: e_def)
  then have ue: "unat (bootmem_page_index (machine s')) = e"
    using M(2) s'(4) by (simp add: e_def [symmetric] del: of_nat_add)
  have busy: "boot_busy (machine s') i \<longleftrightarrow> i = 0 \<or> 0x9f \<le> i \<and> i < e" for i
    using e(2) s'(3) by (auto simp: boot_busy_def ue)
  have "\<exists>m. memory_init (phy_mem_size s') ((machine s')\<lparr>klog := l\<rparr>) = Done m \<and> mm_inv m \<and> length (mem_map m) = 256 * M \<and>
      free_set (mem_map m) = {1..<0x9f} \<union> {e..<256 * M} \<and> (\<forall>i<256 * M. pg_virtual (mem_map m ! i) = va (0x1000 * of_nat i))" for l
  proof -
    obtain m where m: "memory_init (of_nat M) ((machine s')\<lparr>klog := l\<rparr>) = Done m" "mm_inv m" "length (mem_map m) = 256 * M"
      "\<forall>i<256 * M. pg_count (mem_map m ! i) = (if boot_busy (machine s') i then 1 else 0) \<and>
         pg_virtual (mem_map m ! i) = va (0x1000 * of_nat i)"
      using boot_memory_ok [of "of_nat M" "raw_pages fw" t "machine s'" z0 l] M u s'(5,6) zones by auto
    have count: "pg_count (mem_map m ! i) = 0 \<longleftrightarrow> \<not> (i = 0 \<or> 0x9f \<le> i \<and> i < e)" if "i < 256 * M" for i
      using m(4) that by (simp add: busy)
    have "i < 256 * M" if "i < 0x9f" for i using that e by linarith
    then have "free_set (mem_map m) = {1..<0x9f} \<union> {e..<256 * M}"
      using m(3) count e by (fastforce simp: free_set_def)
    then show ?thesis using m s'(2) by auto
  qed
  then show ?thesis
    using s'(1,7) ue unfolding e_def by (intro exI [of _ s'] conjI) simp_all
qed

text \<open>
  C10 (\<^verbatim>\<open>setup_arch\<close> and \<^verbatim>\<open>memory_init\<close>, reserved memory). After the set-up the page allocator works
  and has exactly the frames below the BIOS area, but for the first one, and those behind the
  boot memory to give: no block it grants touches the kernel image, the descriptor tables, the
  page tables in use or the page descriptors. The frame with the start-up code of the other
  processors is among the free ones.
\<close>

theorem boot_reserved:
  assumes fw: "firmware_ok fw M B" "tables_accepted fw s"
    and zones: "node_zones (contig_page_data (machine s)) = [z0]" "free_pages_z z0 = 0"
  shows "\<exists>s' m. setup_arch fw s = Done s' \<and> memory_init (phy_mem_size s') (machine s') = Done m \<and> mm_inv m \<and>
    free_set (mem_map m) = {1..<0x9f} \<union> {unat (bootmem_page_index (machine s'))..<256 * M} \<and>
    unat (bootmem_page_index (machine s')) = 0x211 + M div 2 + mem_map_pages M \<and>
    (\<forall>gm order f m'. alloc_pages gm order m = Done (Some f, m') \<longrightarrow>
       block f order \<subseteq> {1..<0x9f} \<union> {0x211 + M div 2 + mem_map_pages M..<256 * M})"
proof -
  obtain s' where s': "setup_arch fw s = Done s'" "unat (bootmem_page_index (machine s')) = 0x211 + M div 2 + mem_map_pages M"
    "\<forall>l. \<exists>m. memory_init (phy_mem_size s') ((machine s')\<lparr>klog := l\<rparr>) = Done m \<and> mm_inv m \<and>
       free_set (mem_map m) = {1..<0x9f} \<union> {0x211 + M div 2 + mem_map_pages M..<256 * M}"
    using boot_done [OF assms] by blast
  obtain m where m: "memory_init (phy_mem_size s') (machine s') = Done m" "mm_inv m"
    "free_set (mem_map m) = {1..<0x9f} \<union> {0x211 + M div 2 + mem_map_pages M..<256 * M}"
    using spec [OF s'(3), of "klog (machine s')"] by auto
  have "block f order \<subseteq> {1..<0x9f} \<union> {0x211 + M div 2 + mem_map_pages M..<256 * M}"
    if "alloc_pages gm order m = Done (Some f, m')" for gm order f m'
    using alloc_pages_Some(3) [OF m(2) that] by (simp only: m(3))
  then show ?thesis
    using m s'(1,2) by (intro exI [of _ s'] exI [of _ m] conjI allI impI) simp_all
qed

definition demo_fw :: firmware where
  "demo_fw =
     \<lparr>boot_params = (\<lambda>_. 0)(PARAMS_OFFSET_PHYMEM_SIZE := 128, PARAMS_OFFSET_BOOT_SIZE := 8),
      gdt_words = (\<lambda>_. (\<lambda>_. 0)(1 := 0xCF9A000000FFFF, 2 := 0xCF92000000FFFF)),
      bios = demo_bios (demo_header 64 @ encode (Processor demo_cpu)),
      cpuid = (\<lambda>_. (10, 0x756e6547, 0x6c65746e, 0x49656e69)),
      raw_gdt = replicate 512 \<lparr>gd_l = 7, gd_h = 9\<rparr>,
      raw_pages = (\<lambda>_. \<lparr>pg_private = 5, pg_index = 5, pg_count = 5, pg_flags = 5, pg_virtual = 5,
        pg_zone = None, pg_slab = 5\<rparr>),
      isr_addr = demo_isr\<rparr>"

definition demo_boot :: boot_state where
  "demo_boot =
     \<lparr>machine = boot_desc\<lparr>contig_page_data := (contig_page_data boot_desc)\<lparr>node_zones :=
        [\<lparr>free_pages_z = 0, zone_pgdat = None, zone_start_paddr = 0, zone_name = [], zone_size = 0,
          zone_pages = 0, zone_mem_map = 0, zone_start_pfn = 0\<rparr>]\<rparr>\<rparr>,
      init_mm = \<lparr>mm_start_code = 0, mm_end_code = 0, mm_start_data = 0, mm_end_data = 0, mm_start_bss = 0,
        mm_end_bss = 0, mm_start_brk = 0, mm_brk = 0, mm_start_stack = 0, mm_start_heap = 0, mm_end_heap = 0,
        mm_start_percpu = 0, mm_end_percpu = 0, mm_start_reserved = 0, mm_end_reserved = 0\<rparr>,
      phy_mem_size = 0, boot_gdt = 0,
      boot_cpu_data = \<lparr>x86_vendor = 0, cpuid_level = 0, x86_vendor_id = replicate 16 0, x86_cache_size = 0,
        x86_cache_alignment = 0, x86_tlbsize = 0, x86_virt_bits = 0, x86_phys_bits = 0, x86_max_cores = 0,
        x86_apicid = 0, booted_cores = 0, phys_proc_id = 0, cpu_core_id = 0\<rparr>,
      smp_tables = demo_mp\<rparr>"

lemma demo_fw_ok: "firmware_ok demo_fw 128 8"
  unfolding firmware_ok_def
  by (intro conjI exI [of _ 3]) (auto simp: demo_fw_def mem_map_pages_def kconst)

lemma demo_fw_tables: "tables_accepted demo_fw demo_boot"
  using demo_mp_spec_init [of demo_cpu] by (auto simp: tables_accepted_def demo_fw_def demo_boot_def demo_cpu_def)

theorem boot_layout_witness:
  "\<exists>s'. setup_arch demo_fw demo_boot = Done s' \<and> swapper_pg_dir (machine s') = 0xFFFF800000203000 \<and>
     bootmem_page_index (machine s') = 0x492"
  using boot_layout [OF demo_fw_ok demo_fw_tables] by (auto simp: lin_def kconst)

theorem boot_reserved_witness:
  "\<exists>s' m. setup_arch demo_fw demo_boot = Done s' \<and> memory_init (phy_mem_size s') (machine s') = Done m \<and> mm_inv m \<and>
     free_set (mem_map m) = {1..<0x9f} \<union> {0x492..<0x8000} \<and> 9 \<in> free_set (mem_map m)"
proof -
  have "node_zones (contig_page_data (machine demo_boot)) = [hd (node_zones (contig_page_data (machine demo_boot)))]"
    "free_pages_z (hd (node_zones (contig_page_data (machine demo_boot)))) = 0"
    by (simp_all add: demo_boot_def)
  from boot_reserved [OF demo_fw_ok demo_fw_tables this] show ?thesis by (auto simp: mem_map_pages_def)
qed

end
