(* ===== verification/Kernel.thy ===== *)
theory Kernel
  imports Boot Slab_Inv Interrupts Percpu
begin

text \<open>
  The whole kernel: \<^verbatim>\<open>start_kernel\<close> of \<^verbatim>\<open>main.c\<close> and \<^verbatim>\<open>smp_init\<close> of \<^verbatim>\<open>smp.c\<close>, which run the
  operations of the components in order on one memory manager, one processor, one screen and
  one set of drivers, until the boot processor is idle with interrupts enabled.
\<close>

subsection \<open>State\<close>

text \<open>
  The whole kernel. The record of the set-up holds the memory manager, the descriptor tables and
  the processor; the slab allocator and the per-processor data add their own variables to the same memory
  manager, whose fields in \<open>slab_mem\<close> and \<open>percpu_mem\<close> are replaced by the current ones at each
  call. The drivers have the screen, the controllers, and the interrupt table.
\<close>

record kernel =
  boot :: boot_state
  slab_mem :: slab_state
  percpu_mem :: percpu_state
  irqs :: irq_state
  preempt_count :: u64

definition with_mm :: "'a mm_state_scheme \<Rightarrow> 'b mm_state_scheme \<Rightarrow> 'b mm_state_scheme" where
  "with_mm m x = mm_state.extend (mm_state.truncate m) (mm_state.more x)"

text \<open>
  The memory side records its messages; they are printed, in their order, at the end of the
  step that made them. No step reads the screen, so it shows the same as if each message had been
  printed at once.
\<close>

primrec print_all :: "printk list \<Rightarrow> console \<Rightarrow> console outcome" where
  "print_all [] c = Done c"
| "print_all (p # ps) c = obind (caos_printf (fst p) (snd p) c) (print_all ps)"

definition set_machine :: "desc_state \<Rightarrow> kernel \<Rightarrow> kernel" where
  "set_machine d k = k\<lparr>boot := (boot k)\<lparr>machine := d\<rparr>\<rparr>"

definition show_log :: "kernel \<Rightarrow> kernel outcome" where
  "show_log k =
     obind (print_all (klog (machine (boot k))) (screen (irqs k))) (\<lambda>c.
     Done (set_machine ((machine (boot k))\<lparr>klog := []\<rparr>) (k\<lparr>irqs := (irqs k)\<lparr>screen := c\<rparr>\<rparr>)))"

definition on_boot :: "(boot_state \<Rightarrow> boot_state outcome) \<Rightarrow> kernel \<Rightarrow> kernel outcome" where
  "on_boot f k = obind (f (boot k)) (\<lambda>b. show_log (k\<lparr>boot := b\<rparr>))"

definition on_slab :: "(slab_state \<Rightarrow> slab_state outcome) \<Rightarrow> kernel \<Rightarrow> kernel outcome" where
  "on_slab f k =
     obind (f (with_mm (machine (boot k)) (slab_mem k))) (\<lambda>x.
     show_log (set_machine (with_mm x (machine (boot k))) (k\<lparr>slab_mem := x\<rparr>)))"

definition on_percpu :: "(percpu_state \<Rightarrow> percpu_state outcome) \<Rightarrow> kernel \<Rightarrow> kernel outcome" where
  "on_percpu f k =
     obind (f (with_mm (machine (boot k)) (percpu_mem k))) (\<lambda>x.
     show_log (set_machine (with_mm x (machine (boot k))) (k\<lparr>percpu_mem := x\<rparr>)))"

definition on_irqs :: "(irq_state \<Rightarrow> irq_state outcome) \<Rightarrow> kernel \<Rightarrow> kernel outcome" where
  "on_irqs f k = obind (f (irqs k)) (\<lambda>i. Done (k\<lparr>irqs := i\<rparr>))"

definition printk :: "string \<Rightarrow> printf_arg list \<Rightarrow> kernel \<Rightarrow> kernel outcome" where
  "printk fmt args = on_irqs (on_screen (caos_printf fmt args))"

definition on_cpu :: "(cpu \<Rightarrow> cpu) \<Rightarrow> kernel \<Rightarrow> kernel" where
  "on_cpu f k = set_machine ((machine (boot k))\<lparr>cpu_regs := f (cpu_regs (machine (boot k)))\<rparr>) k"

subsection \<open>The steps of \<^verbatim>\<open>start_kernel\<close>\<close>

text \<open>
  The messages of the boot processor. An \<^verbatim>\<open>int\<close> argument is in a register whose upper half is
  clear. The last message shows the first entries of the page tables of the boot loader.
\<close>

definition loader_entry :: "kernel \<Rightarrow> u64 \<Rightarrow> printf_arg" where
  "loader_entry k i = ArgInt (tables (machine (boot k)) (0xFFFF800000090000 + 8 * i))"

definition banner :: "kernel \<Rightarrow> kernel outcome" where
  "banner k =
     obind (on_irqs (on_screen init_screen) k) (\<lambda>k1.
     obind (printk ''Hello! I am BSP!!\<newline>'' [] k1) (\<lambda>k2.
     obind (printk ''Hello, CaOS. Test printf <%d,%d,%d,%d,%d,%d,0x%x>\<newline>''
              [ArgInt 0, ArgInt 1, ArgInt 0xFFFFFFFD, ArgInt (- 4), ArgInt 0xFFFFFFFB, ArgInt 6, ArgInt 0xa] k2) (\<lambda>k3.
     obind (printk ''size int=%d, long=%d, long long=%d\<newline>'' [ArgInt 4, ArgInt 8, ArgInt 8] k3) (\<lambda>k4.
     printk ''PML4[0]=%x, PDP[0]=%x\<newline> PDE[0]=%x, PTE[0]=%x\<newline>''
       [loader_entry k4 0, loader_entry k4 512, loader_entry k4 1024, loader_entry k4 1536] k4))))"

text \<open>
  Steps 2 and 3. Behind \<^verbatim>\<open>setup_arch\<close> the drivers see the MP tables and the interrupt table that
  it has built.
\<close>

definition share_tables :: "kernel \<Rightarrow> kernel" where
  "share_tables k =
     k\<lparr>irqs := (irqs k)\<lparr>mp := smp_tables (boot k), idt := idt_table (machine (boot k))\<rparr>\<rparr>"

definition memory_steps :: "firmware \<Rightarrow> kernel \<Rightarrow> kernel outcome" where
  "memory_steps fw k =
     obind (on_boot (setup_arch fw) k) (\<lambda>k1.
     let k2 = share_tables k1
     in obind (on_boot (\<lambda>b. on_machine (memory_init (phy_mem_size b)) b) k2) (\<lambda>k3.
        on_slab kmem_cache_init k3))"

text \<open>Step 4; the gates of the interrupts are entered into the table of the processor.\<close>

definition interrupt_steps :: "lapic_hw \<Rightarrow> (isr_entry \<Rightarrow> u64) \<Rightarrow> kernel \<Rightarrow> kernel outcome" where
  "interrupt_steps hw isr k =
     obind (on_irqs (init_bsp_APIC hw) k) (\<lambda>k1.
     obind (on_irqs io_apic_init k1) (\<lambda>k2.
     let k3 = k2\<lparr>irqs := irq_init isr (irqs k2)\<rparr>
     in Done (set_machine ((machine (boot k3))\<lparr>idt_table := idt (irqs k3)\<rparr>) k3)))"

definition smp_init :: "kernel \<Rightarrow> kernel outcome" where
  "smp_init k =
     obind (printk ''preempt-count=> %d\<newline>'' [ArgInt 0] (k\<lparr>preempt_count := 0\<rparr>)) (\<lambda>k1.
     on_percpu (\<lambda>p. setup_per_cpu_areas
       (p\<lparr>start_percpu := mm_start_percpu (init_mm (boot k1)), end_percpu := mm_end_percpu (init_mm (boot k1))\<rparr>)) k1)"

definition smp_steps :: "lapic_hw \<Rightarrow> kernel \<Rightarrow> kernel outcome" where
  "smp_steps hw k =
     obind (smp_init k) (\<lambda>k1.
     obind (on_irqs (init_bsp_timer hw) k1) (\<lambda>k2.
     on_irqs (wake_ap hw) k2))"

definition device_steps :: "kernel \<Rightarrow> kernel outcome" where
  "device_steps k =
     obind (printk ''\<newline>### MAKE PROCESS MANAGEMENT!! ###\<newline>'' [] k) (\<lambda>k1.
     obind (on_irqs (\<lambda>i. obind (keyboard_init i) (\<lambda>(_, i'). Done i')) k1) (\<lambda>k2.
     Done (on_cpu sti k2)))"

text \<open>
  \<^verbatim>\<open>Done\<close> is the state in which the boot processor enters the idle loop at the end. The other
  processors print a line and then count in the last cell of the first line for ever.
\<close>

definition ap_tick :: "console \<Rightarrow> console outcome" where
  "ap_tick c = obind (aget (video_mem c) 79) (\<lambda>x. obind (aput (video_mem c) 79 (x + 1)) (\<lambda>v. Done (c\<lparr>video_mem := v\<rparr>)))"

definition ap_main :: "kernel \<Rightarrow> kernel outcome" where
  "ap_main k = obind (printk ''Hello!! I am AP!! I am running??\<newline>'' [] k) (on_irqs (on_screen ap_tick))"

definition start_kernel :: "lapic_hw \<Rightarrow> firmware \<Rightarrow> u64 \<Rightarrow> kernel \<Rightarrow> kernel outcome" where
  "start_kernel hw fw index k =
     (let k0 = on_cpu cli k
      in if index \<noteq> 0 then obind (ap_main k0) (\<lambda>_. Halt)
         else obind (banner k0) (\<lambda>k1.
              obind (memory_steps fw k1) (\<lambda>k2.
              obind (interrupt_steps hw (isr_addr fw) k2) (\<lambda>k3.
              obind (smp_steps hw k3) device_steps))))"

subsection \<open>Lemmas: the log\<close>

text \<open>
  A message that the buffer holds and that moves the cursor only forward, where every decimal can be
  printed.
\<close>

definition fits :: "printk \<Rightarrow> bool" where
  "fits p \<longleftrightarrow> (case render True (bytes (fst p)) (snd p) of
     None \<Rightarrow> False | Some t \<Rightarrow> 0x08 \<notin> set t \<and> 0 \<notin> set t \<and> length t < 128)"

lemma print_all_ok:
  "list_all fits ps \<Longrightarrow> console_up c \<Longrightarrow> \<exists>c'. print_all ps c = Done c' \<and> console_up c'"
proof (induction ps arbitrary: c)
  case (Cons p ps)
  from Cons.prems(1) obtain t where "render True (bytes (fst p)) (snd p) = Some t" "0x08 \<notin> set t" "0 \<notin> set t" "length t < 128"
    by (auto simp: fits_def split: option.splits)
  from printf_up [OF Cons.prems(2) this] obtain c1 where "caos_printf (fst p) (snd p) c = Done c1" "console_up c1" by blast
  with Cons show ?case by auto
qed simp

lemma show_log_ok:
  assumes "list_all fits (klog (machine (boot k)))" "console_up (screen (irqs k))"
  shows "\<exists>c. show_log k = Done (set_machine ((machine (boot k))\<lparr>klog := []\<rparr>) (k\<lparr>irqs := (irqs k)\<lparr>screen := c\<rparr>\<rparr>)) \<and>
    console_up c"
  using print_all_ok [OF assms] by (auto simp: show_log_def)

lemma fits_formats:
  "fits (''bootmem page %x~%x\<newline>'', [ArgInt a, ArgInt b])"
  "fits (''GDT table at %x\<newline>'', [ArgInt a])"
  "fits (''TSS address=%x\<newline>'', [ArgInt a])"
  "fits (''IDT table at %x\<newline>'', [ArgInt a])"
  "fits (''pgd=0x%x/pud=0x%x \<newline>pmd=0x%x/pte=0x%x\<newline>'', [ArgInt a, ArgInt b, ArgInt c, ArgInt d])"
  "fits (''pmd_reserv=0x%x/pte_reserv=0x%x\<newline>'', [ArgInt a, ArgInt b])"
  "fits (''mem_map -> %x ~ %x \<newline>'', [ArgInt a, ArgInt b])"
  "fits (''cache_cache created at <%x>\<newline>'', [ArgInt a])"
  "fits (''zone[%s] size=%d, mem_map=%x, free=%d\<newline>'', [ArgStr ''NORMAL'', ArgInt a, ArgInt b, ArgInt c])"
  "fits (''per-cpu section: %x ~ %x (%d-bytes)\<newline>'', [ArgInt a, ArgInt b, ArgInt c])"
  "fits (''TEST PER-CPU SECTION: 5 == %d?\<newline>'', [ArgInt a])"
  "fits (''preempt-count=> %d\<newline>'', [ArgInt a])"
  using hex_str_length [of a] hex_str_length [of b] hex_str_length [of c] hex_str_length [of d]
    dec_str_length [of a] dec_str_length [of b] dec_str_length [of c]
  by (simp_all add: fits_def bytes_def conversion_def hex_str_clean dec_str_clean)

lemma printk_ok:
  assumes "fits (fmt, args)" "console_up (screen (irqs k))"
  shows "\<exists>c. printk fmt args k = Done (k\<lparr>irqs := (irqs k)\<lparr>screen := c\<rparr>\<rparr>) \<and> console_up c"
  using print_all_ok [of "[(fmt, args)]" "screen (irqs k)"] assms
  by (cases "caos_printf fmt args (screen (irqs k))") (auto simp: printk_def on_irqs_def on_screen_def)

text \<open>The memory manager inside a larger state.\<close>

lemma with_mm_sel [simp]:
  "klog (with_mm m x) = klog m" "mem_map (with_mm m x) = mem_map m" "lists (with_mm m x) = lists m"
  "contig_page_data (with_mm m x) = contig_page_data m" "mem_map_base (with_mm m x) = mem_map_base m"
  "mm_inv (with_mm m x) \<longleftrightarrow> mm_inv m" "mm_state.more (with_mm m x) = mm_state.more x"
  by (simp_all add: with_mm_def mm_state.defs mm_inv_def split: list.split)

lemma with_mm_klog [simp]: "with_mm x (m\<lparr>klog := l\<rparr>) = with_mm x m"
  by (simp add: with_mm_def)

lemma with_mm_with_mm [simp]: "with_mm m (with_mm m' x) = with_mm m x"
  by (simp add: with_mm_def mm_state.defs)

lemma mm_inv_cong: "mem_map s = mem_map t \<Longrightarrow> contig_page_data s = contig_page_data t \<Longrightarrow> mm_inv s \<longleftrightarrow> mm_inv t"
  by (simp add: mm_inv_def split: list.split)

lemma mm_inv_klog [simp]: "mm_inv (m\<lparr>klog := l\<rparr>) \<longleftrightarrow> mm_inv m"
  by (simp add: mm_inv_def split: list.split)

lemma with_mm_desc [simp]:
  "tables (with_mm m d) = tables d" "cpu_regs (with_mm m d) = cpu_regs d" "idt_table (with_mm m d) = idt_table d"
  by (cases d, simp add: with_mm_def mm_state.defs)+

lemma with_mm_desc_update [simp]:
  "with_mm (d\<lparr>idt_table := t\<rparr>) x = with_mm d x" "with_mm (d\<lparr>cpu_regs := r\<rparr>) x = with_mm d x"
  "mm_inv (d\<lparr>idt_table := t\<rparr>) \<longleftrightarrow> mm_inv d" "mm_inv (d\<lparr>cpu_regs := r\<rparr>) \<longleftrightarrow> mm_inv d"
  by (simp_all add: with_mm_def mm_state.defs mm_inv_def split: list.split)

lemma with_mm_slab [simp]:
  "cache_base (with_mm m x) = cache_base x" "cache_cache (with_mm m x) = cache_cache x"
  "cache_cache_max (with_mm m x) = cache_cache_max x"
  by (cases x, simp add: with_mm_def mm_state.defs)+

lemma with_mm_percpu [simp]:
  "memory (with_mm m p) = memory p" "cpu_offset (with_mm m p) = cpu_offset p"
  "start_percpu (with_mm m p) = start_percpu p" "end_percpu (with_mm m p) = end_percpu p"
  by (cases p, simp add: with_mm_def mm_state.defs)+

lemma more_desc:
  assumes "mm_state.more d = mm_state.more d'"
  shows "idt_table d = idt_table d'" "cpu_regs d = cpu_regs d'" "tables d = tables d'"
  using assms by (cases d, cases d', simp)+

subsection \<open>Lemmas: what the steps print\<close>

lemma gdt_init_log:
  "gdt_init b r s = Done s' \<Longrightarrow> list_all fits (klog s) \<Longrightarrow> list_all fits (klog s')"
  by (auto simp: gdt_init_def set_tss_def set_gdt_desc_def set_gdt_def load_segments_def say_def alloc_bootmem_def Let_def
      fits_formats split: if_splits)

lemma idt_init_log:
  "idt_init isr s = Done s' \<Longrightarrow> list_all fits (klog s) \<Longrightarrow> list_all fits (klog s')"
  by (auto simp: idt_init_def set_idt_def say_def alloc_bootmem_def Let_def fits_formats split: if_splits)

lemma paging_init_log:
  "paging_init M s = Done s' \<Longrightarrow> list_all fits (klog s) \<Longrightarrow> list_all fits (klog s')"
  by (auto simp: paging_init_def load_tables_def say_def alloc_bootmem_def Let_def halt_def fits_formats split: if_splits)

lemma mem_map_init_log:
  "mem_map_init raw M s = Done s' \<Longrightarrow> list_all fits (klog s) \<Longrightarrow> list_all fits (klog s')"
  by (auto simp: mem_map_init_def build_mem_map_def say_def alloc_bootmem_def Let_def fits_formats
      simp del: mark_busy.simps split: if_splits)

lemma link_pages_keep: "link_pages zi zm ls s = Done s' \<Longrightarrow> klog s' = klog s \<and> mm_state.more s' = mm_state.more s"
  by (induction ls arbitrary: s) auto

lemma memory_init_log:
  assumes "memory_init M s = Done s'"
  shows "list_all fits (klog s) \<Longrightarrow> list_all fits (klog s')" "mm_state.more s' = mm_state.more s"
  using assms link_pages_keep
  by (fastforce simp: memory_init_def say_def Let_def zone_setup_def fits_formats)+

lemma create_log: "kmem_cache_create nm n al fl s = Done (Some i, s') \<Longrightarrow> klog s' = klog s"
  by (cases nm; cases "find_entry (cache_cache s) (unat (cache_cache_max s)) (the nm) 0")
    (auto simp: kmem_cache_create_def Let_def split: if_splits sum.splits)

lemma create_defaults_log: "create_defaults nms n s = Done s' \<Longrightarrow> klog s' = klog s"
  by (induction nms arbitrary: n s) (auto split: option.splits dest!: create_log)

lemma kmem_cache_init_log:
  assumes "kmem_cache_init s = Done s'" "alloc_pages 0 1 s = Done (Some f, alloc_at 0 1 f s)" "list_all fits (klog s)"
  shows "list_all fits (klog s')"
proof -
  have "CACHE_CACHE_PAGE = 1" by (simp add: kconst)
  moreover have "klog (alloc_at 0 1 f s) = klog s" by (simp add: alloc_at_def set_zone_def)
  ultimately show ?thesis
    using assms by (auto simp: kmem_cache_init_def Let_def say_def fits_formats dest!: create_defaults_log)
qed

lemma copy_sections_keep: "copy_sections is len s = Done s' \<Longrightarrow> mm_state.truncate s' = mm_state.truncate s"
  by (induction "is" arbitrary: s) (auto simp: Let_def mm_state.defs)

lemma setup_per_cpu_areas_keep:
  assumes "setup_per_cpu_areas s = Done s'" "percpu_order (percpu_size s) = 0"
    "alloc_pages 0 0 (percpu_report s) = Done (Some f, alloc_at 0 0 f (percpu_report s))"
  shows "mm_state.truncate s' = mm_state.truncate (alloc_at 0 0 f (percpu_report s))"
  using assms by (auto simp: setup_per_cpu_areas_def mm_state.defs dest!: copy_sections_keep)

text \<open>The name of the processor, from the registers of \<^verbatim>\<open>cpuid\<close>.\<close>

definition cpu_name :: "firmware \<Rightarrow> u8 list" where
  "cpu_name fw = (case cpuid fw 0 of (a, b, c, d) \<Rightarrow> put_reg 4 d (put_reg 8 c (put_reg 0 b (replicate 16 0))))"

lemma bytes_chars: "bytes (map (\<lambda>c. char_of (unat c)) cs) = cs" for cs :: "u8 list"
proof -
  have "unat c mod 256 = unat c" for c :: u8 using unsigned_less [of c, where ?'a = nat] by simp
  then show ?thesis by (induction cs) (simp_all add: bytes_def)
qed

lemma fits_name: "0x08 \<notin> set (cpu_name fw) \<Longrightarrow>
    fits (''CPU VENDOR=%s\<newline>'', [ArgStr (map (\<lambda>c. char_of (unat c)) (c_string (cpu_name fw)))])"
proof -
  assume no: "0x08 \<notin> set (cpu_name fw)"
  have "length (cpu_name fw) = 16" by (simp add: cpu_name_def put_reg_def split: prod.split)
  then have "length (c_string (cpu_name fw)) \<le> 16"
    using length_takeWhile_le [of "\<lambda>c. c \<noteq> 0" "cpu_name fw"] by (simp add: c_string_def)
  moreover have "0x08 \<notin> set (c_string (cpu_name fw))" "0 \<notin> set (c_string (cpu_name fw))"
    using no by (auto simp: c_string_def dest: set_takeWhileD)
  ultimately show ?thesis
    using bytes_chars [of "c_string (cpu_name fw)"] by (simp add: fits_def bytes_def conversion_def)
qed

text \<open>
  The MP tables are accepted, the messages about them can be printed, and the boot processor is
  listed first, with the identifier zero.
\<close>

definition boot_processor_listed :: "firmware \<Rightarrow> boot_state \<Rightarrow> bool" where
  "boot_processor_listed fw s \<longleftrightarrow>
     (\<forall>log. \<exists>mp' ks. mp_spec_init (bios fw) ((smp_tables s)\<lparr>mp_log := log\<rparr>) = Done mp' \<and> mp_log mp' = log @ ks \<and>
        list_all fits ks \<and> boot_cpu_id mp' = 0 \<and> (\<exists>rest. x86_cpu_to_apicid mp' = 0 # rest))"

lemma listed_accepted: "boot_processor_listed fw s \<Longrightarrow> tables_accepted fw s"
  unfolding boot_processor_listed_def tables_accepted_def by blast

lemma setup_arch_log:
  assumes run: "setup_arch fw s = Done s'" and log: "klog (machine s) = []"
    and name: "0x08 \<notin> set (cpu_name fw)" "x86_vendor_id (boot_cpu_data s) = replicate 16 0"
    and mp: "boot_processor_listed fw s"
  shows "list_all fits (klog (machine s'))"
proof -
  define s1 where "s1 = early_identify_cpu fw (read_params (boot_params fw) s)"
  define s2 where "s2 = s1\<lparr>machine := bootmem_init (mm_start_heap (init_mm s1)) (mm_end_heap (init_mm s1)) (machine s1)\<rparr>"
  obtain a b c d where "cpuid fw 0 = (a, b, c, d)" by (cases "cpuid fw 0")
  moreover have "(replicate 16 (0 :: u8))[0 := 0] = replicate 16 0" by (simp add: list_update_same_conv)
  ultimately have "list_all fits (klog (machine s1))" "smp_tables s1 = smp_tables s"
    using fits_name [OF name(1)] log name(2)
    by (simp_all add: s1_def early_identify_cpu_def read_params_def say_def Let_def cpu_name_def)
  then have l2: "list_all fits (klog (machine s2))" and t2: "smp_tables s2 = smp_tables s"
    by (simp_all add: s2_def bootmem_init_def say_def Let_def fits_formats)
  obtain d3 d4 p mp' d6 where
      d3: "gdt_init (gdt_words fw (boot_gdt s2)) (raw_gdt fw) (machine s2) = Done d3"
    and d4: "idt_init (isr_addr fw) d3 = Done d4"
    and p: "paging_init (phy_mem_size s2) (pt_state.truncate d4) = Done p"
    and mp': "mp_spec_init (bios fw) ((smp_tables s)\<lparr>mp_log := klog p\<rparr>) = Done mp'"
    and d6: "mem_map_init (raw_pages fw) (phy_mem_size s2) ((pt_state.extend p (pt_state.more d4))\<lparr>klog := mp_log mp'\<rparr>) = Done d6"
    and s': "machine s' = d6"
    using run t2 unfolding setup_arch_def Let_def s1_def [symmetric] s2_def [symmetric] on_machine_def on_pt_def
    by (auto simp: pt_state.defs)
  have "list_all fits (klog (pt_state.truncate d4))"
    using idt_init_log [OF d4 gdt_init_log [OF d3 l2]] by (simp add: pt_state.defs)
  then have "list_all fits (klog p)" by (rule paging_init_log [OF p])
  moreover obtain ks where "mp_log mp' = klog p @ ks" "list_all fits ks"
    using spec [OF mp [unfolded boot_processor_listed_def], of "klog p"] mp' by auto
  ultimately have "list_all fits (mp_log mp')" by simp
  then show ?thesis unfolding s' by (intro mem_map_init_log [OF d6]) simp
qed

subsection \<open>Lemmas: the steps\<close>

lemma init_screen_ok:
  assumes "length (video_mem c) = 2000" "length (sz c) = 128"
  shows "\<exists>c'. init_screen c = Done c' \<and> screen_ok c' \<and> lock_bt c' = lock_bt c"
proof -
  have blank: "\<exists>v'. blank_cells ls v = Done v' \<and> length v' = length v" if "\<forall>i \<in> set ls. i < length v" for ls v
    using that
  proof (induction ls arbitrary: v)
    case (Cons i ls)
    then show ?case using Cons.IH [of "v[i := BG_BLACK]"] by (auto simp: outcome_simps)
  qed simp
  define c1 where "c1 = outb 0x3d5 0 (outb 0x3d4 0x0f (outb 0x3d5 0 (outb 0x3d4 0x0e (c\<lparr>cursor_offset := 0\<rparr>))))"
  have c1: "set_cursor 0 (c\<lparr>cursor_offset := 0\<rparr>) = Done c1"
    by (simp add: set_cursor_def Let_def kconst c1_def)
  have "video_mem c1 = video_mem c" "sz c1 = sz c" "cursor_offset c1 = 0" "lock_bt c1 = lock_bt c" by (simp_all add: c1_def outb_def)
  moreover obtain v where "blank_cells [0..<SCREEN_ROW * SCREEN_COL] (video_mem c) = Done v" "length v = 2000"
    using blank [of "[0..<SCREEN_ROW * SCREEN_COL]" "video_mem c"] assms(1) by (auto simp: kconst)
  ultimately show ?thesis
    using assms(2) by (simp add: init_screen_def c1 clear_screen_def screen_ok_def)
qed

lemma fits_banner:
  "fits (''Hello! I am BSP!!\<newline>'', [])"
  "fits (''Hello, CaOS. Test printf <%d,%d,%d,%d,%d,%d,0x%x>\<newline>'',
     [ArgInt 0, ArgInt 1, ArgInt 0xFFFFFFFD, ArgInt (- 4), ArgInt 0xFFFFFFFB, ArgInt 6, ArgInt 0xa])"
  "fits (''size int=%d, long=%d, long long=%d\<newline>'', [ArgInt 4, ArgInt 8, ArgInt 8])"
  "fits (''PML4[0]=%x, PDP[0]=%x\<newline> PDE[0]=%x, PTE[0]=%x\<newline>'', [ArgInt a, ArgInt b, ArgInt c, ArgInt d])"
  "fits (''\<newline>### MAKE PROCESS MANAGEMENT!! ###\<newline>'', [])"
  "fits (''Hello!! I am AP!! I am running??\<newline>'', [])"
proof -
  have short: "length (dec_str 0) \<le> 1" "length (dec_str 1) \<le> 1" "length (dec_str 6) \<le> 1" "length (dec_str (- 4)) \<le> 2"
    "length (dec_str 0xFFFFFFFD) \<le> 10" "length (dec_str 0xFFFFFFFB) \<le> 10"
    by (simp_all add: dec_str_def dec_digits.simps)
  then show "fits (''Hello, CaOS. Test printf <%d,%d,%d,%d,%d,%d,0x%x>\<newline>'',
     [ArgInt 0, ArgInt 1, ArgInt 0xFFFFFFFD, ArgInt (- 4), ArgInt 0xFFFFFFFB, ArgInt 6, ArgInt 0xa])"
    using hex_str_length [of "0xa"] by (simp add: fits_def bytes_def conversion_def hex_str_clean dec_str_clean)
  show "fits (''size int=%d, long=%d, long long=%d\<newline>'', [ArgInt 4, ArgInt 8, ArgInt 8])"
    using dec_str_length [of 4] dec_str_length [of 8]
    by (simp add: fits_def bytes_def conversion_def dec_str_clean)
  show "fits (''PML4[0]=%x, PDP[0]=%x\<newline> PDE[0]=%x, PTE[0]=%x\<newline>'', [ArgInt a, ArgInt b, ArgInt c, ArgInt d])"
    using hex_str_length [of a] hex_str_length [of b] hex_str_length [of c] hex_str_length [of d]
    by (simp add: fits_def bytes_def conversion_def hex_str_clean)
qed (simp_all add: fits_def bytes_def conversion_def)

text \<open>The banner changes only the screen.\<close>

lemma banner_done:
  assumes "length (video_mem (screen (irqs k))) = 2000" "length (sz (screen (irqs k))) = 128"
    and lb: "lock_bt (screen (irqs k))"
  shows "\<exists>c. banner k = Done (k\<lparr>irqs := (irqs k)\<lparr>screen := c\<rparr>\<rparr>) \<and> console_up c"
proof -
  note p = printk_ok [of _ _ "k\<lparr>irqs := (irqs k)\<lparr>screen := c\<rparr>\<rparr>" for c, simplified]
  obtain c1 where c1: "init_screen (screen (irqs k)) = Done c1" "console_up c1" using init_screen_ok [OF assms(1,2)] lb by (auto simp: console_up_def)
  obtain c2 where c2: "printk ''Hello! I am BSP!!\<newline>'' [] (k\<lparr>irqs := (irqs k)\<lparr>screen := c1\<rparr>\<rparr>) =
      Done (k\<lparr>irqs := (irqs k)\<lparr>screen := c2\<rparr>\<rparr>)" "console_up c2"
    using p [OF fits_banner(1) c1(2)] by blast
  obtain c3 where c3: "printk ''Hello, CaOS. Test printf <%d,%d,%d,%d,%d,%d,0x%x>\<newline>''
      [ArgInt 0, ArgInt 1, ArgInt 0xFFFFFFFD, ArgInt (- 4), ArgInt 0xFFFFFFFB, ArgInt 6, ArgInt 0xa]
      (k\<lparr>irqs := (irqs k)\<lparr>screen := c2\<rparr>\<rparr>) = Done (k\<lparr>irqs := (irqs k)\<lparr>screen := c3\<rparr>\<rparr>)" "console_up c3"
    using p [OF fits_banner(2) c2(2)] by blast
  obtain c4 where c4: "printk ''size int=%d, long=%d, long long=%d\<newline>'' [ArgInt 4, ArgInt 8, ArgInt 8]
      (k\<lparr>irqs := (irqs k)\<lparr>screen := c3\<rparr>\<rparr>) = Done (k\<lparr>irqs := (irqs k)\<lparr>screen := c4\<rparr>\<rparr>)" "console_up c4"
    using p [OF fits_banner(3) c3(2)] by blast
  obtain c5 where c5: "printk ''PML4[0]=%x, PDP[0]=%x\<newline> PDE[0]=%x, PTE[0]=%x\<newline>''
      [loader_entry k 0, loader_entry k 512, loader_entry k 1024, loader_entry k 1536]
      (k\<lparr>irqs := (irqs k)\<lparr>screen := c4\<rparr>\<rparr>) = Done (k\<lparr>irqs := (irqs k)\<lparr>screen := c5\<rparr>\<rparr>)" "console_up c5"
    using p [OF fits_banner(4) c4(2)] unfolding loader_entry_def by blast
  have "loader_entry (k\<lparr>irqs := i\<rparr>) = loader_entry k" for i by (simp add: loader_entry_def fun_eq_iff)
  moreover have "on_irqs (on_screen init_screen) k = Done (k\<lparr>irqs := (irqs k)\<lparr>screen := c1\<rparr>\<rparr>)"
    using c1(1) by (simp add: on_irqs_def on_screen_def)
  ultimately show ?thesis
    using c2 c3 c4 c5 by (auto simp: banner_def simp del: obind_eq_Done_iff)
qed

text \<open>Where \<^verbatim>\<open>bt\<close> with a lock prefix is refused, the banner gets no further than its second message.\<close>

lemma banner_trap:
  assumes "length (video_mem (screen (irqs k))) = 2000" "length (sz (screen (irqs k))) = 128"
    and lb: "\<not> lock_bt (screen (irqs k))"
  shows "banner k = Fault"
proof -
  obtain c1 where c1: "init_screen (screen (irqs k)) = Done c1" "screen_ok c1" "lock_bt c1 = lock_bt (screen (irqs k))"
    using init_screen_ok [OF assms(1,2)] by blast
  have "render (lock_bt c1) (bytes ''Hello! I am BSP!!\<newline>'') [] = Some (bytes ''Hello! I am BSP!!\<newline>'')"
    by (simp add: bytes_def conversion_def)
  from printf_ok [OF c1(2) this] obtain c2 where c2: "caos_printf ''Hello! I am BSP!!\<newline>'' [] c1 = Done c2"
    by (auto simp: bytes_def)
  have "lock_bt c2 = False" using printf_lock_bt [OF c2] c1(3) lb by simp
  then have "render (lock_bt c2) (bytes ''Hello, CaOS. Test printf <%d,%d,%d,%d,%d,%d,0x%x>\<newline>'')
      [ArgInt 0, ArgInt 1, ArgInt 0xFFFFFFFD, ArgInt (- 4), ArgInt 0xFFFFFFFB, ArgInt 6, ArgInt 0xa] = None"
    by (simp add: bytes_def conversion_def)
  from printf_trap [OF this] show ?thesis
    using c1(1) c2 by (simp add: banner_def printk_def on_irqs_def on_screen_def del: obind_eq_Done_iff)
qed

lemma slab_inv_with_mm:
  assumes "slab_inv x (\<lambda>_. []) (\<lambda>_. [])" "mm_inv t" "lists t = lists x"
    and "\<forall>i<length (mem_map t). pg_virtual (mem_map t ! i) = va (0x1000 * of_nat i)"
  shows "slab_inv (with_mm t x) (\<lambda>_. []) (\<lambda>_. [])"
  using assms unfolding slab_inv_def named_def slabs_head_def by simp

lemma alloc_some:
  assumes "mm_inv s" "order \<le> MAX_PAGE_ORDER" "block g order \<subseteq> free_set (mem_map s)"
    and "2 ^ unat order < card (free_set (mem_map s))"
  shows "\<exists>f. alloc_pages gm order s = Done (Some f, alloc_at gm order f s)"
  using alloc_pages_cases(2) [OF assms(1,2), of g gm] assms(3,4) by (auto simp: run_free_subset free_count_card)

text \<open>The frames that are free behind the set-up, but for the two of the cache table.\<close>

definition boot_free :: "nat \<Rightarrow> nat set" where
  "boot_free M = {1..<0x9f} \<union> {0x211 + M div 2 + mem_map_pages M..<256 * M}"

lemma boot_free_card: "158 \<le> card (boot_free M)"
proof -
  have "card {1..<0x9f :: nat} \<le> card (boot_free M)" by (rule card_mono) (auto simp: boot_free_def)
  then show ?thesis by simp
qed

text \<open>
  What holds from step 3 on: the memory manager and the slab allocator work, nothing is left to
  be printed, and at least \<open>n\<close> of the frames the set-up has left are free.
\<close>

definition memory_ready :: "nat \<Rightarrow> nat \<Rightarrow> kernel \<Rightarrow> bool" where
  "memory_ready M n k \<longleftrightarrow>
     mm_inv (machine (boot k)) \<and> klog (machine (boot k)) = [] \<and>
     slab_inv (with_mm (machine (boot k)) (slab_mem k)) (\<lambda>_. []) (\<lambda>_. []) \<and>
     free_set (mem_map (machine (boot k))) \<subseteq> boot_free M \<and> n \<le> card (free_set (mem_map (machine (boot k))))"

lemma memory_steps_done:
  assumes fw: "firmware_ok fw M B" "boot_processor_listed fw (boot k)"
    and zones: "node_zones (contig_page_data (machine (boot k))) = [z0]" "free_pages_z z0 = 0"
    and log: "klog (machine (boot k)) = []" and name: "0x08 \<notin> set (cpu_name fw)"
      "x86_vendor_id (boot_cpu_data (boot k)) = replicate 16 0"
    and screen: "console_up (screen (irqs k))"
  shows "\<exists>k' mp' c. memory_steps fw k = Done k' \<and> memory_ready M 156 k' \<and>
    irqs k' = (irqs k)\<lparr>mp := mp', idt := idt_table (machine (boot k')), screen := c\<rparr> \<and> console_up c \<and>
    boot_cpu_id mp' = 0 \<and> (\<exists>rest. x86_cpu_to_apicid mp' = 0 # rest) \<and>
    idt_table (machine (boot k')) = initial_idt (isr_addr fw) \<and>
    percpu_mem k' = percpu_mem k \<and> mm_start_percpu (init_mm (boot k')) = boot_params fw PARAMS_OFFSET_START_PERCPU \<and>
    mm_end_percpu (init_mm (boot k')) = boot_params fw PARAMS_OFFSET_END_PERCPU"
proof -
  obtain b m where b: "setup_arch fw (boot k) = Done b" "booted fw M (boot k) b"
    "memory_init (phy_mem_size b) ((machine b)\<lparr>klog := []\<rparr>) = Done m" "mm_inv m" "length (mem_map m) = 256 * M"
    "free_set (mem_map m) = boot_free M" "\<forall>i<256 * M. pg_virtual (mem_map m ! i) = va (0x1000 * of_nat i)"
    using boot_done [OF fw(1) listed_accepted [OF fw(2)] zones] unfolding boot_free_def by blast
  obtain mp' where mp': "mp' = smp_tables b" "boot_cpu_id mp' = 0" "\<exists>rest. x86_cpu_to_apicid mp' = 0 # rest"
    using b(2) fw(2) unfolding booted_def boot_processor_listed_def by (metis outcome.inject)
  define t where "t = initial_idt (isr_addr fw)"
  have idt: "idt_table (machine b) = t" using b(2) by (simp add: booted_def t_def)
  obtain c1 where c1: "show_log (k\<lparr>boot := b\<rparr>) =
      Done (set_machine ((machine b)\<lparr>klog := []\<rparr>) (k\<lparr>boot := b, irqs := (irqs k)\<lparr>screen := c1\<rparr>\<rparr>))" "console_up c1"
    using show_log_ok [of "k\<lparr>boot := b\<rparr>"] setup_arch_log [OF b(1) log name fw(2)] screen by auto
  define k2 where "k2 = set_machine ((machine b)\<lparr>klog := []\<rparr>) (k\<lparr>boot := b, irqs := (irqs k)\<lparr>mp := mp', idt := t, screen := c1\<rparr>\<rparr>)"
  have s1: "obind (on_boot (setup_arch fw) k) (\<lambda>k1. Done (share_tables k1)) = Done k2"
    using b(1) c1(1) mp'(1) idt by (simp add: on_boot_def share_tables_def set_machine_def k2_def del: obind_eq_Done_iff)
  have k2: "machine (boot k2) = (machine b)\<lparr>klog := []\<rparr>" "phy_mem_size (boot k2) = phy_mem_size b"
    "irqs k2 = (irqs k)\<lparr>mp := mp', idt := t, screen := c1\<rparr>" "init_mm (boot k2) = init_mm b"
    "percpu_mem k2 = percpu_mem k" "slab_mem k2 = slab_mem k"
    by (simp_all add: k2_def set_machine_def)
  note ml = memory_init_log [OF b(3)]
  obtain c2 where c2: "on_boot (\<lambda>b. on_machine (memory_init (phy_mem_size b)) b) k2 =
      Done (set_machine (m\<lparr>klog := []\<rparr>) (k2\<lparr>irqs := (irqs k2)\<lparr>screen := c2\<rparr>\<rparr>))" "console_up c2"
    using show_log_ok [of "k2\<lparr>boot := (boot k2)\<lparr>machine := m\<rparr>\<rparr>"] ml(1) c1(2) b(3) k2
    by (auto simp: on_boot_def on_machine_def set_machine_def)
  define k3 where "k3 = set_machine (m\<lparr>klog := []\<rparr>) (k2\<lparr>irqs := (irqs k2)\<lparr>screen := c2\<rparr>\<rparr>)"
  define x0 where "x0 = with_mm (m\<lparr>klog := []\<rparr>) (slab_mem k)"
  have x0: "mem_map x0 = mem_map m" "mm_inv x0" "klog x0 = []"
    using b(4) by (simp_all add: x0_def)
  have "unat (1 :: u64) = 1" by simp
  then have "block 1 1 \<subseteq> boot_free M" by (auto simp: block_def boot_free_def)
  then obtain f where f: "alloc_pages 0 1 x0 = Done (Some f, alloc_at 0 1 f x0)"
    using alloc_some [OF x0(2), of 1 1 0] boot_free_card [of M] x0(1) b(6) by (auto simp: kconst)
  then obtain x where x: "kmem_cache_init x0 = Done x" "defaults 8 x" "same_alloc (mem_map (alloc_at 0 1 f x0)) (mem_map x)"
    using kmem_cache_init_defaults [OF x0(2) _ f] b(5,7) x0(1) by auto
  have free: "free_set (mem_map x) = boot_free M - block f 1"
    using same_alloc_free_set [OF x(3)] b(6) x0(1) by (simp add: alloc_at_def set_zone_def free_set_took)
  obtain c3 where c3: "on_slab kmem_cache_init k3 =
      Done (set_machine ((with_mm x m)\<lparr>klog := []\<rparr>) (k3\<lparr>slab_mem := x, irqs := (irqs k3)\<lparr>screen := c3\<rparr>\<rparr>))" "console_up c3"
    using show_log_ok [of "set_machine (with_mm x m) (k3\<lparr>slab_mem := x\<rparr>)"] kmem_cache_init_log [OF x(1) f] x(1) x0(3) c2(2) k2
    by (auto simp: on_slab_def set_machine_def k3_def x0_def)
  define k4 where "k4 = set_machine ((with_mm x m)\<lparr>klog := []\<rparr>) (k3\<lparr>slab_mem := x, irqs := (irqs k3)\<lparr>screen := c3\<rparr>\<rparr>)"
  have inv: "slab_inv x (\<lambda>_. []) (\<lambda>_. [])" using x(2) by (simp add: defaults_def)
  have k4: "machine (boot k4) = (with_mm x m)\<lparr>klog := []\<rparr>" "slab_mem k4 = x" "init_mm (boot k4) = init_mm b"
    "percpu_mem k4 = percpu_mem k" "irqs k4 = (irqs k)\<lparr>mp := mp', idt := t, screen := c3\<rparr>"
    using k2 by (simp_all add: k4_def k3_def set_machine_def)
  have "156 \<le> card (free_set (mem_map x))"
    using diff_card_le_card_Diff [of "block f 1" "boot_free M"] boot_free_card [of M] unfolding free by (simp add: block_def)
  moreover have "slab_inv (with_mm (machine (boot k4)) x) (\<lambda>_. []) (\<lambda>_. [])"
    unfolding k4(1) using inv slab_invD(1,2) [OF inv] by (intro slab_inv_with_mm) simp_all
  ultimately have "memory_ready M 156 k4"
    using slab_invD(1) [OF inv] k4 free by (simp add: memory_ready_def Diff_subset)
  moreover have "idt_table (machine (boot k4)) = t"
    using more_desc(1) [OF ml(2)] idt k4(1) by simp
  moreover have "memory_steps fw k = Done k4"
    using c2(1) c3(1) s1 unfolding memory_steps_def Let_def k4_def k3_def
    by (cases "on_boot (setup_arch fw) k") simp_all
  moreover have "mm_start_percpu (init_mm b) = boot_params fw PARAMS_OFFSET_START_PERCPU"
    "mm_end_percpu (init_mm b) = boot_params fw PARAMS_OFFSET_END_PERCPU"
    using b(2) by (simp_all add: booted_def)
  ultimately show ?thesis
    using k4 mp' c3(2) unfolding t_def
    by (intro exI [of _ k4] exI [of _ mp'] exI [of _ c3]) simp
qed

text \<open>The drivers behind step 4: the APIC is on, its timer is masked, no task priority holds anything back.\<close>

definition apic_on :: "u32 \<Rightarrow> kernel \<Rightarrow> bool" where
  "apic_on timer k \<longleftrightarrow> drivers_ok (irqs k) \<and> lock_bt (screen (irqs k)) \<and> bit (lapic (irqs k) APIC_SPIV) 8 \<and>
     lapic (irqs k) APIC_LVTT AND 0x300FF = timer \<and> lapic (irqs k) APIC_TASKPRI = 0"

lemma interrupt_steps_done:
  assumes hw: "local_apic hw" and screen: "console_up (screen (irqs k))" and st: "status (irqs k) AND NOT 0x3f = 0"
    and id: "lapic (irqs k) APIC_ID = 0" "boot_cpu_id (mp (irqs k)) = 0" "x86_cpu_to_apicid (mp (irqs k)) = 0 # rest"
    and ver: "GET_APIC_VERSION (lapic (irqs k) APIC_LVR) \<notin> {0, 0xff}" "2 \<le> GET_APIC_MAXLVT (lapic (irqs k) APIC_LVR)"
      "GET_APIC_MAXLVT (lapic (irqs k) APIC_LVR) \<noteq> 0xff"
  shows "\<exists>i. interrupt_steps hw isr k =
      Done (set_machine ((machine (boot k))\<lparr>idt_table := declare_irqs isr (idt (irqs k))\<rparr>) (k\<lparr>irqs := i\<rparr>)) \<and>
    apic_on 0x10000 (k\<lparr>irqs := i\<rparr>) \<and> io_regs i = io_regs (irqs k) \<and> irq_handler i = replicate MAX_IRQ (Some Ignore_isr_handler)"
proof -
  obtain i1 where i1: "init_bsp_APIC hw (irqs k) = Done i1" "lapic i1 APIC_TASKPRI = 0"
    "lapic i1 APIC_LVTT AND 0x300FF = 0x10000"
    "lapic i1 APIC_SPIV AND 0x1FF = (lapic (irqs k) APIC_SPIV OR 0x133) AND 0x1FF" "screen_ok (screen i1)" "same_rest (irqs k) i1"
    using init_bsp_APIC_done [OF hw _ id ver] screen by (auto simp: console_up_def)
  have up: "console_up (screen i1)"
    using i1(5) init_bsp_APIC_lock_bt [OF i1(1)] screen by (simp add: console_up_def)
  have "bit (lapic i1 APIC_SPIV) 8 = bit (lapic i1 APIC_SPIV AND 0x1FF) 8" by (simp add: bit_and_iff)
  also have "\<dots>" unfolding i1(4) by (simp add: bit_and_iff bit_or_iff)
  finally have on: "bit (lapic i1 APIC_SPIV) 8" .
  have keep: "io_regs i1 = io_regs (irqs k)" "status i1 = status (irqs k)" "idt i1 = idt (irqs k)"
    using i1(6) by (cases i1, cases "irqs k", simp add: same_rest_def)+
  obtain c where c: "io_apic_init i1 = Done (i1\<lparr>io_index := 1, screen := c\<rparr>)" "console_up c"
    using io_apic_init_done [OF up] by blast
  define i where "i = irq_init isr (i1\<lparr>io_index := 1, screen := c\<rparr>)"
  have "interrupt_steps hw isr k =
      Done (set_machine ((machine (boot k))\<lparr>idt_table := declare_irqs isr (idt (irqs k))\<rparr>) (k\<lparr>irqs := i\<rparr>))"
    using i1(1) c(1) keep(3) by (simp add: interrupt_steps_def on_irqs_def Let_def i_def set_machine_def irq_init_def del: obind_eq_Done_iff)
  moreover have "drivers_ok i" "lock_bt (screen i)"
    using c(2) st keep by (simp_all add: i_def irq_init_def drivers_ok_def kbd_ok_def kbd_view_def console_up_def)
  ultimately show ?thesis
    using i1(2,3) on keep by (intro exI [of _ i]) (simp add: apic_on_def i_def irq_init_def)
qed

lemma section_apart:
  assumes "f \<in> boot_free M" "M \<le> 1024" "0x100000 \<le> S" "S + z \<le> 0x200000"
  shows "region (va (of_nat S)) z \<inter> region (va (0x1000 * of_nat f)) 4096 = {}"
proof -
  have False if "a \<in> region (va (of_nat S)) z" "a \<in> region (va (0x1000 * of_nat f)) 4096" for a
  proof -
    define d e where "d = unat (a - va (of_nat S))" and "e = unat (a - va (0x1000 * of_nat f))"
    have de: "d < z" "e < 4096" using that by (simp_all add: d_def e_def region_def)
    have "of_nat (S + d) = (of_nat (4096 * f + e) :: u64)"
      by (simp add: d_def e_def va_def)
    moreover have f: "f < 0x9f \<or> 0x211 \<le> f" "f < 2 ^ 18" using assms(1,2) by (auto simp: boot_free_def)
    moreover have "S + d < 2 ^ 64" "4096 * f + e < 2 ^ 64" using assms(4) de f(2) by simp_all
    ultimately have "S + d = 4096 * f + e"
      using unat_of_nat_u64 [of "S + d"] unat_of_nat_u64 [of "4096 * f + e"] by metis
    then show False using f(1) de assms(3,4) by linarith
  qed
  then show ?thesis by blast
qed

text \<open>The section of the per-processor data, \<open>z\<close> bytes from \<open>S\<close>, and its copies.\<close>

definition section_at :: "nat \<Rightarrow> nat \<Rightarrow> u64 \<Rightarrow> u64 \<Rightarrow> bool" where
  "section_at S z lo hi \<longleftrightarrow> lo = va (of_nat S) \<and> hi = va (of_nat (S + z)) \<and> z \<le> 819 \<and>
     0x100000 \<le> S \<and> S + z \<le> 0x200000"

definition copies_made :: "nat \<Rightarrow> nat \<Rightarrow> bmem \<Rightarrow> percpu_state \<Rightarrow> bool" where
  "copies_made S z m p \<longleftrightarrow>
     (\<exists>B. \<forall>cpu<5. \<forall>j<z. \<exists>a. per_cpu (va (of_nat S) + of_nat j) cpu p = Done a \<and> unat (a - B) = cpu * z + j \<and>
        memory p a = m (va (of_nat S) + of_nat j))"

lemma smp_init_done:
  assumes mem: "memory_ready M (Suc n) k" "2 \<le> n" and M: "M \<le> 1024" and screen: "console_up (screen (irqs k))"
    and sec: "section_at S z (mm_start_percpu (init_mm (boot k))) (mm_end_percpu (init_mm (boot k)))"
    and offs: "length (cpu_offset (percpu_mem k)) = 5"
  shows "\<exists>k' c. smp_init k = Done k' \<and> memory_ready M n k' \<and> irqs k' = (irqs k)\<lparr>screen := c\<rparr> \<and> console_up c \<and>
    copies_made S z (memory (percpu_mem k)) (percpu_mem k') \<and> idt_table (machine (boot k')) = idt_table (machine (boot k)) \<and>
    preempt_count k' = 0"
proof -
  obtain c1 where c1: "printk ''preempt-count=> %d\<newline>'' [ArgInt 0] (k\<lparr>preempt_count := 0\<rparr>) =
      Done (k\<lparr>preempt_count := 0, irqs := (irqs k)\<lparr>screen := c1\<rparr>\<rparr>)" "console_up c1"
    using printk_ok [OF fits_formats(12), of "k\<lparr>preempt_count := 0\<rparr>" 0] screen by auto
  define k1 where "k1 = k\<lparr>preempt_count := 0, irqs := (irqs k)\<lparr>screen := c1\<rparr>\<rparr>"
  define d where "d = machine (boot k)"
  have mem': "mm_inv d" "klog d = []" "slab_inv (with_mm d (slab_mem k)) (\<lambda>_. []) (\<lambda>_. [])"
    "free_set (mem_map d) \<subseteq> boot_free M" "Suc n \<le> card (free_set (mem_map d))"
    using mem(1) by (simp_all add: memory_ready_def d_def)
  define p where "p = (with_mm d (percpu_mem k))\<lparr>start_percpu := va (of_nat S), end_percpu := va (of_nat (S + z))\<rparr>"
  have p: "mm_inv p" "memory p = memory (percpu_mem k)" "cpu_offset p = cpu_offset (percpu_mem k)"
    "start_percpu p = va (of_nat S)" "klog p = []" "mem_map p = mem_map d" "lists p = lists d"
    using mem'(1,2) by (simp_all add: p_def mm_inv_def split: list.splits)
  have z: "z \<le> 819" "0x100000 \<le> S" "S + z \<le> 0x200000" using sec by (simp_all add: section_at_def)
  have "percpu_size p = of_nat z" by (simp add: percpu_size_def p_def va_def)
  then have size: "unat (percpu_size p) = z" using z(1) by simp
  then have "percpu_size p div PAGE_SIZE = 0"
    using z by (simp add: PAGE_SIZE_val unat_eq_0 [symmetric] unat_div)
  then have order: "percpu_order (percpu_size p) = 0" by (simp add: percpu_order_def PAGE_ORDER_def fls64_def)
  define r where "r = percpu_report p"
  have r: "mm_inv r" "mem_map r = mem_map d" "lists r = lists d" "list_all fits (klog r)"
    using p by (simp_all add: r_def percpu_report_def say_def mm_inv_def fits_formats split: list.splits)
  have "free_set (mem_map d) \<noteq> {}" using mem'(5) by auto
  then obtain g where "g \<in> free_set (mem_map d)" by blast
  then have "block g 0 \<subseteq> free_set (mem_map r)" by (auto simp: block_def r(2))
  then obtain f where f: "alloc_pages 0 0 r = Done (Some f, alloc_at 0 0 f r)"
    using alloc_some [OF r(1), of 0 g 0] mem'(5) mem(2) r(2) by (auto simp: kconst)
  have "f \<in> boot_free M"
    using alloc_pages_Some(3) [OF r(1) f] mem'(4) r(2) by (auto simp: block_def)
  from section_apart [OF this M z(2,3)]
  obtain p' where p': "setup_per_cpu_areas p = Done p'" "copies_made S z (memory (percpu_mem k)) p'"
    using per_cpu_copies_done [OF p(1) f [unfolded r_def] size z(1)] offs p(2,3,4) unfolding copies_made_def by auto blast
  have trunc: "mm_state.truncate p' = mm_state.truncate (alloc_at 0 0 f r)"
    using setup_per_cpu_areas_keep [OF p'(1) order f [unfolded r_def]] by (simp add: r_def)
  have eqs: "klog p' = klog r" "mem_map p' = took 0 0 f (mem_map d)" "lists p' = lists d"
    "contig_page_data p' = contig_page_data (alloc_at 0 0 f r)"
    using arg_cong [OF trunc, of klog] arg_cong [OF trunc, of mem_map] arg_cong [OF trunc, of lists]
      arg_cong [OF trunc, of contig_page_data] r(2,3)
    by (simp_all add: mm_state.defs alloc_at_def set_zone_def)
  have "mm_inv (alloc_at 0 0 f r)" using alloc_pages_Some [OF r(1) f] by (intro alloc_at_inv [OF r(1)])
  moreover have "mem_map (alloc_at 0 0 f r) = mem_map p'" using eqs(2) r(2) by (simp add: alloc_at_def set_zone_def)
  ultimately have inv': "mm_inv p'" using mm_inv_cong [of "alloc_at 0 0 f r" p'] eqs(4) by simp
  have free: "free_set (mem_map p') = free_set (mem_map d) - {f}"
    unfolding eqs(2) by (simp add: free_set_took block_def)
  define k2 where "k2 = set_machine (with_mm p' d) (k1\<lparr>percpu_mem := p'\<rparr>)"
  obtain c where c: "show_log k2 = Done (set_machine ((with_mm p' d)\<lparr>klog := []\<rparr>) (k2\<lparr>irqs := (irqs k)\<lparr>screen := c\<rparr>\<rparr>))" "console_up c"
    using show_log_ok [of k2] r(4) c1(2) eqs(1) by (auto simp: k2_def k1_def set_machine_def)
  define k3 where "k3 = set_machine ((with_mm p' d)\<lparr>klog := []\<rparr>) (k2\<lparr>irqs := (irqs k)\<lparr>screen := c\<rparr>\<rparr>)"
  have k3: "machine (boot k3) = (with_mm p' d)\<lparr>klog := []\<rparr>" "slab_mem k3 = slab_mem k" "irqs k3 = (irqs k)\<lparr>screen := c\<rparr>"
    "percpu_mem k3 = p'" "preempt_count k3 = 0"
    by (simp_all add: k3_def k2_def k1_def set_machine_def)
  have "smp_init k = Done k3"
    using c1(1) p'(1) c(1) sec
    by (simp add: smp_init_def on_percpu_def k1_def [symmetric] section_at_def del: obind_eq_Done_iff)
      (simp add: k1_def d_def p_def k2_def k3_def)
  moreover have "slab_inv (with_mm (machine (boot k3)) (slab_mem k)) (\<lambda>_. []) (\<lambda>_. [])"
    using slab_inv_with_mm [OF mem'(3), of "machine (boot k3)"] inv' eqs(2,3) slab_invD(2) [OF mem'(3)]
    by (simp add: k3(1) taken_def)
  moreover have "n \<le> card (free_set (mem_map p'))"
    using diff_card_le_card_Diff [of "{f}" "free_set (mem_map d)"] mem'(5) unfolding free by simp
  ultimately show ?thesis
    using k3 inv' p'(2) c(2) free mem'(4)
    by (intro exI [of _ k3] exI [of _ c]) (auto simp: memory_ready_def d_def)
qed

lemma memory_ready_irqs [simp]: "memory_ready M n (k\<lparr>irqs := i\<rparr>) \<longleftrightarrow> memory_ready M n k"
  by (simp add: memory_ready_def)

lemma smp_steps_done:
  assumes hw: "local_apic hw" "\<And>r. hw APIC_ICR 0xC4609 r APIC_ICR AND APIC_ICR_BUSY = 0"
    and mem: "memory_ready M (Suc n) k" "2 \<le> n" "M \<le> 1024" and apic: "apic_on 0x10000 k"
    and entries: "16 \<le> unat (GET_IO_APIC_ENTRY (io_regs (irqs k) IO_APIC_VERSION))"
    and sec: "section_at S z (mm_start_percpu (init_mm (boot k))) (mm_end_percpu (init_mm (boot k)))"
    and offs: "length (cpu_offset (percpu_mem k)) = 5"
  shows "\<exists>k'. smp_steps hw k = Done k' \<and> memory_ready M n k' \<and> apic_on 0x20030 k' \<and>
    copies_made S z (memory (percpu_mem k)) (percpu_mem k') \<and> idt_table (machine (boot k')) = idt_table (machine (boot k)) \<and>
    irq_handler (irqs k') = (irq_handler (irqs k))[BSP_TIMER_IRQ := Some Bsp_local_timer] \<and>
    io_regs (irqs k') = (io_regs (irqs k))(0x30 := 0xA030)"
proof -
  have ok: "drivers_ok (irqs k)" "bit (lapic (irqs k) APIC_SPIV) 8" "lapic (irqs k) APIC_LVTT AND 0x300FF = 0x10000"
    "lapic (irqs k) APIC_TASKPRI = 0" "lock_bt (screen (irqs k))"
    using apic by (simp_all add: apic_on_def)
  have "console_up (screen (irqs k))" using ok by (simp add: drivers_ok_def kbd_ok_def kbd_view_def console_up_def)
  from smp_init_done [OF mem this sec offs] obtain k1 c where k1: "smp_init k = Done k1" "memory_ready M n k1"
    "irqs k1 = (irqs k)\<lparr>screen := c\<rparr>" "console_up c" "copies_made S z (memory (percpu_mem k)) (percpu_mem k1)"
    "idt_table (machine (boot k1)) = idt_table (machine (boot k))"
    by blast
  have lb: "drivers_ok (irqs k1)" "lock_bt (screen (irqs k1))"
    using ok(1) k1(3,4) by (simp_all add: drivers_ok_def kbd_ok_def kbd_view_def console_up_def)
  obtain i where i: "init_bsp_timer hw (irqs k1) = Done i" "drivers_ok i" "lapic i APIC_LVTT AND 0x300FF = 0x20030"
    "irq_handler i = (irq_handler (irqs k))[BSP_TIMER_IRQ := Some Bsp_local_timer]"
    "io_regs i = (io_regs (irqs k))(0x30 := 0xA030)" "lapic i APIC_TASKPRI = 0" "bit (lapic i APIC_SPIV) 8"
    "lock_bt (screen i)"
    using init_bsp_timer_done [OF hw(1) lb(1)] lb(2) ok entries k1(3) by auto
  define j where "j = apic_write hw APIC_ICR 0xC4609 (apic_write hw APIC_ICR 0xC4609 (apic_write hw APIC_ICR 0xC4500 i))"
  have "drivers_ok j \<and> lock_bt (screen j) \<and> bit (lapic j APIC_SPIV) 8 \<and> lapic j APIC_LVTT AND 0x300FF = 0x20030 \<and> lapic j APIC_TASKPRI = 0 \<and>
      irq_handler j = irq_handler i \<and> io_regs j = io_regs i"
    using i by (simp add: j_def apic_write_def drivers_ok_def kbd_view_def local_apic.spiv_keep [OF hw(1)]
        local_apic.timer_keep [OF hw(1)] local_apic.pri_keep [OF hw(1)])
  moreover have "smp_steps hw k = Done (k1\<lparr>irqs := j\<rparr>)"
    using k1(1) i(1) wake_ap_done [of hw i] hw(2) by (simp add: smp_steps_def on_irqs_def j_def del: obind_eq_Done_iff)
  ultimately show ?thesis using i k1 by (intro exI [of _ "k1\<lparr>irqs := j\<rparr>"]) (simp add: apic_on_def)
qed

lemma device_steps_done:
  assumes mem: "memory_ready M n k" and apic: "apic_on t k"
    and entries: "1 \<le> unat (GET_IO_APIC_ENTRY (io_regs (irqs k) IO_APIC_VERSION))"
  shows "\<exists>k'. device_steps k = Done k' \<and> memory_ready M n k' \<and> apic_on t k' \<and> percpu_mem k' = percpu_mem k \<and>
    idt_table (machine (boot k')) = idt_table (machine (boot k)) \<and> intr_flag (cpu_regs (machine (boot k'))) \<and>
    irq_handler (irqs k') = (irq_handler (irqs k))[KEYBOARD_IRQ := Some Keyboard_isr] \<and>
    io_regs (irqs k') = (io_regs (irqs k))(0x12 := 0xA021)"
proof -
  have ok: "drivers_ok (irqs k)" "lock_bt (screen (irqs k))" using apic by (simp_all add: apic_on_def)
  then have "console_up (screen (irqs k))" by (simp add: drivers_ok_def kbd_ok_def kbd_view_def console_up_def)
  from printk_ok [OF fits_banner(5) this] obtain c where
    c: "printk ''\<newline>### MAKE PROCESS MANAGEMENT!! ###\<newline>'' [] k = Done (k\<lparr>irqs := (irqs k)\<lparr>screen := c\<rparr>\<rparr>)" "console_up c"
    by blast
  define k1 where "k1 = k\<lparr>irqs := (irqs k)\<lparr>screen := c\<rparr>\<rparr>"
  have "drivers_ok (irqs k1)" "lock_bt (screen (irqs k1))"
    using ok c(2) by (simp_all add: k1_def drivers_ok_def kbd_ok_def kbd_view_def console_up_def)
  then obtain i where i: "keyboard_init (irqs k1) = Done (0, i)" "drivers_ok i" "lock_bt (screen i)" "lapic i = lapic (irqs k)"
    "irq_handler i = (irq_handler (irqs k))[KEYBOARD_IRQ := Some Keyboard_isr]" "io_regs i = (io_regs (irqs k))(0x12 := 0xA021)"
    using keyboard_init_done [of "irqs k1"] entries by (auto simp: k1_def)
  define k2 where "k2 = on_cpu sti (k1\<lparr>irqs := i\<rparr>)"
  have "device_steps k = Done k2"
    using c(1) i(1) by (simp add: device_steps_def on_irqs_def k1_def [symmetric] k2_def del: obind_eq_Done_iff)
  moreover have k2: "boot k2 = (boot k)\<lparr>machine := (machine (boot k))\<lparr>cpu_regs := sti (cpu_regs (machine (boot k)))\<rparr>\<rparr>"
    "irqs k2 = i" "percpu_mem k2 = percpu_mem k" "slab_mem k2 = slab_mem k"
    by (simp_all add: k2_def k1_def on_cpu_def set_machine_def)
  ultimately show ?thesis
    using mem apic i by (intro exI [of _ k2]) (simp add: memory_ready_def apic_on_def sti_def)
qed

subsection \<open>Properties\<close>

text \<open>
  The platform the kernel is made for: the loader's parameters are as \<^const>\<open>firmware_ok\<close> asks, with the
  per-processor section inside the kernel image; the MP tables list the boot processor, with
  APIC identifier zero; the local APIC reports a sane version and delivers its messages at
  once; the I/O APIC has at least 17 entries; and the kernel starts with cleared variables.
\<close>

definition platform_ok :: "lapic_hw \<Rightarrow> firmware \<Rightarrow> nat \<Rightarrow> nat \<Rightarrow> nat \<Rightarrow> nat \<Rightarrow> bool" where
  "platform_ok hw fw M B S z \<longleftrightarrow>
     local_apic hw \<and> (\<forall>r. hw APIC_ICR 0xC4609 r APIC_ICR AND APIC_ICR_BUSY = 0) \<and> firmware_ok fw M B \<and>
     section_at S z (boot_params fw PARAMS_OFFSET_START_PERCPU) (boot_params fw PARAMS_OFFSET_END_PERCPU) \<and>
     0x08 \<notin> set (cpu_name fw)"

definition fresh :: "firmware \<Rightarrow> kernel \<Rightarrow> bool" where
  "fresh fw k \<longleftrightarrow>
     boot_processor_listed fw (boot k) \<and> klog (machine (boot k)) = [] \<and>
     (\<exists>z0. node_zones (contig_page_data (machine (boot k))) = [z0] \<and> free_pages_z z0 = 0) \<and>
     x86_vendor_id (boot_cpu_data (boot k)) = replicate 16 0 \<and>
     length (video_mem (screen (irqs k))) = 2000 \<and> length (sz (screen (irqs k))) = 128 \<and>
     status (irqs k) = 0 \<and> length (cpu_offset (percpu_mem k)) = 5 \<and>
     lapic (irqs k) APIC_ID = 0 \<and> GET_APIC_VERSION (lapic (irqs k) APIC_LVR) \<notin> {0, 0xff} \<and>
     2 \<le> GET_APIC_MAXLVT (lapic (irqs k) APIC_LVR) \<and> GET_APIC_MAXLVT (lapic (irqs k) APIC_LVR) \<noteq> 0xff \<and>
     16 \<le> unat (GET_IO_APIC_ENTRY (io_regs (irqs k) IO_APIC_VERSION))"

lemma kernel_boots_done:
  assumes platform: "platform_ok hw fw M B S z" and fresh: "fresh fw k" and lb: "lock_bt (screen (irqs k))"
  shows "\<exists>k'. start_kernel hw fw 0 k = Done k' \<and> intr_flag (cpu_regs (machine (boot k'))) \<and>
    mm_inv (machine (boot k')) \<and> slab_inv (with_mm (machine (boot k')) (slab_mem k')) (\<lambda>_. []) (\<lambda>_. []) \<and>
    free_set (mem_map (machine (boot k'))) \<subseteq> {1..<0x9f} \<union> {0x211 + M div 2 + (18432 * M + 4106) div 4096..<256 * M} \<and>
    155 \<le> card (free_set (mem_map (machine (boot k')))) \<and>
    lock_bt (screen (irqs k')) \<and>
    drivers_ok (irqs k') \<and> bit (lapic (irqs k') APIC_SPIV) 8 \<and> lapic (irqs k') APIC_LVTT AND 0x300FF = 0x20030 \<and>
    lapic (irqs k') APIC_TASKPRI = 0 \<and>
    irq_handler (irqs k') = (replicate 32 (Some Ignore_isr_handler))[16 := Some Bsp_local_timer, 1 := Some Keyboard_isr] \<and>
    io_regs (irqs k') 0x12 = 0xA021 \<and> io_regs (irqs k') 0x30 = 0xA030 \<and>
    (\<forall>v<256. gate_handler (idt_table (machine (boot k')) ! v) = isr_addr fw (fst (vector_entry v))) \<and>
    copies_made S z (memory (percpu_mem k)) (percpu_mem k')"
proof -
  have p: "local_apic hw" "\<forall>r. hw APIC_ICR 0xC4609 r APIC_ICR AND APIC_ICR_BUSY = 0" "firmware_ok fw M B"
    "section_at S z (boot_params fw PARAMS_OFFSET_START_PERCPU) (boot_params fw PARAMS_OFFSET_END_PERCPU)"
    "0x08 \<notin> set (cpu_name fw)"
    using platform by (simp_all add: platform_ok_def)
  define k0 where "k0 = on_cpu cli k"
  have k0: "irqs k0 = irqs k" "percpu_mem k0 = percpu_mem k" "boot k0 =
      (boot k)\<lparr>machine := (machine (boot k))\<lparr>cpu_regs := cli (cpu_regs (machine (boot k)))\<rparr>\<rparr>"
    by (simp_all add: k0_def on_cpu_def set_machine_def)
  obtain c1 where c1: "banner k0 = Done (k0\<lparr>irqs := (irqs k)\<lparr>screen := c1\<rparr>\<rparr>)" "console_up c1"
    using banner_done [of k0] fresh lb k0(1) by (auto simp: fresh_def)
  define k1 where "k1 = k0\<lparr>irqs := (irqs k)\<lparr>screen := c1\<rparr>\<rparr>"
  have listed: "boot_processor_listed fw (boot k1)"
    using fresh by (simp add: fresh_def boot_processor_listed_def k1_def k0(3))
  obtain z0 where "node_zones (contig_page_data (machine (boot k1))) = [z0]" "free_pages_z z0 = 0"
    using fresh by (auto simp: fresh_def k1_def k0(3))
  from memory_steps_done [OF p(3) listed this _ p(5)]
  obtain k2 mp' c2 rest where k2: "memory_steps fw k1 = Done k2" "memory_ready M 156 k2"
    "irqs k2 = (irqs k)\<lparr>mp := mp', idt := idt_table (machine (boot k2)), screen := c2\<rparr>" "console_up c2"
    "boot_cpu_id mp' = 0" "x86_cpu_to_apicid mp' = 0 # rest" "idt_table (machine (boot k2)) = initial_idt (isr_addr fw)"
    "percpu_mem k2 = percpu_mem k" "mm_start_percpu (init_mm (boot k2)) = boot_params fw PARAMS_OFFSET_START_PERCPU"
    "mm_end_percpu (init_mm (boot k2)) = boot_params fw PARAMS_OFFSET_END_PERCPU"
    using fresh c1(2) k0 by (auto simp: fresh_def k1_def)
  obtain i where i: "interrupt_steps hw (isr_addr fw) k2 =
      Done (set_machine ((machine (boot k2))\<lparr>idt_table := declare_irqs (isr_addr fw) (initial_idt (isr_addr fw))\<rparr>) (k2\<lparr>irqs := i\<rparr>))"
    "apic_on 0x10000 (k2\<lparr>irqs := i\<rparr>)" "io_regs i = io_regs (irqs k)" "irq_handler i = replicate MAX_IRQ (Some Ignore_isr_handler)"
    using interrupt_steps_done [OF p(1), of k2 rest "isr_addr fw"] fresh k2(3-7) by (auto simp: fresh_def)
  define k3 where "k3 = set_machine ((machine (boot k2))\<lparr>idt_table := declare_irqs (isr_addr fw) (initial_idt (isr_addr fw))\<rparr>) (k2\<lparr>irqs := i\<rparr>)"
  have k3: "memory_ready M 156 k3" "apic_on 0x10000 k3" "irqs k3 = i" "percpu_mem k3 = percpu_mem k"
    "init_mm (boot k3) = init_mm (boot k2)"
    "idt_table (machine (boot k3)) = declare_irqs (isr_addr fw) (initial_idt (isr_addr fw))"
    using k2(2,8) i(2)
    by (simp_all add: k3_def set_machine_def memory_ready_def apic_on_def)
  have M: "M \<le> 1024" using p(3) by (simp add: firmware_ok_def)
  have entries: "16 \<le> unat (GET_IO_APIC_ENTRY (io_regs i IO_APIC_VERSION))" using fresh i(3) by (simp add: fresh_def)
  obtain k4 where k4: "smp_steps hw k3 = Done k4" "memory_ready M 155 k4" "apic_on 0x20030 k4"
    "copies_made S z (memory (percpu_mem k)) (percpu_mem k4)"
    "idt_table (machine (boot k4)) = declare_irqs (isr_addr fw) (initial_idt (isr_addr fw))"
    "irq_handler (irqs k4) = (irq_handler i)[BSP_TIMER_IRQ := Some Bsp_local_timer]"
    "io_regs (irqs k4) = (io_regs i)(0x30 := 0xA030)"
    using smp_steps_done [OF p(1), of M 155 k3 S z] p(2,4) k3 M entries k2(9,10) fresh by (auto simp: fresh_def)
  have "io_regs (irqs k4) IO_APIC_VERSION = io_regs i IO_APIC_VERSION" unfolding k4(7) by (simp add: kconst)
  then obtain k5 where k5: "device_steps k4 = Done k5" "memory_ready M 155 k5" "apic_on 0x20030 k5" "percpu_mem k5 = percpu_mem k4"
    "idt_table (machine (boot k5)) = idt_table (machine (boot k4))" "intr_flag (cpu_regs (machine (boot k5)))"
    "irq_handler (irqs k5) = (irq_handler (irqs k4))[KEYBOARD_IRQ := Some Keyboard_isr]"
    "io_regs (irqs k5) = (io_regs (irqs k4))(0x12 := 0xA021)"
    using device_steps_done [OF k4(2,3)] entries by auto
  have "start_kernel hw fw 0 k = Done k5"
    using c1(1) k2(1) i(1) k4(1) k5(1)
    by (simp add: start_kernel_def k0_def [symmetric] k1_def [symmetric] k3_def [symmetric] del: obind_eq_Done_iff)
  then show ?thesis
    using k5 k4 i(4) initial_vectors [of _ "isr_addr fw"]
    by (intro exI [of _ k5]) (simp add: memory_ready_def apic_on_def boot_free_def mem_map_pages_def IDT_SIZE_def kconst)
qed

lemma kernel_traps:
  assumes "fresh fw k" "\<not> lock_bt (screen (irqs k))"
  shows "start_kernel hw fw 0 k = Fault"
proof -
  have "irqs (on_cpu cli k) = irqs k" by (simp add: on_cpu_def set_machine_def)
  then have "banner (on_cpu cli k) = Fault" using banner_trap [of "on_cpu cli k"] assms by (simp add: fresh_def)
  then show ?thesis by (simp add: start_kernel_def)
qed


text \<open>
  Supplement (\<^verbatim>\<open>start_kernel\<close>, the other processors). Any other index is that of a processor that prints a line,
  counts in the last cell of the first line for ever and never reaches the set-up; each round changes
  nothing but this cell.
\<close>

theorem other_processors_count:
  assumes "screen_ok (screen (irqs k))" "index \<noteq> 0"
  shows "start_kernel hw fw index k = Halt \<and>
    (\<exists>c k'. ap_main (on_cpu cli k) = Done k' \<and> screen_ok c \<and>
       irqs k' = (irqs k)\<lparr>screen := c\<lparr>video_mem := (video_mem c)[79 := video_mem c ! 79 + 1]\<rparr>\<rparr>)"
proof -
  have i: "irqs (on_cpu cli k) = irqs k" by (simp add: on_cpu_def set_machine_def)
  have "render (lock_bt (screen (irqs k))) (bytes ''Hello!! I am AP!! I am running??\<newline>'') [] =
      Some (bytes ''Hello!! I am AP!! I am running??\<newline>'')"
    by (simp add: bytes_def conversion_def)
  from printf_ok [OF assms(1) this] obtain c where
    c: "printk ''Hello!! I am AP!! I am running??\<newline>'' [] (on_cpu cli k) =
      Done ((on_cpu cli k)\<lparr>irqs := (irqs k)\<lparr>screen := c\<rparr>\<rparr>)" "screen_ok c"
    by (auto simp: printk_def on_irqs_def on_screen_def i bytes_def)
  then have "ap_main (on_cpu cli k) =
      Done ((on_cpu cli k)\<lparr>irqs := (irqs k)\<lparr>screen := c\<lparr>video_mem := (video_mem c)[79 := video_mem c ! 79 + 1]\<rparr>\<rparr>\<rparr>)"
    by (simp add: ap_main_def on_irqs_def on_screen_def ap_tick_def screen_ok_def outcome_simps del: obind_eq_Done_iff)
  then show ?thesis using c(2) assms(2) by (auto simp: start_kernel_def simp del: obind_eq_Done_iff)
qed

subsection \<open>The running kernel\<close>

text \<open>
  A history of interrupts that the idle processor takes while interrupts are enabled, each of which
  returns: the number of each, and the byte the keyboard controller holds.
\<close>

inductive serving :: "lapic_hw \<Rightarrow> kernel \<Rightarrow> (nat \<times> u8) list \<Rightarrow> kernel \<Rightarrow> bool" for hw k0 where
  idle: "serving hw k0 [] k0"
| interrupt: "serving hw k0 hist k \<Longrightarrow> intr_flag (cpu_regs (machine (boot k))) \<Longrightarrow> n < MAX_IRQ \<Longrightarrow>
    on_irqs (handle_irq hw scan n) k = Done k' \<Longrightarrow> serving hw k0 (hist @ [(n, scan)]) k'"

definition boot_handlers :: "irq_fn option list" where
  "boot_handlers = (replicate 32 (Some Ignore_isr_handler))[16 := Some Bsp_local_timer, 1 := Some Keyboard_isr]"

lemma boot_handlers_nth:
  assumes "n < MAX_IRQ" "lock_bt (screen s)"
  shows "\<exists>f. boot_handlers ! n = Some f \<and> (handler_able scan f n s \<longleftrightarrow> \<not> (n = KEYBOARD_IRQ \<and> erases_corner scan s))"
  using assms by (auto simp: boot_handlers_def nth_list_update kconst)

text \<open>The stores to the local APIC for one interrupt.\<close>

definition stores :: "nat \<times> u8 \<Rightarrow> (u64 \<times> u32) list" where
  "stores e = [(APIC_TASKPRI, of_nat (fst e + 0x20)), (APIC_EOI, 0), (APIC_TASKPRI, 0)]"

definition alert :: "kernel \<Rightarrow> bool" where
  "alert k \<longleftrightarrow> apic_on 0x20030 k \<and> irq_handler (irqs k) = boot_handlers"

lemma serve_one:
  assumes hw: "local_apic hw" and k: "alert k" and n: "n < MAX_IRQ"
  shows "if n = KEYBOARD_IRQ \<and> erases_corner scan (irqs k) then on_irqs (handle_irq hw scan n) k = Fault
    else \<exists>i. on_irqs (handle_irq hw scan n) k = Done (k\<lparr>irqs := i\<rparr>) \<and> alert (k\<lparr>irqs := i\<rparr>) \<and>
      lapic_log i = lapic_log (irqs k) @ stores (n, scan)"
proof -
  have ok: "drivers_ok (irqs k)" "lock_bt (screen (irqs k))" "bit (lapic (irqs k) APIC_SPIV) 8"
    "lapic (irqs k) APIC_LVTT AND 0x300FF = 0x20030" "lapic (irqs k) APIC_TASKPRI = 0" "irq_handler (irqs k) = boot_handlers"
    using k by (simp_all add: alert_def apic_on_def)
  obtain f where f: "irq_handler (irqs k) ! n = Some f"
    "handler_able scan f n (irqs k) \<longleftrightarrow> \<not> (n = KEYBOARD_IRQ \<and> erases_corner scan (irqs k))"
    using boot_handlers_nth [OF n ok(2), of scan] ok(6) by auto
  show ?thesis
  proof (cases "n = KEYBOARD_IRQ \<and> erases_corner scan (irqs k)")
    case True
    then have "handle_irq hw scan n (irqs k) = Fault" using handle_irq_refused [OF ok(1) n f(1)] f(2) by blast
    then show ?thesis unfolding if_P [OF True] by (simp add: on_irqs_def)
  next
    case False
    then have "handler_able scan f n (irqs k)" using f(2) by blast
    from handle_irq_served [OF hw ok(1) n _ f(1) this]
    obtain i where i: "handle_irq hw scan n (irqs k) = Done i" "drivers_ok i"
      "lapic_log i = lapic_log (irqs k) @ stores (n, scan)" "lapic i APIC_TASKPRI = 0" "irq_handler i = boot_handlers"
      "lapic i APIC_LVTT AND 0x300FF = 0x20030" "bit (lapic i APIC_SPIV) 8" "lock_bt (screen i)"
      using ok by (auto simp: stores_def)
    show ?thesis unfolding if_not_P [OF False]
      using i by (intro exI [of _ i]) (simp add: on_irqs_def alert_def apic_on_def)
  qed
qed

lemma serving_alert:
  assumes "serving hw k0 hist k" "local_apic hw" "alert k0"
  shows "alert k \<and> (\<exists>i. k = k0\<lparr>irqs := i\<rparr>) \<and> lapic_log (irqs k) = lapic_log (irqs k0) @ concat (map stores hist)"
  using assms(1)
proof (induction rule: serving.induct)
  case idle
  then show ?case using assms(3) by (auto intro: exI [of _ "irqs k0"])
next
  case (interrupt hist k n scan k')
  then obtain i where "k' = k\<lparr>irqs := i\<rparr>" "alert (k\<lparr>irqs := i\<rparr>)" "lapic_log i = lapic_log (irqs k) @ stores (n, scan)"
    using serve_one [OF assms(2), of k n scan] by (auto split: if_splits)
  then show ?case using interrupt.IH by auto
qed

text \<open>
  C5 (the running kernel). Once \<^verbatim>\<open>start_kernel\<close> has returned to the idle loop, the kernel keeps
  serving interrupts: after any history of the 32 interrupts and any bytes of the keyboard, all of
  which returned, the drivers and the APIC are in the state in which the start has left them, the
  rest of the kernel is unchanged, and every interrupt has been acknowledged once between a raise
  and a reset of the task priority. The next interrupt, whatever its number and its byte, returns
  as well with one exception: a key that deletes a character while the cursor is on the first cell
  of the screen makes the driver write outside of it.
\<close>

theorem kernel_serves:
  assumes "platform_ok hw fw M B S z" "fresh fw k" "start_kernel hw fw 0 k = Done k0" "serving hw k0 hist k1"
    and next_irq: "n < MAX_IRQ"
  shows "\<exists>i. k1 = k0\<lparr>irqs := i\<rparr> \<and> intr_flag (cpu_regs (machine (boot k1))) \<and> drivers_ok i \<and>
    bit (lapic i APIC_SPIV) 8 \<and> lapic i APIC_LVTT AND 0x300FF = 0x20030 \<and> lapic i APIC_TASKPRI = 0 \<and>
    irq_handler i = irq_handler (irqs k0) \<and>
    lapic_log i = lapic_log (irqs k0) @
      concat (map (\<lambda>(m, _). [(APIC_TASKPRI, of_nat (m + 0x20)), (APIC_EOI, 0), (APIC_TASKPRI, 0)]) hist) \<and>
    (if n = KEYBOARD_IRQ \<and> cursor_offset (screen i) = 0 \<and> deletes scan (status i)
     then on_irqs (handle_irq hw scan n) k1 = Fault
     else \<exists>k2. on_irqs (handle_irq hw scan n) k1 = Done k2)"
proof -
  have hw: "local_apic hw" using assms(1) by (simp add: platform_ok_def)
  have "lock_bt (screen (irqs k))" using kernel_traps [OF assms(2)] assms(3) by fastforce
  then have k0: "alert k0" "intr_flag (cpu_regs (machine (boot k0)))"
    using kernel_boots_done [OF assms(1,2)] assms(3) by (auto simp: alert_def apic_on_def boot_handlers_def)
  have k1: "alert k1" "\<exists>i. k1 = k0\<lparr>irqs := i\<rparr>" "lapic_log (irqs k1) = lapic_log (irqs k0) @ concat (map stores hist)"
    using serving_alert [OF assms(4) hw k0(1)] by blast+
  then obtain i where i: "k1 = k0\<lparr>irqs := i\<rparr>" "irqs k1 = i" by auto
  have st: "stores = (\<lambda>(m, _). [(APIC_TASKPRI, of_nat (m + 0x20)), (APIC_EOI, 0), (APIC_TASKPRI, 0)])"
    by (simp add: stores_def fun_eq_iff)
  have "if n = KEYBOARD_IRQ \<and> cursor_offset (screen i) = 0 \<and> deletes scan (status i)
     then on_irqs (handle_irq hw scan n) k1 = Fault
     else \<exists>k2. on_irqs (handle_irq hw scan n) k1 = Done k2"
    using serve_one [OF hw k1(1) next_irq, of scan] unfolding erases_corner_def i(2) by (auto split: if_splits)
  then show ?thesis
    using k0 k1(1,3) i unfolding st by (intro exI [of _ i]) (simp add: alert_def apic_on_def)
qed

subsection \<open>Witnesses\<close>

text \<open>A machine with 128 megabytes, and a section of sixteen bytes inside the kernel image.\<close>

definition demo_fw0 :: firmware where
  "demo_fw0 = demo_fw
     \<lparr>boot_params := (boot_params demo_fw)(PARAMS_OFFSET_START_PERCPU := va 0x180000, PARAMS_OFFSET_END_PERCPU := va 0x180010),
      bios := demo_bios (demo_header 64 @ encode (Processor (demo_cpu\<lparr>cpu_apicid := 0\<rparr>)))\<rparr>"

definition demo_kernel :: kernel where
  "demo_kernel =
     \<lparr>boot = demo_boot, slab_mem = small_slab, percpu_mem = demo_percpu,
      irqs = demo_irq\<lparr>irq_handler := [], lapic := (\<lambda>_. 0)(APIC_LVR := 0x50014, APIC_SPIV := 0xFF)\<rparr>, preempt_count = 7\<rparr>"

lemma demo_listed: "boot_processor_listed demo_fw0 demo_boot"
  unfolding boot_processor_listed_def
proof
  fix log
  let ?c = "demo_cpu\<lparr>cpu_apicid := 0\<rparr>"
  have "cpu_flag ?c = 3" by (simp add: demo_cpu_def)
  from demo_mp_spec_init [OF this, of log]
  obtain s' where s': "mp_spec_init (demo_bios (demo_header 64 @ encode (Processor ?c))) (demo_mp\<lparr>mp_log := log\<rparr>) = Done s'"
    "boot_cpu_id s' = 0" "x86_cpu_to_apicid s' = [0, 0xFF]"
    "mp_log s' = log @ [(''Intel Multiprocessor Specification v1.%d\<newline>'', [ArgInt 4]),
      (''Processor #%d%s is found\<newline>'', [byte_arg 0, ArgStr '' (Bootup-CPU)'']),
      (''cpu=%d apicid=%d\<newline>'', [ArgInt 0, byte_arg 0])]"
    by (auto simp del: encode.simps)
  have "list_all fits [(''Intel Multiprocessor Specification v1.%d\<newline>'', [ArgInt 4]),
      (''Processor #%d%s is found\<newline>'', [byte_arg 0, ArgStr '' (Bootup-CPU)'']), (''cpu=%d apicid=%d\<newline>'', [ArgInt 0, byte_arg 0])]"
    using dec_str_length [of 4] dec_str_length [of 0]
    by (simp add: fits_def bytes_def conversion_def dec_str_clean byte_arg_def)
  then show "\<exists>mp' ks. mp_spec_init (bios demo_fw0) (smp_tables demo_boot\<lparr>mp_log := log\<rparr>) = Done mp' \<and> mp_log mp' = log @ ks \<and>
      list_all fits ks \<and> boot_cpu_id mp' = 0 \<and> (\<exists>rest. x86_cpu_to_apicid mp' = 0 # rest)"
    using s' by (intro exI [of _ s']) (simp add: demo_fw0_def demo_boot_def del: encode.simps)
qed

lemma demo_platform: "platform_ok xapic demo_fw0 128 8 0x180000 16"
proof -
  have "firmware_ok demo_fw0 128 8"
    using demo_fw_ok unfolding firmware_ok_def by (simp add: demo_fw0_def kconst)
  moreover have "0x08 \<notin> set (cpu_name demo_fw0)" by (simp add: demo_fw0_def demo_fw_def) code_simp
  moreover have "xapic APIC_ICR 0xC4609 r APIC_ICR AND APIC_ICR_BUSY = 0" for r by (simp add: xapic_def lvt_regs_def kconst)
  moreover have "section_at 0x180000 16 (boot_params demo_fw0 PARAMS_OFFSET_START_PERCPU) (boot_params demo_fw0 PARAMS_OFFSET_END_PERCPU)"
    by (simp add: section_at_def demo_fw0_def kconst)
  ultimately show ?thesis using xapic.local_apic_axioms by (simp add: platform_ok_def)
qed

lemma demo_fresh: "fresh demo_fw0 demo_kernel"
proof -
  have "GET_APIC_VERSION 0x50014 = 0x14" "GET_APIC_MAXLVT 0x50014 = 5"
    by (simp_all add: GET_APIC_VERSION_def GET_APIC_MAXLVT_def)
  then show ?thesis
    using demo_listed demo_entries demo_percpu_sel(3)
    by (simp add: fresh_def demo_kernel_def demo_boot_def demo_irq_def boot_desc_def blank_console_def)
qed

lemma demo_lock_bt: "lock_bt (screen (irqs demo_kernel))"
  by (simp add: demo_kernel_def demo_irq_def blank_console_def)


theorem other_processors_count_witness: "start_kernel xapic demo_fw0 1 demo_kernel = Halt"
proof -
  have "screen_ok (screen (irqs demo_kernel))" by (simp add: demo_kernel_def demo_irq_def blank_console_ok)
  then show ?thesis using other_processors_count [of demo_kernel 1] by simp
qed

theorem kernel_serves_witness:
  "\<exists>k0 k1 k2. start_kernel xapic demo_fw0 0 demo_kernel = Done k0 \<and> serving xapic k0 [(16, 0)] k1 \<and>
     lapic_log (irqs k1) = lapic_log (irqs k0) @ [(APIC_TASKPRI, 0x30), (APIC_EOI, 0), (APIC_TASKPRI, 0)] \<and>
     on_irqs (handle_irq xapic 0 16) k1 = Done k2"
proof -
  obtain k0 where k0: "start_kernel xapic demo_fw0 0 demo_kernel = Done k0" "intr_flag (cpu_regs (machine (boot k0)))"
    using kernel_boots_done [OF demo_platform demo_fresh demo_lock_bt] by blast
  have n: "16 < MAX_IRQ" "16 \<noteq> KEYBOARD_IRQ" by (simp_all add: kconst)
  obtain k1 where "on_irqs (handle_irq xapic 0 16) k0 = Done k1"
    using kernel_serves [OF demo_platform demo_fresh k0(1) serving.idle n(1), of 0] n(2) by auto
  then have "serving xapic k0 ([] @ [(16, 0)]) k1" by (rule serving.interrupt [OF serving.idle k0(2) n(1)])
  then have "serving xapic k0 [(16, 0)] k1" by simp
  from kernel_serves [OF demo_platform demo_fresh k0(1) this n(1), of 0] this k0(1) n(2) show ?thesis by auto
qed

end
