(* ===== verification/Port_IO.thy ===== *)
theory Port_IO
  imports Mp_Spec
begin

text \<open>
  Device access of \<^verbatim>\<open>include/io.h\<close>: the ports, and the reads and writes of memory-mapped registers of
  one, two, four and eight bytes in little-endian order. Every access of two bytes or more is
  composed of two of half the width.
\<close>

subsection \<open>Ports\<close>

text \<open>
  The accesses to ports in their order. What a device answers is a parameter: it may depend on
  everything that happened before.
\<close>

datatype port_event = Out_byte u16 u8 | Out_word u16 u16 | In_byte u16 u8 | In_word u16 u16

type_synonym device = "port_event list \<Rightarrow> u16 \<Rightarrow> u16"

definition inb :: "device \<Rightarrow> u16 \<Rightarrow> port_event list \<Rightarrow> u8 \<times> port_event list" where
  "inb dev port h = (let v = ucast (dev h port) in (v, h @ [In_byte port v]))"

definition inw :: "device \<Rightarrow> u16 \<Rightarrow> port_event list \<Rightarrow> u16 \<times> port_event list" where
  "inw dev port h = (let v = dev h port in (v, h @ [In_word port v]))"

definition outb_port :: "u16 \<Rightarrow> u8 \<Rightarrow> port_event list \<Rightarrow> port_event list" where
  "outb_port port val h = h @ [Out_byte port val]"

definition outw :: "u16 \<Rightarrow> u16 \<Rightarrow> port_event list \<Rightarrow> port_event list" where
  "outw port val h = h @ [Out_word port val]"

subsection \<open>Memory-mapped registers\<close>

definition readb :: "bmem \<Rightarrow> u64 \<Rightarrow> u8" where
  "readb m addr = m addr"

definition readw :: "bmem \<Rightarrow> u64 \<Rightarrow> u16" where
  "readw m addr = ucast (readb m addr) OR push_bit 8 (ucast (readb m (addr + 1)))"

definition readl :: "bmem \<Rightarrow> u64 \<Rightarrow> u32" where
  "readl m addr = ucast (readw m addr) OR push_bit 16 (ucast (readw m (addr + 2)))"

definition readq :: "bmem \<Rightarrow> u64 \<Rightarrow> u64" where
  "readq m addr = ucast (readl m addr) OR push_bit 32 (ucast (readl m (addr + 4)))"

definition writeb :: "u8 \<Rightarrow> u64 \<Rightarrow> bmem \<Rightarrow> bmem" where
  "writeb b addr m = m(addr := b)"

definition writew :: "u16 \<Rightarrow> u64 \<Rightarrow> bmem \<Rightarrow> bmem" where
  "writew b addr m = writeb (ucast (drop_bit 8 b)) (addr + 1) (writeb (ucast b) addr m)"

definition writel :: "u32 \<Rightarrow> u64 \<Rightarrow> bmem \<Rightarrow> bmem" where
  "writel b addr m = writew (ucast (drop_bit 16 b)) (addr + 2) (writew (ucast b) addr m)"

definition writeq :: "u64 \<Rightarrow> u64 \<Rightarrow> bmem \<Rightarrow> bmem" where
  "writeq b addr m = writel (ucast (drop_bit 32 b)) (addr + 4) (writel (ucast b) addr m)"

subsection \<open>Lemmas\<close>

text \<open>A word is its two halves.\<close>

lemma halves_16: "ucast (ucast (v::u16) :: u8) OR push_bit 8 (ucast (ucast (drop_bit 8 v) :: u8)) = v"
  by (rule bit_word_eqI) (auto simp: bit_simps)

lemma halves_32: "ucast (ucast (v::u32) :: u16) OR push_bit 16 (ucast (ucast (drop_bit 16 v) :: u16)) = v"
  by (rule bit_word_eqI) (auto simp: bit_simps)

lemma halves_64: "ucast (ucast (v::u64) :: u32) OR push_bit 32 (ucast (ucast (drop_bit 32 v) :: u32)) = v"
  by (rule bit_word_eqI) (auto simp: bit_simps)

text \<open>Accesses at different distances from one address do not touch each other.\<close>

lemma read_writew: "readw (writew v a m) a = v"
  by (simp add: readw_def readb_def writew_def writeb_def halves_16)

lemma readw_other:
  assumes "x \<noteq> a" "x + 1 \<noteq> a" "x \<noteq> a + 1"
  shows "readw (writew v a m) x = readw m x"
  using assms by (simp add: readw_def readb_def writew_def writeb_def)

lemma read_writel: "readl (writel v a m) a = v"
proof -
  have "readw (writel v a m) a = ucast v"
    unfolding writel_def by (subst readw_other) (simp_all add: read_writew add.assoc)
  moreover have "readw (writel v a m) (a + 2) = ucast (drop_bit 16 v)"
    by (simp add: writel_def read_writew)
  ultimately show ?thesis by (simp add: readl_def halves_32)
qed

lemma readl_other:
  assumes "\<And>i j. i < 4 \<Longrightarrow> j < 4 \<Longrightarrow> x + of_nat i \<noteq> a + of_nat j"
  shows "readl (writel v a m) x = readl m x"
  using assms [of 0 0] assms [of 0 1] assms [of 0 2] assms [of 0 3] assms [of 1 0] assms [of 1 1] assms [of 1 2] assms [of 1 3]
    assms [of 2 0] assms [of 2 1] assms [of 2 2] assms [of 2 3] assms [of 3 0] assms [of 3 1] assms [of 3 2] assms [of 3 3]
  by (simp add: readl_def writel_def readw_def readb_def writew_def writeb_def add.assoc)

lemma readl_writeq: "readl (writeq v a m) a = ucast v" "readl (writeq v a m) (a + 4) = ucast (drop_bit 32 v)"
proof -
  have "a + of_nat i \<noteq> a + 4 + of_nat j" if "i < 4" "j < 4" for i j
  proof
    assume "a + of_nat i = a + 4 + of_nat j"
    then have "(of_nat i :: u64) = of_nat (4 + j)" by simp
    then have "take_bit 64 i = take_bit 64 (4 + j)" by (simp only: word_of_nat_eq_iff) simp
    then show False using that by (simp add: take_bit_nat_eq_self)
  qed
  then show "readl (writeq v a m) a = ucast v"
    unfolding writeq_def by (subst readl_other) (simp_all add: read_writel)
  show "readl (writeq v a m) (a + 4) = ucast (drop_bit 32 v)"
    by (simp add: writeq_def read_writel)
qed

lemma read_writeq: "readq (writeq v a m) a = v"
  by (simp add: readq_def readl_writeq halves_64)

lemma writeb_frame: "x \<notin> region a 1 \<Longrightarrow> writeb v a m x = m x"
  by (auto simp: writeb_def region_def)

lemma region_shift_sub: "k + n \<le> l \<Longrightarrow> l \<le> 2 ^ 64 \<Longrightarrow> region (a + of_nat k) n \<subseteq> region a l"
  using region_sub [of k n a] region_mono [of "k + n" l a] by auto

lemma writew_frame: "x \<notin> region a 2 \<Longrightarrow> writew v a m x = m x"
  by (auto simp: region_2 writew_def writeb_def)

lemma writel_frame: "x \<notin> region a 4 \<Longrightarrow> writel v a m x = m x"
  unfolding writel_def using region_shift_sub [of 2 2 4 a] region_mono [of 2 4 a]
  by (subst writew_frame, force, subst writew_frame) auto

lemma writeq_frame: "x \<notin> region a 8 \<Longrightarrow> writeq v a m x = m x"
  unfolding writeq_def using region_shift_sub [of 4 4 8 a] region_mono [of 4 8 a]
  by (subst writel_frame, force, subst writel_frame) auto

text \<open>The MP parser reads its tables by the same accesses.\<close>

lemma rd16_readw: "rd16 = readw" and rd32_readl: "rd32 = readl"
  by (simp_all add: fun_eq_iff rd16_def rd32_def readw_def readl_def readb_def)

text \<open>
  Supplement (\<^verbatim>\<open>readb\<close> to \<^verbatim>\<open>writeq\<close>). At each of the four widths a read behind a write at the same address gives
  the value written, at any address; the write changes no byte outside the ones it covers; and a value
  of eight bytes is its lower half at the address and its upper half four bytes behind it.
\<close>

theorem memory_mapped_round_trip:
  "readb (writeb v8 a m) a = v8 \<and> readw (writew v16 a m) a = v16 \<and>
   readl (writel v32 a m) a = v32 \<and> readq (writeq v64 a m) a = v64 \<and>
   {x. writeb v8 a m x \<noteq> m x} \<subseteq> region a 1 \<and> {x. writew v16 a m x \<noteq> m x} \<subseteq> region a 2 \<and>
   {x. writel v32 a m x \<noteq> m x} \<subseteq> region a 4 \<and> {x. writeq v64 a m x \<noteq> m x} \<subseteq> region a 8 \<and>
   readl (writeq v64 a m) a = ucast v64 \<and> readl (writeq v64 a m) (a + 4) = ucast (drop_bit 32 v64)"
proof -
  have "readb (writeb v8 a m) a = v8" by (simp add: readb_def writeb_def)
  then show ?thesis
    using writeb_frame [of _ a v8 m] writew_frame [of _ a v16 m] writel_frame [of _ a v32 m] writeq_frame [of _ a v64 m]
    by (simp add: read_writew read_writel read_writeq readl_writeq) blast
qed

end
