(* ===== verification/C_Layout.thy ===== *)
theory C_Layout
  imports Caos_Prelude
begin

text \<open>
  The memory layout of the C structures of the kernel. A type is described as it is declared, and
  its alignment, its size and the position of its members follow from the rules of the x86-64 ABI:
  members in order, each at the next multiple of its alignment unless the structure is packed,
  bit fields of an \<^verbatim>\<open>unsigned int\<close> one behind the other from the lowest bit on, and all members of
  a union at its start.
\<close>

subsection \<open>Types\<close>

text \<open>
  A scalar of so many bytes; a bit field of an \<^verbatim>\<open>unsigned int\<close>; an array; a structure, packed or
  not; a union. All positions and sizes are in bits.
\<close>

datatype cty = Scalar nat | Bits nat | Array nat cty | Struct bool "(string \<times> cty) list" | Union "(string \<times> cty) list"

fun align_of :: "cty \<Rightarrow> nat" and aligns :: "(string \<times> cty) list \<Rightarrow> nat" where
  "align_of (Scalar n) = 8 * n"
| "align_of (Bits w) = 32"
| "align_of (Array n t) = align_of t"
| "align_of (Struct packed ms) = (if packed then 8 else aligns ms)"
| "align_of (Union ms) = aligns ms"
| "aligns [] = 8"
| "aligns ((f, t) # ms) = max (align_of t) (aligns ms)"

definition round_up :: "nat \<Rightarrow> nat \<Rightarrow> nat" where
  "round_up a n = (n + a - 1) div a * a"

text \<open>Where a member goes behind \<open>off\<close> bits: a bit field does not cross a word of 32 bits.\<close>

fun start_of :: "bool \<Rightarrow> nat \<Rightarrow> cty \<Rightarrow> nat" where
  "start_of packed off (Bits w) = (if packed \<or> off mod 32 + w \<le> 32 then off else round_up 32 off)"
| "start_of packed off t = round_up (if packed then 8 else align_of t) off"

fun size_of :: "cty \<Rightarrow> nat" and end_of :: "bool \<Rightarrow> nat \<Rightarrow> (string \<times> cty) list \<Rightarrow> nat"
  and widest :: "(string \<times> cty) list \<Rightarrow> nat" where
  "size_of (Scalar n) = 8 * n"
| "size_of (Bits w) = w"
| "size_of (Array n t) = n * size_of t"
| "size_of (Struct packed ms) = round_up (if packed then 8 else aligns ms) (end_of packed 0 ms)"
| "size_of (Union ms) = round_up (aligns ms) (widest ms)"
| "end_of packed off [] = off"
| "end_of packed off ((f, t) # ms) = end_of packed (start_of packed off t + size_of t) ms"
| "widest [] = 0"
| "widest ((f, t) # ms) = max (size_of t) (widest ms)"

subsection \<open>Members\<close>

fun struct_member :: "bool \<Rightarrow> nat \<Rightarrow> (string \<times> cty) list \<Rightarrow> string \<Rightarrow> (nat \<times> cty) option" where
  "struct_member packed off [] f = None"
| "struct_member packed off ((g, t) # ms) f =
     (if g = f then Some (start_of packed off t, t)
      else struct_member packed (start_of packed off t + size_of t) ms f)"

text \<open>All members with their positions, computed once.\<close>

fun members :: "bool \<Rightarrow> nat \<Rightarrow> (string \<times> cty) list \<Rightarrow> (string \<times> nat \<times> cty) list" where
  "members packed off [] = []"
| "members packed off ((f, t) # ms) =
     (f, start_of packed off t, t) # members packed (start_of packed off t + size_of t) ms"

text \<open>A designator: names of members and array indices.\<close>

datatype sel = Dot string | Idx nat

fun select :: "sel \<Rightarrow> cty \<Rightarrow> (nat \<times> cty) option" where
  "select (Dot f) (Struct packed ms) = struct_member packed 0 ms f"
| "select (Dot f) (Union ms) = map_option (\<lambda>t. (0, t)) (map_of ms f)"
| "select (Idx i) (Array n t) = (if i < n then Some (i * size_of t, t) else None)"
| "select _ _ = None"

primrec locate :: "sel list \<Rightarrow> cty \<Rightarrow> (nat \<times> cty) option" where
  "locate [] t = Some (0, t)"
| "locate (s # p) t =
     Option.bind (select s t) (\<lambda>(o1, t1). map_option (\<lambda>(o2, t2). (o1 + o2, t2)) (locate p t1))"

text \<open>\<^verbatim>\<open>sizeof\<close> and \<^verbatim>\<open>offsetof\<close>, in bytes.\<close>

definition sizeof :: "cty \<Rightarrow> nat" where
  "sizeof t = size_of t div 8"

definition offsetof :: "sel list \<Rightarrow> cty \<Rightarrow> nat option" where
  "offsetof p t = map_option (\<lambda>(b, _). b div 8) (locate p t)"

text \<open>The mask of a bit field in its word.\<close>

definition field_mask :: "sel list \<Rightarrow> cty \<Rightarrow> u32 option" where
  "field_mask p t = (case locate p t of
     Some (b, Bits w) \<Rightarrow> Some (push_bit (b mod 32) (mask w)) | _ \<Rightarrow> None)"

subsection \<open>Lemmas\<close>

lemma struct_member_members: "struct_member packed off ms f = map_of (members packed off ms) f"
  by (induction packed off ms rule: members.induct) simp_all

lemma end_of_members: "end_of packed off (ms @ [(f, t)]) = start_of packed (end_of packed off ms) t + size_of t"
  by (induction packed off ms rule: members.induct) simp_all

lemma start_of_packed: "8 dvd off \<Longrightarrow> start_of True off t = off"
  by (cases t) (auto simp: round_up_def)

lemma le_round_up: "0 < a \<Longrightarrow> n \<le> round_up a n"
proof -
  assume a: "0 < a"
  have "(n + a - 1) mod a \<le> a - 1" using a by (simp add: less_Suc_eq_le [symmetric])
  moreover have "(n + a - 1) div a * a + (n + a - 1) mod a = n + a - 1" by (rule div_mult_mod_eq)
  ultimately show ?thesis using a unfolding round_up_def by linarith
qed

lemma round_up_dvd: "a dvd round_up a n"
  by (simp add: round_up_def)

text \<open>Scalars have at least one byte.\<close>

fun sound :: "cty \<Rightarrow> bool" and sounds :: "(string \<times> cty) list \<Rightarrow> bool" where
  "sound (Scalar n) \<longleftrightarrow> 0 < n"
| "sound (Bits w) \<longleftrightarrow> w \<le> 32"
| "sound (Array n t) \<longleftrightarrow> sound t"
| "sound (Struct packed ms) \<longleftrightarrow> sounds ms"
| "sound (Union ms) \<longleftrightarrow> sounds ms"
| "sounds [] \<longleftrightarrow> True"
| "sounds ((f, t) # ms) \<longleftrightarrow> sound t \<and> sounds ms"

lemma align_pos: "sound t \<Longrightarrow> 0 < align_of t" and aligns_pos: "0 < aligns ms"
  by (induction t and ms rule: align_of_aligns.induct) auto

lemma start_of_ge: "sound t \<Longrightarrow> off \<le> start_of packed off t"
  using align_pos [of t] by (cases t) (auto simp: le_round_up)

lemma end_of_ge: "sounds ms \<Longrightarrow> off \<le> end_of packed off ms"
proof (induction ms arbitrary: off)
  case (Cons m ms)
  obtain f t where m: "m = (f, t)" by force
  then have "off \<le> start_of packed off t + size_of t" using Cons.prems start_of_ge [of t off packed] by simp
  also have "\<dots> \<le> end_of packed (start_of packed off t + size_of t) ms" using Cons m by simp
  finally show ?case using m by simp
qed simp

lemma struct_member_bounds:
  "sounds ms \<Longrightarrow> struct_member packed off ms f = Some (b, t) \<Longrightarrow>
   sound t \<and> off \<le> b \<and> b + size_of t \<le> end_of packed off ms"
proof (induction ms arbitrary: off)
  case (Cons m ms)
  obtain g u where m: "m = (g, u)" by force
  let ?next = "start_of packed off u + size_of u"
  have u: "sound u" "sounds ms" "off \<le> start_of packed off u" using Cons.prems(1) m start_of_ge by auto
  show ?case
  proof (cases "g = f")
    case True
    then show ?thesis using Cons.prems m u end_of_ge [OF u(2), of ?next] by auto
  next
    case False
    then have "struct_member packed ?next ms f = Some (b, t)" using Cons.prems(2) m by simp
    from Cons.IH [OF u(2) this] show ?thesis using u m by auto
  qed
qed simp

lemma widest_ge: "sounds ms \<Longrightarrow> map_of ms f = Some t \<Longrightarrow> sound t \<and> size_of t \<le> widest ms"
  by (induction ms) (auto split: if_splits)

lemma select_bounds:
  assumes "sound t" "select s t = Some (b, u)"
  shows "sound u \<and> b + size_of u \<le> size_of t"
proof (cases "(s, t)" rule: select.cases)
  case (1 f packed ms)
  have "end_of packed 0 ms \<le> size_of t"
    using 1 aligns_pos [of ms] by (simp add: le_round_up)
  then show ?thesis using struct_member_bounds [of ms packed 0 f b u] assms 1 by auto
next
  case (2 f ms)
  have "widest ms \<le> size_of t" using 2 aligns_pos [of ms] by (simp add: le_round_up)
  then show ?thesis using widest_ge [of ms f u] assms 2 by auto
next
  case (3 i n v)
  have "i * size_of v + size_of v \<le> n * size_of v" if "i < n"
    using that by (metis Suc_leI add.commute mult_Suc mult_le_mono1)
  then show ?thesis using assms 3 by (auto split: if_splits)
qed (use assms in auto)

text \<open>Every designated member lies inside the object.\<close>

lemma locate_bounds:
  "sound t \<Longrightarrow> locate p t = Some (b, u) \<Longrightarrow> sound u \<and> b + size_of u \<le> size_of t"
proof (induction p arbitrary: t b)
  case (Cons s p)
  from Cons.prems(2) obtain o1 t1 o2 where s: "select s t = Some (o1, t1)" "locate p t1 = Some (o2, u)" "b = o1 + o2"
    by (auto simp: bind_eq_Some_conv)
  from select_bounds [OF Cons.prems(1) s(1)] Cons.IH [OF _ s(2)] s(3) show ?case by auto
qed simp

text \<open>Different members of a structure do not overlap.\<close>

lemma struct_members_disjoint:
  "sounds ms \<Longrightarrow> struct_member packed off ms f = Some (b, t) \<Longrightarrow> struct_member packed off ms g = Some (c, u) \<Longrightarrow>
   f \<noteq> g \<Longrightarrow> b + size_of t \<le> c \<or> c + size_of u \<le> b"
proof (induction ms arbitrary: off)
  case (Cons m ms)
  obtain h v where m: "m = (h, v)" by force
  show ?case
  proof (cases "h = f \<or> h = g")
    case True
    then show ?thesis using Cons.prems m struct_member_bounds [of ms packed "start_of packed off v + size_of v"]
      by (auto split: if_splits)
  next
    case False
    then show ?thesis using Cons m by auto
  qed
qed simp

end
