(* ===== verification/Kernel_Types.thy ===== *)
theory Kernel_Types
  imports Port_IO C_Layout Slab Descriptors Apic
begin

text \<open>
  The structure declarations of the kernel's headers as layouts. The other theories use sizes,
  positions and addresses of members as numbers; the theorems here derive these numbers from the
  declarations, and show that the parser of the MP tables reads every member where its
  declaration puts it.
\<close>

abbreviation "U8 \<equiv> Scalar 1"
abbreviation "U16 \<equiv> Scalar 2"
abbreviation "U32 \<equiv> Scalar 4"
abbreviation "U64 \<equiv> Scalar 8"
abbreviation "Pointer \<equiv> Scalar 8"

named_theorems struct_decls \<open>the structure declarations\<close>

subsection \<open>Memory management\<close>

definition struct_list_head :: cty where [struct_decls]:
  "struct_list_head = Struct False [(''next'', Pointer), (''prev'', Pointer)]"

text \<open>\<^verbatim>\<open>container_of\<close> and \<^verbatim>\<open>list_entry\<close>: from the address of a member to that of its structure.\<close>

definition container_of :: "u64 \<Rightarrow> cty \<Rightarrow> string \<Rightarrow> u64 option" where
  "container_of ptr t f = map_option (\<lambda>off. ptr - of_nat off) (offsetof [Dot f] t)"

definition list_entry :: "u64 \<Rightarrow> cty \<Rightarrow> string \<Rightarrow> u64 option" where
  "list_entry ptr t f = container_of ptr t f"

definition struct_page :: cty where [struct_decls]:
  "struct_page = Struct False
     [(''list'', struct_list_head), (''private'', U64), (''index'', U64), (''count'', U64), (''flags'', U64),
      (''virtual'', Pointer), (''page_zone'', Pointer), (''slab'', Pointer)]"

definition struct_zone :: cty where [struct_decls]:
  "struct_zone = Struct False
     [(''free_pages'', U64), (''zone_pgdat'', Pointer), (''zone_start_paddr'', U64), (''name'', Pointer),
      (''size'', U64), (''pages'', U64), (''zone_mem_map'', Pointer), (''zone_start_pfn'', U64)]"

definition struct_pglist_data :: cty where [struct_decls]:
  "struct_pglist_data = Struct False
     [(''node_zones'', Array MAX_NR_ZONES struct_zone), (''nr_zones'', U64), (''node_mem_map'', Pointer),
      (''node_start_paddr'', U64), (''node_size'', U64), (''node_id'', U64), (''node_next'', Pointer)]"

definition struct_kmem_cache :: cty where [struct_decls]:
  "struct_kmem_cache = Struct False
     [(''objsize'', U64), (''flag'', U64), (''num'', U64), (''gfporder'', U64), (''slabs'', struct_list_head),
      (''colour_off'', U64), (''name'', Pointer)]"

definition struct_slab :: cty where [struct_decls]:
  "struct_slab = Struct False
     [(''list'', struct_list_head), (''s_mem'', U64), (''inuse'', U64), (''free'', U64), (''offset'', U64),
      (''bufctl'', Pointer), (''cache'', Pointer)]"

subsection \<open>The processor\<close>

definition IO_BITMAP_BITS :: nat where "IO_BITMAP_BITS = 65536"
definition IO_BITMAP_BYTES :: nat where "IO_BITMAP_BYTES = IO_BITMAP_BITS div 8"
definition IO_BITMAP_LONGS :: nat where "IO_BITMAP_LONGS = IO_BITMAP_BYTES div 8"

definition struct_gdt_desc :: cty where [struct_decls]:
  "struct_gdt_desc = Struct True [(''l'', U32), (''h'', U32)]"

definition struct_gdt_desc_ptr :: cty where [struct_decls]:
  "struct_gdt_desc_ptr = Struct True [(''size'', U16), (''address'', U64)]"

definition struct_idt_desc_ptr :: cty where [struct_decls]:
  "struct_idt_desc_ptr = Struct True [(''size'', U16), (''address'', U64)]"

definition struct_idt_desc :: cty where [struct_decls]:
  "struct_idt_desc = Struct True
     [(''offset0_15'', U16), (''selector'', U16), (''type'', U16), (''offset16_31'', U16),
      (''offset32_63'', U32), (''reserved'', U32)]"

definition struct_tss_struct :: cty where [struct_decls]:
  "struct_tss_struct = Struct True
     [(''reserved1'', U32), (''rsp0'', U64), (''rsp1'', U64), (''rsp2'', U64), (''reserved2'', U64),
      (''ist'', Array 7 U64), (''reserved3'', U32), (''reserved4'', U32), (''reserved5'', U16),
      (''io_bitmap_base'', U16), (''io_bitmap'', Array (IO_BITMAP_LONGS + 1) U64)]"

text \<open>The declaration is repeated as a type of its own in \<^verbatim>\<open>processor.h\<close>.\<close>

definition tss_struct_typedef :: cty where [struct_decls]:
  "tss_struct_typedef = Struct True
     [(''reserved1'', U32), (''rsp0'', U64), (''rsp1'', U64), (''rsp2'', U64), (''reserved2'', U64),
      (''ist'', Array 7 U64), (''reserved3'', U32), (''reserved4'', U32), (''reserved5'', U16),
      (''io_bitmap_base'', U16), (''io_bitmap'', Array (IO_BITMAP_LONGS + 1) U64)]"

lemma tss_declarations_agree: "tss_struct_typedef = struct_tss_struct"
  by (simp add: struct_decls)

definition IO_BITMAP_OFFSET :: "nat option" where
  "IO_BITMAP_OFFSET = offsetof [Dot ''io_bitmap''] struct_tss_struct"

definition struct_thread_struct :: cty where [struct_decls]:
  "struct_thread_struct = Struct False
     [(''edi'', U32), (''esi'', U32), (''ebp'', U32), (''esp0'', U32), (''ebx'', U32), (''edx'', U32), (''ecx'', U32),
      (''eax'', U32), (''ds'', U16), (''ds_res'', U16), (''es'', U16), (''es_res'', U16), (''fs'', U16), (''fs_res'', U16),
      (''gs'', U16), (''gs_res'', U16), (''eip'', U32), (''cs'', U16), (''cs_res'', U16), (''eflags'', U32), (''esp'', U32),
      (''ss'', U16), (''ss_res'', U16)]"

definition struct_cpuinfo_x86 :: cty where [struct_decls]:
  "struct_cpuinfo_x86 = Struct False
     [(''x86_vendor'', U8), (''cpuid_level'', U32), (''x86_vendor_id'', Array 16 U8), (''x86_cache_size'', U32),
      (''x86_cache_alignment'', U32), (''x86_tlbsize'', U32), (''x86_virt_bits'', U8), (''x86_phys_bits'', U8),
      (''x86_max_cores'', U8), (''apicid'', U8), (''booted_cores'', U8), (''phys_proc_id'', U8), (''cpu_core_id'', U8)]"

definition struct_io_apic :: cty where [struct_decls]:
  "struct_io_apic = Struct False [(''index'', U32), (''unused'', Array 3 U32), (''data'', U32)]"

subsection \<open>Bitmaps\<close>

definition BITS_PER_LONG :: nat where [kconst]: "BITS_PER_LONG = 64"

definition BITS_TO_LONGS :: "nat \<Rightarrow> nat" where
  "BITS_TO_LONGS bits = (bits + BITS_PER_LONG - 1) div BITS_PER_LONG"

lemma bitmap_holds: "bits \<le> 64 * BITS_TO_LONGS bits" "64 * BITS_TO_LONGS bits < bits + 64"
  by (simp_all add: BITS_TO_LONGS_def kconst)

subsection \<open>The MP tables\<close>

definition struct_intel_mp_floating :: cty where [struct_decls]:
  "struct_intel_mp_floating = Struct True
     [(''mpf_signature'', Array 4 U8), (''mpf_physptr'', U32), (''mpf_length'', U8), (''mpf_specification'', U8),
      (''mpf_checksum'', U8), (''mpf_feature1'', U8), (''mpf_feature2'', U8), (''mpf_feature3'', U8),
      (''mpf_feature4'', U8), (''mpf_feature5'', U8)]"

definition struct_mp_config_table :: cty where [struct_decls]:
  "struct_mp_config_table = Struct True
     [(''mpc_signature'', Array 4 U8), (''mpc_length'', U16), (''mpc_spec'', U8), (''mpc_checksum'', U8),
      (''mpc_oem'', Array 8 U8), (''mpc_productid'', Array 12 U8), (''mpc_oemptr'', U32), (''mpc_oemsize'', U16),
      (''mpc_oemcount'', U16), (''mpc_lapic'', U32), (''reserved'', U32)]"

definition struct_mpc_config_processor :: cty where [struct_decls]:
  "struct_mpc_config_processor = Struct True
     [(''mpc_type'', U8), (''mpc_apicid'', U8), (''mpc_apicver'', U8), (''mpc_cpuflag'', U8), (''mpc_cpufeature'', U32),
      (''mpc_featureflag'', U32), (''mpc_reserved'', Array 2 U32)]"

definition struct_mpc_config_bus :: cty where [struct_decls]:
  "struct_mpc_config_bus = Struct True [(''mpc_type'', U8), (''mpc_busid'', U8), (''mpc_bustype'', Array 6 U8)]"

definition struct_mpc_config_ioapic :: cty where [struct_decls]:
  "struct_mpc_config_ioapic = Struct True
     [(''mpc_type'', U8), (''mpc_apicid'', U8), (''mpc_apicver'', U8), (''mpc_flags'', U8), (''mpc_apicaddr'', U32)]"

definition struct_mpc_config_intsrc :: cty where [struct_decls]:
  "struct_mpc_config_intsrc = Struct True
     [(''mpc_type'', U8), (''mpc_irqtype'', U8), (''mpc_irqflag'', U16), (''mpc_srcbus'', U8), (''mpc_srcbusirq'', U8),
      (''mpc_dstapic'', U8), (''mpc_dstirq'', U8)]"

definition struct_mpc_config_lintsrc :: cty where [struct_decls]:
  "struct_mpc_config_lintsrc = Struct True
     [(''mpc_type'', U8), (''mpc_irqtype'', U8), (''mpc_irqflag'', U16), (''mpc_srcbusid'', U8), (''mpc_srcbusirq'', U8),
      (''mpc_destapic'', U8), (''mpc_destapiclint'', U8)]"

subsection \<open>Reading a member\<close>

text \<open>The value of a scalar member of the object at an address.\<close>

definition read_member :: "cty \<Rightarrow> string \<Rightarrow> bmem \<Rightarrow> u64 \<Rightarrow> u64 option" where
  "read_member t f m a =
     (case locate [Dot f] t of
        Some (b, Scalar n) \<Rightarrow>
          let p = a + of_nat (b div 8)
          in if n = 1 then Some (ucast (readb m p)) else if n = 2 then Some (ucast (readw m p))
             else if n = 4 then Some (ucast (readl m p)) else if n = 8 then Some (readq m p) else None
      | _ \<Rightarrow> None)"

definition member_bytes :: "cty \<Rightarrow> string \<Rightarrow> bmem \<Rightarrow> u64 \<Rightarrow> u8 list option" where
  "member_bytes t f m a =
     map_option (\<lambda>(b, u). bytes_at m (a + of_nat (b div 8)) (sizeof u)) (locate [Dot f] t)"

subsection \<open>The declarations and the numbers\<close>

lemmas layout_simps = sizeof_def offsetof_def round_up_def kconst

lemma mm_sizes: "sizeof struct_page = 72" "sizeof struct_kmem_cache = 64" "sizeof struct_slab = 64"
  "offsetof [Dot ''slabs''] struct_kmem_cache = Some 32" "offsetof [Dot ''list''] struct_slab = Some 0"
  "offsetof [Dot ''list''] struct_page = Some 0" "sizeof struct_zone = 64" "sizeof struct_pglist_data = 112"
  by (simp_all add: layout_simps struct_decls)

lemma mp_sizes: "sizeof struct_intel_mp_floating = 16" "sizeof struct_mp_config_table = 44"
  "sizeof struct_mpc_config_processor = 20" "sizeof struct_mpc_config_bus = 8" "sizeof struct_mpc_config_ioapic = 8"
  "sizeof struct_mpc_config_intsrc = 8" "sizeof struct_mpc_config_lintsrc = 8"
  by (simp_all add: layout_simps struct_decls)

lemma cpu_sizes: "sizeof struct_gdt_desc = 8" "sizeof struct_idt_desc = 16" "sizeof struct_gdt_desc_ptr = 10"
  "offsetof [Dot ''address''] struct_gdt_desc_ptr = Some 2" "offsetof [Dot ''rsp0''] struct_tss_struct = Some 4"
  "offsetof [Dot ''ist'', Idx 6] struct_tss_struct = Some 84" "offsetof [Dot ''io_bitmap_base''] struct_tss_struct = Some 102"
  "IO_BITMAP_OFFSET = Some 104" "sizeof struct_tss_struct = 8304" "offsetof [Dot ''data''] struct_io_apic = Some 16"
  "offsetof [Dot ''x86_vendor_id''] struct_cpuinfo_x86 = Some 8" "sizeof struct_cpuinfo_x86 = 44" "sizeof struct_thread_struct = 68"
  by (simp_all add: layout_simps struct_decls IO_BITMAP_OFFSET_def IO_BITMAP_LONGS_def IO_BITMAP_BYTES_def IO_BITMAP_BITS_def)

lemma container_of_member: "offsetof [Dot f] t = Some off \<Longrightarrow> container_of (p + of_nat off) t f = Some p"
  by (simp add: container_of_def)

text \<open>Every declaration is sound, so that its members lie inside the object.\<close>

lemma declarations_sound:
  "list_all sound [struct_list_head, struct_page, struct_zone, struct_pglist_data, struct_kmem_cache, struct_slab, struct_gdt_desc,
     struct_gdt_desc_ptr, struct_idt_desc, struct_tss_struct, struct_thread_struct, struct_cpuinfo_x86, struct_io_apic,
     struct_intel_mp_floating, struct_mp_config_table, struct_mpc_config_processor, struct_mpc_config_bus,
     struct_mpc_config_ioapic, struct_mpc_config_intsrc, struct_mpc_config_lintsrc]"
  by (simp add: struct_decls)

text \<open>
  Supplement (layout of the kernel's structures). The sizes and positions that the allocators, the lists, the
  descriptor tables and the MP parser work with are those of the declarations under the rules of
  the ABI: page descriptors of 72 bytes and caches and slabs of 64, each slab starting with
  its list node; the list head of cache \<open>i\<close> behind four members of the \<open>i\<close>-th entry of the cache
  table; MP entries of 20 and 8 bytes behind a header of 44; and the limit 104 of the task
  segment, where its I/O bitmap starts.
\<close>

theorem kernel_struct_layout:
  "sizeof struct_page = unat sizeof_page \<and> sizeof struct_kmem_cache = unat sizeof_kmem_cache \<and>
   sizeof struct_slab = unat sizeof_slab \<and> list_entry p struct_slab ''list'' = Some p \<and> list_entry p struct_page ''list'' = Some p \<and>
   (\<exists>off. offsetof [Dot ''slabs''] struct_kmem_cache = Some off \<and>
      slabs_head s i = cache_base s + of_nat (sizeof struct_kmem_cache * i + off)) \<and>
   sizeof struct_mp_config_table = sizeof_mp_config_table \<and>
   map sizeof [struct_mpc_config_processor, struct_mpc_config_bus, struct_mpc_config_ioapic, struct_mpc_config_intsrc,
     struct_mpc_config_lintsrc] = [20, 8, 8, 8, 8] \<and>
   IO_BITMAP_OFFSET = Some (unat (seg_limit (gdt_entry addr 104 0x89))) \<and>
   sizeof struct_gdt_desc = 8 \<and> sizeof struct_idt_desc = 16 \<and> offsetof [Dot ''data''] struct_io_apic = Some 0x10"
proof -
  have "slabs_head s i = cache_base s + of_nat (64 * i + 32)"
    by (simp add: slabs_head_def sizeof_kmem_cache_def)
  then show ?thesis using mm_sizes mp_sizes cpu_sizes tss_entry_limit [of addr]
    by (simp add: sizeof_page_def sizeof_kmem_cache_def sizeof_slab_def sizeof_mp_config_table_def list_entry_def container_of_def del: of_nat_add of_nat_mult)
qed

lemmas read_simps = read_member_def member_bytes_def layout_simps struct_decls readb_def rd16_readw rd32_readl

text \<open>
  Supplement (the MP tables). The parser's view of the floating pointer, of the header and of the five kinds of
  entries is the value of the declared member at its declared position and width.
\<close>

theorem mp_members_read:
  "read_member struct_intel_mp_floating ''mpf_physptr'' m a = Some (ucast (mpf_physptr (floating_at m a))) \<and>
   read_member struct_intel_mp_floating ''mpf_length'' m a = Some (ucast (mpf_length (floating_at m a))) \<and>
   read_member struct_intel_mp_floating ''mpf_specification'' m a = Some (ucast (mpf_specification (floating_at m a))) \<and>
   read_member struct_intel_mp_floating ''mpf_checksum'' m a = Some (ucast (mpf_checksum (floating_at m a))) \<and>
   member_bytes struct_mp_config_table ''mpc_signature'' m a = Some (mpc_signature (config_table_at m a)) \<and>
   read_member struct_mp_config_table ''mpc_length'' m a = Some (ucast (mpc_length (config_table_at m a))) \<and>
   read_member struct_mp_config_table ''mpc_spec'' m a = Some (ucast (mpc_spec (config_table_at m a))) \<and>
   read_member struct_mp_config_table ''mpc_lapic'' m a = Some (ucast (mpc_lapic (config_table_at m a))) \<and>
   read_member struct_mpc_config_processor ''mpc_apicid'' m a = Some (ucast (cpu_apicid (processor_at m a))) \<and>
   read_member struct_mpc_config_processor ''mpc_cpuflag'' m a = Some (ucast (cpu_flag (processor_at m a))) \<and>
   read_member struct_mpc_config_processor ''mpc_cpufeature'' m a = Some (ucast (cpu_feature (processor_at m a))) \<and>
   member_bytes struct_mpc_config_bus ''mpc_bustype'' m a = Some (bus_type (bus_at m a)) \<and>
   read_member struct_mpc_config_bus ''mpc_busid'' m a = Some (ucast (bus_id (bus_at m a))) \<and>
   read_member struct_mpc_config_ioapic ''mpc_apicid'' m a = Some (ucast (ioapic_id (ioapic_at m a))) \<and>
   read_member struct_mpc_config_ioapic ''mpc_flags'' m a = Some (ucast (ioapic_flags (ioapic_at m a))) \<and>
   read_member struct_mpc_config_ioapic ''mpc_apicaddr'' m a = Some (ucast (ioapic_addr (ioapic_at m a))) \<and>
   read_member struct_mpc_config_intsrc ''mpc_irqflag'' m a = Some (ucast (int_irqflag (intsrc_at m a))) \<and>
   read_member struct_mpc_config_intsrc ''mpc_srcbus'' m a = Some (ucast (int_srcbus (intsrc_at m a))) \<and>
   read_member struct_mpc_config_intsrc ''mpc_dstirq'' m a = Some (ucast (int_dstirq (intsrc_at m a))) \<and>
   read_member struct_mpc_config_lintsrc ''mpc_irqflag'' m a = Some (ucast (lint_irqflag (lintsrc_at m a))) \<and>
   read_member struct_mpc_config_lintsrc ''mpc_destapiclint'' m a = Some (ucast (lint_destapiclint (lintsrc_at m a)))"
  by (simp add: read_simps floating_at_def config_table_at_def processor_at_def bus_at_def ioapic_at_def intsrc_at_def lintsrc_at_def)

end
