(* ===== verification/Apic_Layout.thy ===== *)
theory Apic_Layout
  imports C_Layout Apic
begin

text \<open>
  The register map of the local APIC, which \<^verbatim>\<open>include/apic.h\<close> gives twice: as macros for offsets, flags
  and fields, which the kernel uses, and as the structure \<^verbatim>\<open>local_apic\<close> of bit fields, "not terribly
  well tested". The layout rules decide where they agree.
\<close>

named_theorems apic_macros \<open>the function-like macros of the APIC header\<close>
named_theorems lapic_decls \<open>the declaration of the register structure\<close>

subsection \<open>Registers, flags and fields\<close>

definition LOCAL_APIC_BASE :: u64 where [kconst]: "LOCAL_APIC_BASE = 0xFFFF8000C0200000"
definition APIC_TPRI_MASK :: u32 where [kconst]: "APIC_TPRI_MASK = 0xFF"
definition APIC_ARBPRI :: u64 where [kconst]: "APIC_ARBPRI = 0x90"
definition APIC_ARBPRI_MASK :: u32 where [kconst]: "APIC_ARBPRI_MASK = 0xFF"
definition APIC_PROCPRI :: u64 where [kconst]: "APIC_PROCPRI = 0xA0"
definition APIC_EIO_ACK :: u32 where [kconst]: "APIC_EIO_ACK = 0x0"
definition APIC_RRR :: u64 where [kconst]: "APIC_RRR = 0xC0"
definition APIC_LDR :: u64 where [kconst]: "APIC_LDR = 0xD0"
definition APIC_LDR_MASK :: u32 where [kconst]: "APIC_LDR_MASK = push_bit 24 0xFF"
definition APIC_ALL_CPUS :: u32 where [kconst]: "APIC_ALL_CPUS = 0xFF"
definition APIC_DFR :: u64 where [kconst]: "APIC_DFR = 0xE0"
definition APIC_DFR_CLUSTER :: u64 where [kconst]: "APIC_DFR_CLUSTER = 0x0FFFFFFF"
definition APIC_DFR_FLAT :: u64 where [kconst]: "APIC_DFR_FLAT = 0xFFFFFFFF"
definition APIC_SPIV_FOCUS_DISABLED :: u32 where [kconst]: "APIC_SPIV_FOCUS_DISABLED = push_bit 9 1"
definition APIC_ISR :: u64 where [kconst]: "APIC_ISR = 0x100"
definition APIC_ISR_NR :: nat where [kconst]: "APIC_ISR_NR = 0x8"
definition APIC_TMR :: u64 where [kconst]: "APIC_TMR = 0x180"
definition APIC_IRR :: u64 where [kconst]: "APIC_IRR = 0x200"
definition APIC_ESR :: u64 where [kconst]: "APIC_ESR = 0x280"
definition APIC_ESR_SEND_CS :: u32 where [kconst]: "APIC_ESR_SEND_CS = 0x00001"
definition APIC_ESR_RECV_CS :: u32 where [kconst]: "APIC_ESR_RECV_CS = 0x00002"
definition APIC_ESR_SEND_ACC :: u32 where [kconst]: "APIC_ESR_SEND_ACC = 0x00004"
definition APIC_ESR_RECV_ACC :: u32 where [kconst]: "APIC_ESR_RECV_ACC = 0x00008"
definition APIC_ESR_SENDILL :: u32 where [kconst]: "APIC_ESR_SENDILL = 0x00020"
definition APIC_ESR_RECVILL :: u32 where [kconst]: "APIC_ESR_RECVILL = 0x00040"
definition APIC_ESR_ILLREGA :: u32 where [kconst]: "APIC_ESR_ILLREGA = 0x00080"
definition APIC_DEST_SELF :: u32 where [kconst]: "APIC_DEST_SELF = 0x40000"
definition APIC_DEST_ALLINC :: u32 where [kconst]: "APIC_DEST_ALLINC = 0x80000"
definition APIC_ICR_RR_MASK :: u32 where [kconst]: "APIC_ICR_RR_MASK = 0x30000"
definition APIC_ICR_RR_INVALID :: u32 where [kconst]: "APIC_ICR_RR_INVALID = 0x00000"
definition APIC_ICR_RR_INPROG :: u32 where [kconst]: "APIC_ICR_RR_INPROG = 0x10000"
definition APIC_ICR_RR_VALID :: u32 where [kconst]: "APIC_ICR_RR_VALID = 0x20000"
definition APIC_INT_LEVELTRIG :: u32 where [kconst]: "APIC_INT_LEVELTRIG = 0x08000"
definition APIC_DEST_LOGICAL :: u32 where [kconst]: "APIC_DEST_LOGICAL = 0x00800"
definition APIC_DEST_PHYSICAL :: u32 where [kconst]: "APIC_DEST_PHYSICAL = 0x00000"
definition APIC_DM_FIXED :: u32 where [kconst]: "APIC_DM_FIXED = 0x00000"
definition APIC_DM_LOWEST :: u32 where [kconst]: "APIC_DM_LOWEST = 0x00100"
definition APIC_DM_SMI :: u32 where [kconst]: "APIC_DM_SMI = 0x00200"
definition APIC_DM_REMRD :: u32 where [kconst]: "APIC_DM_REMRD = 0x00300"
definition APIC_DM_NMI :: u32 where [kconst]: "APIC_DM_NMI = 0x00400"
definition APIC_DM_EXTINT :: u32 where [kconst]: "APIC_DM_EXTINT = 0x00700"
definition APIC_VECTOR_MASK :: u32 where [kconst]: "APIC_VECTOR_MASK = 0x000FF"
definition APIC_ICR2 :: u64 where [kconst]: "APIC_ICR2 = 0x310"
definition APIC_LVT_TIMER_BASE_MASK :: u32 where [kconst]: "APIC_LVT_TIMER_BASE_MASK = push_bit 18 0x3"
definition APIC_TIMER_BASE_CLKIN :: u32 where [kconst]: "APIC_TIMER_BASE_CLKIN = 0x0"
definition APIC_TIMER_BASE_TMBASE :: u32 where [kconst]: "APIC_TIMER_BASE_TMBASE = 0x1"
definition APIC_TIMER_BASE_DIV :: u32 where [kconst]: "APIC_TIMER_BASE_DIV = 0x2"
definition APIC_LVT_LEVEL_TRIGGER :: u32 where [kconst]: "APIC_LVT_LEVEL_TRIGGER = push_bit 15 1"
definition APIC_LVT_REMOTE_IRR :: u32 where [kconst]: "APIC_LVT_REMOTE_IRR = push_bit 14 1"
definition APIC_INPUT_POLARITY :: u32 where [kconst]: "APIC_INPUT_POLARITY = push_bit 13 1"
definition APIC_SEND_PENDING :: u32 where [kconst]: "APIC_SEND_PENDING = push_bit 12 1"
definition APIC_MODE_MASK :: u32 where [kconst]: "APIC_MODE_MASK = 0x700"
definition APIC_MODE_FIXED :: u32 where [kconst]: "APIC_MODE_FIXED = 0x0"
definition APIC_MODE_NMI :: u32 where [kconst]: "APIC_MODE_NMI = 0x4"
definition APIC_MODE_EXTINT :: u32 where [kconst]: "APIC_MODE_EXTINT = 0x7"
definition APIC_TMCCT :: u64 where [kconst]: "APIC_TMCCT = 0x390"
definition APIC_TDR_DIV_TMBASE :: u32 where [kconst]: "APIC_TDR_DIV_TMBASE = push_bit 2 1"
definition APIC_TDR_DIV_1 :: u32 where [kconst]: "APIC_TDR_DIV_1 = 0xB"
definition APIC_TDR_DIV_2 :: u32 where [kconst]: "APIC_TDR_DIV_2 = 0x0"
definition APIC_TDR_DIV_4 :: u32 where [kconst]: "APIC_TDR_DIV_4 = 0x1"
definition APIC_TDR_DIV_8 :: u32 where [kconst]: "APIC_TDR_DIV_8 = 0x2"
definition APIC_TDR_DIV_16 :: u32 where [kconst]: "APIC_TDR_DIV_16 = 0x3"
definition APIC_TDR_DIV_32 :: u32 where [kconst]: "APIC_TDR_DIV_32 = 0x8"
definition APIC_TDR_DIV_128 :: u32 where [kconst]: "APIC_TDR_DIV_128 = 0xA"
definition APIC_BASE :: u64 where [kconst]: "APIC_BASE = LOCAL_APIC_BASE"
definition MAX_LOCAL_APIC :: nat where [kconst]: "MAX_LOCAL_APIC = 256"

subsection \<open>Field access\<close>

definition GET_APIC_ID :: "u32 \<Rightarrow> u32" where [apic_macros]: "GET_APIC_ID x = drop_bit 24 x AND 0xFF"
definition SET_APIC_ID :: "u32 \<Rightarrow> u32" where [apic_macros]: "SET_APIC_ID x = push_bit 24 x"
definition APIC_INTEGRATED :: "u32 \<Rightarrow> u32" where [apic_macros]: "APIC_INTEGRATED x = x AND 0xF0"
definition GET_APIC_LOGICAL_ID :: "u32 \<Rightarrow> u32" where [apic_macros]: "GET_APIC_LOGICAL_ID x = drop_bit 24 x AND 0xFF"
definition SET_APIC_LOGICAL_ID :: "u32 \<Rightarrow> u32" where [apic_macros]: "SET_APIC_LOGICAL_ID x = push_bit 24 x"
definition GET_APIC_DEST_FIELD :: "u32 \<Rightarrow> u32" where [apic_macros]: "GET_APIC_DEST_FIELD x = drop_bit 24 x AND 0xFF"
definition SET_APIC_DEST_FIELD :: "u32 \<Rightarrow> u32" where [apic_macros]: "SET_APIC_DEST_FIELD x = push_bit 24 x"
definition GET_APIC_TIMER_BASE :: "u32 \<Rightarrow> u32" where [apic_macros]: "GET_APIC_TIMER_BASE x = drop_bit 18 x AND 0x3"
definition SET_APIC_TIMER_BASE :: "u32 \<Rightarrow> u32" where [apic_macros]: "SET_APIC_TIMER_BASE x = push_bit 18 x"
definition GET_APIC_DELIVERY_MODE :: "u32 \<Rightarrow> u32" where [apic_macros]: "GET_APIC_DELIVERY_MODE x = drop_bit 8 x AND 0x7"
definition SET_APIC_DELIVERY_MODE :: "u32 \<Rightarrow> u32 \<Rightarrow> u32" where [apic_macros]: "SET_APIC_DELIVERY_MODE x y = (x AND NOT 0x700) OR push_bit 8 y"
definition XAPIC_DEST_CPUS_SHIFT :: nat where [apic_macros]: "XAPIC_DEST_CPUS_SHIFT = 4"
definition XAPIC_DEST_CPUS_MASK :: u32 where [apic_macros]: "XAPIC_DEST_CPUS_MASK = push_bit XAPIC_DEST_CPUS_SHIFT 1 - 1"
definition XAPIC_DEST_CLUSTER_MASK :: u32 where [apic_macros]: "XAPIC_DEST_CLUSTER_MASK = push_bit XAPIC_DEST_CPUS_SHIFT XAPIC_DEST_CPUS_MASK"
definition APIC_CLUSTER :: "u32 \<Rightarrow> u32" where [apic_macros]: "APIC_CLUSTER apicid = apicid AND XAPIC_DEST_CLUSTER_MASK"
definition APIC_CLUSTERID :: "u32 \<Rightarrow> u32" where [apic_macros]: "APIC_CLUSTERID apicid = drop_bit XAPIC_DEST_CPUS_SHIFT (APIC_CLUSTER apicid)"
definition APIC_CPUID :: "u32 \<Rightarrow> u32" where [apic_macros]: "APIC_CPUID apicid = apicid AND XAPIC_DEST_CPUS_MASK"

subsection \<open>The register structure\<close>

text \<open>Each register occupies sixteen bytes; the reserved ones are all alike.\<close>

definition reserved_reg :: cty where [lapic_decls]:
  "reserved_reg = Struct False [(''__reserved'', Array 4 (Scalar 4))]"

definition lapic_id :: cty where [lapic_decls]:
  "lapic_id = Struct False [(''__reserved_1'', Bits 24), (''phys_apic_id'', Bits 4), (''__reserved_2'', Bits 4),
    (''__reserved'', Array 3 (Scalar 4))]"

definition lapic_version :: cty where [lapic_decls]:
  "lapic_version = Struct False [(''version'', Bits 8), (''__reserved_1'', Bits 8), (''max_lvt'', Bits 8),
    (''__reserved_2'', Bits 8), (''__reserved'', Array 3 (Scalar 4))]"

definition lapic_tpr :: cty where [lapic_decls]:
  "lapic_tpr = Struct False [(''priority'', Bits 8), (''__reserved_1'', Bits 24), (''__reserved_2'', Array 3 (Scalar 4))]"

definition lapic_apr :: cty where [lapic_decls]:
  "lapic_apr = Struct False [(''priority'', Bits 8), (''__reserved_1'', Bits 24), (''__reserved_2'', Array 3 (Scalar 4))]"

definition lapic_ppr :: cty where [lapic_decls]:
  "lapic_ppr = Struct False [(''priority'', Bits 8), (''__reserved_1'', Bits 24), (''__reserved_2'', Array 3 (Scalar 4))]"

definition lapic_eoi :: cty where [lapic_decls]:
  "lapic_eoi = Struct False [(''eoi'', Scalar 4), (''__reserved'', Array 3 (Scalar 4))]"

definition lapic_ldr :: cty where [lapic_decls]:
  "lapic_ldr = Struct False [(''__reserved_1'', Bits 24), (''logical_dest'', Bits 8), (''__reserved_2'', Array 3 (Scalar 4))]"

definition lapic_dfr :: cty where [lapic_decls]:
  "lapic_dfr = Struct False [(''__reserved_1'', Bits 28), (''model'', Bits 4), (''__reserved_2'', Array 3 (Scalar 4))]"

definition lapic_svr :: cty where [lapic_decls]:
  "lapic_svr = Struct False [(''spurious_vector'', Bits 8), (''apic_enabled'', Bits 1), (''focus_cpu'', Bits 1),
    (''__reserved_2'', Bits 22), (''__reserved_3'', Array 3 (Scalar 4))]"

definition lapic_isr :: cty where [lapic_decls]:
  "lapic_isr = Struct False [(''bitfield'', Scalar 4), (''__reserved'', Array 3 (Scalar 4))]"

definition lapic_tmr :: cty where [lapic_decls]:
  "lapic_tmr = Struct False [(''bitfield'', Scalar 4), (''__reserved'', Array 3 (Scalar 4))]"

definition lapic_irr :: cty where [lapic_decls]:
  "lapic_irr = Struct False [(''bitfield'', Scalar 4), (''__reserved'', Array 3 (Scalar 4))]"

definition lapic_esr :: cty where [lapic_decls]:
  "lapic_esr = Union [(''error_bits'', Struct False [(''send_cs_error'', Bits 1), (''receive_cs_error'', Bits 1),
    (''send_accept_error'', Bits 1), (''receive_accept_error'', Bits 1), (''__reserved_1'', Bits 1),
    (''send_illegal_vector'', Bits 1), (''receive_illegal_vector'', Bits 1), (''illegal_register_address'', Bits 1),
    (''__reserved_2'', Bits 24), (''__reserved_3'', Array 3 (Scalar 4))]),
    (''all_errors'', Struct False [(''errors'', Scalar 4), (''__reserved_3'', Array 3 (Scalar 4))])]"

definition lapic_icr1 :: cty where [lapic_decls]:
  "lapic_icr1 = Struct False [(''vector'', Bits 8), (''delivery_mode'', Bits 3), (''destination_mode'', Bits 1),
    (''delivery_status'', Bits 1), (''__reserved_1'', Bits 1), (''level'', Bits 1), (''trigger'', Bits 1),
    (''__reserved_2'', Bits 2), (''shorthand'', Bits 2), (''__reserved_3'', Bits 12),
    (''__reserved_4'', Array 3 (Scalar 4))]"

definition lapic_icr2 :: cty where [lapic_decls]:
  "lapic_icr2 = Struct False [(''dest'', Union [(''__reserved_1'', Bits 24), (''phys_dest'', Bits 4),
    (''__reserved_2'', Bits 4), (''__reserved_3'', Bits 24), (''logical_dest'', Bits 8)]),
    (''__reserved_4'', Array 3 (Scalar 4))]"

definition lapic_lvt_timer :: cty where [lapic_decls]:
  "lapic_lvt_timer = Struct False [(''vector'', Bits 8), (''__reserved_1'', Bits 4), (''delivery_status'', Bits 1),
    (''__reserved_2'', Bits 3), (''mask'', Bits 1), (''timer_mode'', Bits 1), (''__reserved_3'', Bits 14),
    (''__reserved_4'', Array 3 (Scalar 4))]"

definition lapic_lvt_thermal :: cty where [lapic_decls]:
  "lapic_lvt_thermal = Struct False [(''vector'', Bits 8), (''delivery_mode'', Bits 3), (''__reserved_1'', Bits 1),
    (''delivery_status'', Bits 1), (''__reserved_2'', Bits 3), (''mask'', Bits 1), (''__reserved_3'', Bits 15),
    (''__reserved_4'', Array 3 (Scalar 4))]"

definition lapic_lvt_pc :: cty where [lapic_decls]:
  "lapic_lvt_pc = Struct False [(''vector'', Bits 8), (''delivery_mode'', Bits 3), (''__reserved_1'', Bits 1),
    (''delivery_status'', Bits 1), (''__reserved_2'', Bits 3), (''mask'', Bits 1), (''__reserved_3'', Bits 15),
    (''__reserved_4'', Array 3 (Scalar 4))]"

definition lapic_lvt_lint0 :: cty where [lapic_decls]:
  "lapic_lvt_lint0 = Struct False [(''vector'', Bits 8), (''delivery_mode'', Bits 3), (''__reserved_1'', Bits 1),
    (''delivery_status'', Bits 1), (''polarity'', Bits 1), (''remote_irr'', Bits 1), (''trigger'', Bits 1),
    (''mask'', Bits 1), (''__reserved_2'', Bits 15), (''__reserved_3'', Array 3 (Scalar 4))]"

definition lapic_lvt_lint1 :: cty where [lapic_decls]:
  "lapic_lvt_lint1 = Struct False [(''vector'', Bits 8), (''delivery_mode'', Bits 3), (''__reserved_1'', Bits 1),
    (''delivery_status'', Bits 1), (''polarity'', Bits 1), (''remote_irr'', Bits 1), (''trigger'', Bits 1),
    (''mask'', Bits 1), (''__reserved_2'', Bits 15), (''__reserved_3'', Array 3 (Scalar 4))]"

definition lapic_lvt_error :: cty where [lapic_decls]:
  "lapic_lvt_error = Struct False [(''vector'', Bits 8), (''__reserved_1'', Bits 4), (''delivery_status'', Bits 1),
    (''__reserved_2'', Bits 3), (''mask'', Bits 1), (''__reserved_3'', Bits 15),
    (''__reserved_4'', Array 3 (Scalar 4))]"

definition lapic_timer_icr :: cty where [lapic_decls]:
  "lapic_timer_icr = Struct False [(''initial_count'', Scalar 4), (''__reserved_2'', Array 3 (Scalar 4))]"

definition lapic_timer_ccr :: cty where [lapic_decls]:
  "lapic_timer_ccr = Struct False [(''curr_count'', Scalar 4), (''__reserved_2'', Array 3 (Scalar 4))]"

definition lapic_timer_dcr :: cty where [lapic_decls]:
  "lapic_timer_dcr = Struct False [(''divisor'', Bits 4), (''__reserved_1'', Bits 28), (''__reserved_2'', Array 3 (Scalar 4))]"

definition local_apic_members :: "(string \<times> cty) list" where
  "local_apic_members =
     [(''__reserved_01'', reserved_reg), (''__reserved_02'', reserved_reg), (''id'', lapic_id),
      (''version'', lapic_version), (''__reserved_03'', reserved_reg), (''__reserved_04'', reserved_reg),
      (''__reserved_05'', reserved_reg), (''__reserved_06'', reserved_reg), (''tpr'', lapic_tpr),
      (''apr'', lapic_apr), (''ppr'', lapic_ppr), (''eoi'', lapic_eoi), (''__reserved_07'', reserved_reg),
      (''ldr'', lapic_ldr), (''dfr'', lapic_dfr), (''svr'', lapic_svr), (''isr'', Array 8 lapic_isr),
      (''tmr'', Array 8 lapic_tmr), (''irr'', Array 8 lapic_irr), (''esr'', lapic_esr),
      (''__reserved_08'', reserved_reg), (''__reserved_09'', reserved_reg), (''__reserved_10'', reserved_reg),
      (''__reserved_11'', reserved_reg), (''__reserved_12'', reserved_reg), (''__reserved_13'', reserved_reg),
      (''__reserved_14'', reserved_reg), (''icr1'', lapic_icr1), (''icr2'', lapic_icr2),
      (''lvt_timer'', lapic_lvt_timer), (''lvt_thermal'', lapic_lvt_thermal), (''lvt_pc'', lapic_lvt_pc),
      (''lvt_lint0'', lapic_lvt_lint0), (''lvt_lint1'', lapic_lvt_lint1), (''lvt_error'', lapic_lvt_error),
      (''timer_icr'', lapic_timer_icr), (''timer_ccr'', lapic_timer_ccr), (''__reserved_16'', reserved_reg),
      (''__reserved_17'', reserved_reg), (''__reserved_18'', reserved_reg), (''__reserved_19'', reserved_reg),
      (''timer_dcr'', lapic_timer_dcr), (''__reserved_20'', reserved_reg)]"

definition struct_local_apic :: cty where
  "struct_local_apic = Struct True local_apic_members"

subsection \<open>Agreement\<close>

text \<open>The registers that have a macro, and the offsets that the macros give.\<close>

definition lapic_registers :: "(sel list \<times> u64) list" where
  "lapic_registers =
     [([Dot ''id''], APIC_ID), ([Dot ''version''], APIC_LVR), ([Dot ''tpr''], APIC_TASKPRI), ([Dot ''apr''], APIC_ARBPRI),
      ([Dot ''ppr''], APIC_PROCPRI), ([Dot ''eoi''], APIC_EOI), ([Dot ''__reserved_07''], APIC_RRR),
      ([Dot ''ldr''], APIC_LDR), ([Dot ''dfr''], APIC_DFR), ([Dot ''svr''], APIC_SPIV), ([Dot ''isr'', Idx 0], APIC_ISR),
      ([Dot ''tmr'', Idx 0], APIC_TMR), ([Dot ''irr'', Idx 0], APIC_IRR), ([Dot ''esr''], APIC_ESR), ([Dot ''icr1''], APIC_ICR),
      ([Dot ''icr2''], APIC_ICR2), ([Dot ''lvt_timer''], APIC_LVTT), ([Dot ''lvt_thermal''], APIC_LVTTHMR),
      ([Dot ''lvt_pc''], APIC_LVTPC), ([Dot ''lvt_lint0''], APIC_LVT0), ([Dot ''lvt_lint1''], APIC_LVT1),
      ([Dot ''lvt_error''], APIC_LVTERR), ([Dot ''timer_icr''], APIC_TMICT), ([Dot ''timer_ccr''], APIC_TMCCT),
      ([Dot ''timer_dcr''], APIC_TDCR)]"

text \<open>The bit fields that have a macro, and the masks that the macros give.\<close>

definition lapic_fields :: "(sel list \<times> u32) list" where
  "lapic_fields =
     [([Dot ''tpr'', Dot ''priority''], APIC_TPRI_MASK), ([Dot ''apr'', Dot ''priority''], APIC_ARBPRI_MASK),
      ([Dot ''ldr'', Dot ''logical_dest''], APIC_LDR_MASK),
      ([Dot ''svr'', Dot ''apic_enabled''], APIC_SPIV_APIC_ENABLED), ([Dot ''svr'', Dot ''focus_cpu''], APIC_SPIV_FOCUS_DISABLED),
      ([Dot ''esr'', Dot ''error_bits'', Dot ''send_cs_error''], APIC_ESR_SEND_CS),
      ([Dot ''esr'', Dot ''error_bits'', Dot ''receive_cs_error''], APIC_ESR_RECV_CS),
      ([Dot ''esr'', Dot ''error_bits'', Dot ''send_accept_error''], APIC_ESR_SEND_ACC),
      ([Dot ''esr'', Dot ''error_bits'', Dot ''receive_accept_error''], APIC_ESR_RECV_ACC),
      ([Dot ''esr'', Dot ''error_bits'', Dot ''send_illegal_vector''], APIC_ESR_SENDILL),
      ([Dot ''esr'', Dot ''error_bits'', Dot ''receive_illegal_vector''], APIC_ESR_RECVILL),
      ([Dot ''esr'', Dot ''error_bits'', Dot ''illegal_register_address''], APIC_ESR_ILLREGA),
      ([Dot ''icr1'', Dot ''vector''], APIC_VECTOR_MASK), ([Dot ''icr1'', Dot ''delivery_mode''], APIC_DM_EXTINT),
      ([Dot ''icr1'', Dot ''destination_mode''], APIC_DEST_LOGICAL), ([Dot ''icr1'', Dot ''delivery_status''], APIC_ICR_BUSY),
      ([Dot ''icr1'', Dot ''level''], APIC_INT_ASSERT), ([Dot ''icr1'', Dot ''trigger''], APIC_INT_LEVELTRIG),
      ([Dot ''icr1'', Dot ''__reserved_2''], APIC_ICR_RR_MASK), ([Dot ''icr1'', Dot ''shorthand''], APIC_DEST_ALLBUT),
      ([Dot ''lvt_timer'', Dot ''timer_mode''], APIC_LVT_TIMER_PERIODIC), ([Dot ''lvt_timer'', Dot ''mask''], APIC_LVT_MASKED),
      ([Dot ''lvt_timer'', Dot ''delivery_status''], APIC_SEND_PENDING),
      ([Dot ''lvt_thermal'', Dot ''mask''], APIC_LVT_MASKED), ([Dot ''lvt_pc'', Dot ''mask''], APIC_LVT_MASKED),
      ([Dot ''lvt_pc'', Dot ''delivery_mode''], APIC_MODE_MASK), ([Dot ''lvt_lint0'', Dot ''mask''], APIC_LVT_MASKED),
      ([Dot ''lvt_lint0'', Dot ''trigger''], APIC_LVT_LEVEL_TRIGGER), ([Dot ''lvt_lint0'', Dot ''remote_irr''], APIC_LVT_REMOTE_IRR),
      ([Dot ''lvt_lint0'', Dot ''polarity''], APIC_INPUT_POLARITY), ([Dot ''lvt_lint0'', Dot ''delivery_mode''], APIC_MODE_MASK),
      ([Dot ''lvt_lint1'', Dot ''mask''], APIC_LVT_MASKED), ([Dot ''lvt_lint1'', Dot ''trigger''], APIC_LVT_LEVEL_TRIGGER),
      ([Dot ''lvt_lint1'', Dot ''polarity''], APIC_INPUT_POLARITY), ([Dot ''lvt_error'', Dot ''mask''], APIC_LVT_MASKED)]"

lemma register_sizes:
  "size_of lapic_id = 128" "size_of lapic_version = 128" "size_of lapic_tpr = 128" "size_of lapic_apr = 128"
  "size_of lapic_ppr = 128" "size_of lapic_eoi = 128" "size_of lapic_ldr = 128" "size_of lapic_dfr = 128"
  "size_of lapic_svr = 128" "size_of lapic_isr = 128" "size_of lapic_tmr = 128" "size_of lapic_irr = 128"
  "size_of lapic_esr = 128" "size_of lapic_icr1 = 128" "size_of lapic_icr2 = 128" "size_of lapic_lvt_timer = 128"
  "size_of lapic_lvt_thermal = 128" "size_of lapic_lvt_pc = 128" "size_of lapic_lvt_lint0 = 128" "size_of lapic_lvt_lint1 = 128"
  "size_of lapic_lvt_error = 128" "size_of lapic_timer_icr = 128" "size_of lapic_timer_ccr = 128" "size_of lapic_timer_dcr = 128"
  "size_of reserved_reg = 128"
  by (simp_all add: lapic_decls round_up_def)

lemma local_apic_positions:
  "members True 0 local_apic_members =
     [(''__reserved_01'', 0, reserved_reg), (''__reserved_02'', 128, reserved_reg), (''id'', 256, lapic_id),
      (''version'', 384, lapic_version), (''__reserved_03'', 512, reserved_reg),
      (''__reserved_04'', 640, reserved_reg), (''__reserved_05'', 768, reserved_reg),
      (''__reserved_06'', 896, reserved_reg), (''tpr'', 1024, lapic_tpr), (''apr'', 1152, lapic_apr),
      (''ppr'', 1280, lapic_ppr), (''eoi'', 1408, lapic_eoi), (''__reserved_07'', 1536, reserved_reg),
      (''ldr'', 1664, lapic_ldr), (''dfr'', 1792, lapic_dfr), (''svr'', 1920, lapic_svr),
      (''isr'', 2048, Array 8 lapic_isr), (''tmr'', 3072, Array 8 lapic_tmr), (''irr'', 4096, Array 8 lapic_irr),
      (''esr'', 5120, lapic_esr), (''__reserved_08'', 5248, reserved_reg), (''__reserved_09'', 5376, reserved_reg),
      (''__reserved_10'', 5504, reserved_reg), (''__reserved_11'', 5632, reserved_reg),
      (''__reserved_12'', 5760, reserved_reg), (''__reserved_13'', 5888, reserved_reg),
      (''__reserved_14'', 6016, reserved_reg), (''icr1'', 6144, lapic_icr1), (''icr2'', 6272, lapic_icr2),
      (''lvt_timer'', 6400, lapic_lvt_timer), (''lvt_thermal'', 6528, lapic_lvt_thermal),
      (''lvt_pc'', 6656, lapic_lvt_pc), (''lvt_lint0'', 6784, lapic_lvt_lint0),
      (''lvt_lint1'', 6912, lapic_lvt_lint1), (''lvt_error'', 7040, lapic_lvt_error),
      (''timer_icr'', 7168, lapic_timer_icr), (''timer_ccr'', 7296, lapic_timer_ccr),
      (''__reserved_16'', 7424, reserved_reg), (''__reserved_17'', 7552, reserved_reg),
      (''__reserved_18'', 7680, reserved_reg), (''__reserved_19'', 7808, reserved_reg),
      (''timer_dcr'', 7936, lapic_timer_dcr), (''__reserved_20'', 8064, reserved_reg)]"
  by (simp add: local_apic_members_def round_up_def start_of_packed register_sizes)

lemma lapic_size: "sizeof struct_local_apic = 0x400"
  by (simp add: struct_local_apic_def local_apic_members_def sizeof_def round_up_def start_of_packed register_sizes)

lemma register_at:
  "select (Dot ''id'') struct_local_apic = Some (256, lapic_id)"
  "select (Dot ''version'') struct_local_apic = Some (384, lapic_version)"
  "select (Dot ''tpr'') struct_local_apic = Some (1024, lapic_tpr)"
  "select (Dot ''apr'') struct_local_apic = Some (1152, lapic_apr)"
  "select (Dot ''ppr'') struct_local_apic = Some (1280, lapic_ppr)"
  "select (Dot ''eoi'') struct_local_apic = Some (1408, lapic_eoi)"
  "select (Dot ''__reserved_07'') struct_local_apic = Some (1536, reserved_reg)"
  "select (Dot ''ldr'') struct_local_apic = Some (1664, lapic_ldr)"
  "select (Dot ''dfr'') struct_local_apic = Some (1792, lapic_dfr)"
  "select (Dot ''svr'') struct_local_apic = Some (1920, lapic_svr)"
  "select (Dot ''isr'') struct_local_apic = Some (2048, Array 8 lapic_isr)"
  "select (Dot ''tmr'') struct_local_apic = Some (3072, Array 8 lapic_tmr)"
  "select (Dot ''irr'') struct_local_apic = Some (4096, Array 8 lapic_irr)"
  "select (Dot ''esr'') struct_local_apic = Some (5120, lapic_esr)"
  "select (Dot ''icr1'') struct_local_apic = Some (6144, lapic_icr1)"
  "select (Dot ''icr2'') struct_local_apic = Some (6272, lapic_icr2)"
  "select (Dot ''lvt_timer'') struct_local_apic = Some (6400, lapic_lvt_timer)"
  "select (Dot ''lvt_thermal'') struct_local_apic = Some (6528, lapic_lvt_thermal)"
  "select (Dot ''lvt_pc'') struct_local_apic = Some (6656, lapic_lvt_pc)"
  "select (Dot ''lvt_lint0'') struct_local_apic = Some (6784, lapic_lvt_lint0)"
  "select (Dot ''lvt_lint1'') struct_local_apic = Some (6912, lapic_lvt_lint1)"
  "select (Dot ''lvt_error'') struct_local_apic = Some (7040, lapic_lvt_error)"
  "select (Dot ''timer_icr'') struct_local_apic = Some (7168, lapic_timer_icr)"
  "select (Dot ''timer_ccr'') struct_local_apic = Some (7296, lapic_timer_ccr)"
  "select (Dot ''timer_dcr'') struct_local_apic = Some (7936, lapic_timer_dcr)"
  unfolding struct_local_apic_def select.simps struct_member_members local_apic_positions by simp_all

lemma lapic_offsets: "map (\<lambda>(p, _). offsetof p struct_local_apic) lapic_registers = map (\<lambda>(_, r). Some (unat r)) lapic_registers"
  by (simp add: lapic_registers_def offsetof_def register_at register_sizes kconst)

lemma lapic_masks: "map (\<lambda>(p, _). field_mask p struct_local_apic) lapic_fields = map (\<lambda>(_, m). Some m) lapic_fields"
  by (simp add: lapic_fields_def field_mask_def register_at lapic_decls kconst mask_eq_exp_minus_1)

text \<open>
  Supplement (\<^verbatim>\<open>struct local_apic\<close>). The packed structure has 0x400 bytes, every register with a macro is at the
  offset of the macro, the element \<open>i\<close> of the three bit-map registers is 16 bytes times \<open>i\<close> behind the first, and every
  flag and field with a macro is under the mask of the macro, with two exceptions: the physical identifier
  has four bits where \<^verbatim>\<open>GET_APIC_ID\<close> takes eight, and the destination of the interrupt command register is
  declared as a union of bit fields, which puts it into the lowest bits and not into the highest.
\<close>

theorem apic_register_layout:
  "sizeof struct_local_apic = 0x400 \<and>
   map (\<lambda>(p, _). offsetof p struct_local_apic) lapic_registers = map (\<lambda>(_, r). Some (unat r)) lapic_registers \<and>
   map (\<lambda>i. offsetof [Dot ''isr'', Idx i] struct_local_apic) [0..<APIC_ISR_NR] = map (\<lambda>i. Some (unat APIC_ISR + 16 * i)) [0..<8] \<and>
   map (\<lambda>(p, _). field_mask p struct_local_apic) lapic_fields = map (\<lambda>(_, m). Some m) lapic_fields \<and>
   field_mask [Dot ''id'', Dot ''phys_apic_id''] struct_local_apic = Some (APIC_ID_MASK AND 0x0FFFFFFF) \<and>
   field_mask [Dot ''icr2'', Dot ''dest'', Dot ''phys_dest''] struct_local_apic = Some 0xF \<and>
   field_mask [Dot ''icr2'', Dot ''dest'', Dot ''logical_dest''] struct_local_apic = Some 0xFF \<and>
   SET_APIC_DEST_FIELD 0xFF = 0xFF000000"
proof -
  have "map (\<lambda>i. offsetof [Dot ''isr'', Idx i] struct_local_apic) [0..<APIC_ISR_NR] = map (\<lambda>i. Some (unat APIC_ISR + 16 * i)) [0..<8]"
    by (simp add: offsetof_def register_at register_sizes kconst)
  moreover have "field_mask [Dot ''id'', Dot ''phys_apic_id''] struct_local_apic = Some (APIC_ID_MASK AND 0x0FFFFFFF)"
    "field_mask [Dot ''icr2'', Dot ''dest'', Dot ''phys_dest''] struct_local_apic = Some 0xF"
    "field_mask [Dot ''icr2'', Dot ''dest'', Dot ''logical_dest''] struct_local_apic = Some 0xFF"
    by (simp_all add: field_mask_def register_at lapic_decls round_up_def kconst mask_eq_exp_minus_1)
  moreover have "SET_APIC_DEST_FIELD 0xFF = 0xFF000000" by (simp add: SET_APIC_DEST_FIELD_def)
  ultimately show ?thesis using lapic_size lapic_offsets lapic_masks by blast
qed

text \<open>
  Supplement (the field macros). Reading a field behind writing it gives the value, cut to the width of the field;
  writing the delivery mode changes nothing but the mode, for a mode of three bits; and an identifier of
  eight bits is its cluster and its number in the cluster.
\<close>

theorem apic_field_macros:
  "GET_APIC_ID (SET_APIC_ID x) = x AND 0xFF \<and> GET_APIC_LOGICAL_ID (SET_APIC_LOGICAL_ID x) = x AND 0xFF \<and>
   GET_APIC_DEST_FIELD (SET_APIC_DEST_FIELD x) = x AND 0xFF \<and> GET_APIC_TIMER_BASE (SET_APIC_TIMER_BASE x) = x AND 0x3 \<and>
   GET_APIC_DELIVERY_MODE (SET_APIC_DELIVERY_MODE x y) = y AND 0x7 \<and>
   SET_APIC_DELIVERY_MODE x (y AND 0x7) AND NOT APIC_MODE_MASK = x AND NOT APIC_MODE_MASK \<and>
   push_bit 4 (APIC_CLUSTERID x) OR APIC_CPUID x = x AND 0xFF"
proof -
  have m: "0xFF = (mask 8 :: u32)" "0x3 = (mask 2 :: u32)" "0x7 = (mask 3 :: u32)" "0xF = (mask 4 :: u32)"
    "0xF0 = (push_bit 4 (mask 4) :: u32)" "0x700 = (push_bit 8 (mask 3) :: u32)"
    by (simp_all add: mask_eq_exp_minus_1)
  show ?thesis
    by (intro conjI; rule bit_word_eqI) (auto simp: apic_macros kconst m bit_simps)
qed

end
