(* ===== verification/Cpu_Flags.thy ===== *)
theory Cpu_Flags
  imports Paging Apic
begin

text \<open>
  The flag constants of \<^verbatim>\<open>include/processor.h\<close>, \<^verbatim>\<open>include/pgtable.h\<close> and \<^verbatim>\<open>include/io_apic.h\<close> that the other theories
  do not need, and what they say together: the flags of a register do not overlap, the bit numbers of
  page-table entries are those of their masks, and the parts of a linear address make up the address.
\<close>

subsection \<open>Flags of the processor\<close>

definition X86_EFLAGS_CF :: u64 where [kconst]: "X86_EFLAGS_CF = 0x00000001"
definition X86_EFLAGS_PF :: u64 where [kconst]: "X86_EFLAGS_PF = 0x00000004"
definition X86_EFLAGS_AF :: u64 where [kconst]: "X86_EFLAGS_AF = 0x00000010"
definition X86_EFLAGS_ZF :: u64 where [kconst]: "X86_EFLAGS_ZF = 0x00000040"
definition X86_EFLAGS_SF :: u64 where [kconst]: "X86_EFLAGS_SF = 0x00000080"
definition X86_EFLAGS_TF :: u64 where [kconst]: "X86_EFLAGS_TF = 0x00000100"
definition X86_EFLAGS_IF :: u64 where [kconst]: "X86_EFLAGS_IF = 0x00000200"
definition X86_EFLAGS_DF :: u64 where [kconst]: "X86_EFLAGS_DF = 0x00000400"
definition X86_EFLAGS_OF :: u64 where [kconst]: "X86_EFLAGS_OF = 0x00000800"
definition X86_EFLAGS_IOPL :: u64 where [kconst]: "X86_EFLAGS_IOPL = 0x00003000"
definition X86_EFLAGS_NT :: u64 where [kconst]: "X86_EFLAGS_NT = 0x00004000"
definition X86_EFLAGS_RF :: u64 where [kconst]: "X86_EFLAGS_RF = 0x00010000"
definition X86_EFLAGS_VM :: u64 where [kconst]: "X86_EFLAGS_VM = 0x00020000"
definition X86_EFLAGS_AC :: u64 where [kconst]: "X86_EFLAGS_AC = 0x00040000"
definition X86_EFLAGS_VIF :: u64 where [kconst]: "X86_EFLAGS_VIF = 0x00080000"
definition X86_EFLAGS_VIP :: u64 where [kconst]: "X86_EFLAGS_VIP = 0x00100000"
definition X86_EFLAGS_ID :: u64 where [kconst]: "X86_EFLAGS_ID = 0x00200000"
definition X86_CR0_PE :: u64 where [kconst]: "X86_CR0_PE = 0x00000001"
definition X86_CR0_MP :: u64 where [kconst]: "X86_CR0_MP = 0x00000002"
definition X86_CR0_EM :: u64 where [kconst]: "X86_CR0_EM = 0x00000004"
definition X86_CR0_TS :: u64 where [kconst]: "X86_CR0_TS = 0x00000008"
definition X86_CR0_ET :: u64 where [kconst]: "X86_CR0_ET = 0x00000010"
definition X86_CR0_NE :: u64 where [kconst]: "X86_CR0_NE = 0x00000020"
definition X86_CR0_WP :: u64 where [kconst]: "X86_CR0_WP = 0x00010000"
definition X86_CR0_AM :: u64 where [kconst]: "X86_CR0_AM = 0x00040000"
definition X86_CR0_NW :: u64 where [kconst]: "X86_CR0_NW = 0x20000000"
definition X86_CR0_CD :: u64 where [kconst]: "X86_CR0_CD = 0x40000000"
definition X86_CR0_PG :: u64 where [kconst]: "X86_CR0_PG = 0x80000000"
definition X86_CR4_VME :: u64 where [kconst]: "X86_CR4_VME = 0x00000001"
definition X86_CR4_PVI :: u64 where [kconst]: "X86_CR4_PVI = 0x00000002"
definition X86_CR4_TSD :: u64 where [kconst]: "X86_CR4_TSD = 0x00000004"
definition X86_CR4_DE :: u64 where [kconst]: "X86_CR4_DE = 0x00000008"
definition X86_CR4_PSE :: u64 where [kconst]: "X86_CR4_PSE = 0x00000010"
definition X86_CR4_PAE :: u64 where [kconst]: "X86_CR4_PAE = 0x00000020"
definition X86_CR4_MCE :: u64 where [kconst]: "X86_CR4_MCE = 0x00000040"
definition X86_CR4_PCE :: u64 where [kconst]: "X86_CR4_PCE = 0x00000100"
definition X86_CR4_OSFXSR :: u64 where [kconst]: "X86_CR4_OSFXSR = 0x00000200"
definition X86_CR4_OSXMMEXCPT :: u64 where [kconst]: "X86_CR4_OSXMMEXCPT = 0x00000400"
definition X86_CR4_VMXE :: u64 where [kconst]: "X86_CR4_VMXE = 0x00002000"

definition eflags_masks :: "u64 list" where
  "eflags_masks = [X86_EFLAGS_CF, X86_EFLAGS_PF, X86_EFLAGS_AF, X86_EFLAGS_ZF, X86_EFLAGS_SF, X86_EFLAGS_TF, X86_EFLAGS_IF, X86_EFLAGS_DF, X86_EFLAGS_OF, X86_EFLAGS_IOPL, X86_EFLAGS_NT, X86_EFLAGS_RF, X86_EFLAGS_VM, X86_EFLAGS_AC, X86_EFLAGS_VIF, X86_EFLAGS_VIP, X86_EFLAGS_ID]"

definition cr0_masks :: "u64 list" where
  "cr0_masks = [X86_CR0_PE, X86_CR0_MP, X86_CR0_EM, X86_CR0_TS, X86_CR0_ET, X86_CR0_NE, X86_CR0_WP, X86_CR0_AM, X86_CR0_NW, X86_CR0_CD, X86_CR0_PG]"

definition cr4_masks :: "u64 list" where
  "cr4_masks = [X86_CR4_VME, X86_CR4_PVI, X86_CR4_TSD, X86_CR4_DE, X86_CR4_PSE, X86_CR4_PAE, X86_CR4_MCE, X86_CR4_PGE, X86_CR4_PCE, X86_CR4_OSFXSR, X86_CR4_OSXMMEXCPT, X86_CR4_VMXE]"

subsection \<open>Page-table entries and linear addresses\<close>

definition PAGE_BIT_PRESENT :: nat where [kconst]: "PAGE_BIT_PRESENT = 0"
definition PAGE_BIT_RW :: nat where [kconst]: "PAGE_BIT_RW = 1"
definition PAGE_BIT_USER :: nat where [kconst]: "PAGE_BIT_USER = 2"
definition PAGE_BIT_PWT :: nat where [kconst]: "PAGE_BIT_PWT = 3"
definition PAGE_BIT_PCD :: nat where [kconst]: "PAGE_BIT_PCD = 4"
definition PAGE_BIT_ACCESSED :: nat where [kconst]: "PAGE_BIT_ACCESSED = 5"
definition PAGE_BIT_DIRTY :: nat where [kconst]: "PAGE_BIT_DIRTY = 6"
definition PAGE_BIT_PSE :: nat where [kconst]: "PAGE_BIT_PSE = 7"
definition PAGE_BIT_GLOBAL :: nat where [kconst]: "PAGE_BIT_GLOBAL = 8"
definition PAGE_PWT :: u64 where [kconst]: "PAGE_PWT = 0x008"
definition PAGE_GLOBAL :: u64 where [kconst]: "PAGE_GLOBAL = 0x100"

definition VIRTUAL_MASK_SHIFT :: nat where [kconst]: "VIRTUAL_MASK_SHIFT = 48"
definition VIRTUAL_MASK :: u64 where "VIRTUAL_MASK = push_bit VIRTUAL_MASK_SHIFT 1 - 1"
definition PUD_SIZE :: u64 where "PUD_SIZE = push_bit PUD_SHIFT 1"
definition PUD_MASK :: u64 where "PUD_MASK = NOT (PUD_SIZE - 1)"
definition PMD_SIZE :: u64 where "PMD_SIZE = push_bit PMD_SHIFT 1"
definition PMD_MASK :: u64 where "PMD_MASK = NOT (PMD_SIZE - 1)"
definition PTE_SHIFT :: nat where [kconst]: "PTE_SHIFT = 12"
definition PTE_SIZE :: u64 where "PTE_SIZE = push_bit PTE_SHIFT 1"
definition AP_STACK_START :: u64 where "AP_STACK_START = 0xFFFF80000010E000"
definition BSP_STACK_START :: u64 where "BSP_STACK_START = KERNEL_STACK_START"

subsection \<open>The I/O APIC\<close>

definition IO_APIC_BASE :: u64 where [kconst]: "IO_APIC_BASE = 0xFFFF8000C0000000"
definition IO_APIC_ID :: u32 where [kconst]: "IO_APIC_ID = 0x0"
definition IO_APIC_ARB :: u32 where [kconst]: "IO_APIC_ARB = 0x2"
definition IO_APIC_REDTBL0 :: u32 where [kconst]: "IO_APIC_REDTBL0 = 0x10"
definition IO_APIC_REDTBL1 :: u32 where [kconst]: "IO_APIC_REDTBL1 = 0x12"
definition IO_APIC_REDTBL2 :: u32 where [kconst]: "IO_APIC_REDTBL2 = 0x14"
definition IO_APIC_REDTBL3 :: u32 where [kconst]: "IO_APIC_REDTBL3 = 0x16"
definition IO_APIC_REDTBL4 :: u32 where [kconst]: "IO_APIC_REDTBL4 = 0x18"
definition IO_APIC_REDTBL5 :: u32 where [kconst]: "IO_APIC_REDTBL5 = 0x1A"
definition IO_APIC_REDTBL6 :: u32 where [kconst]: "IO_APIC_REDTBL6 = 0x1C"
definition IO_APIC_REDTBL7 :: u32 where [kconst]: "IO_APIC_REDTBL7 = 0x1E"
definition IO_APIC_REDTBL8 :: u32 where [kconst]: "IO_APIC_REDTBL8 = 0x20"
definition IO_APIC_REDTBL9 :: u32 where [kconst]: "IO_APIC_REDTBL9 = 0x22"
definition IO_APIC_REDTBL10 :: u32 where [kconst]: "IO_APIC_REDTBL10 = 0x24"
definition IO_APIC_REDTBL11 :: u32 where [kconst]: "IO_APIC_REDTBL11 = 0x26"
definition IO_APIC_REDTBL12 :: u32 where [kconst]: "IO_APIC_REDTBL12 = 0x28"
definition IO_APIC_REDTBL13 :: u32 where [kconst]: "IO_APIC_REDTBL13 = 0x2A"
definition IO_APIC_REDTBL14 :: u32 where [kconst]: "IO_APIC_REDTBL14 = 0x2C"
definition IO_APIC_REDTBL15 :: u32 where [kconst]: "IO_APIC_REDTBL15 = 0x2E"
definition IO_APIC_REDTBL16 :: u32 where [kconst]: "IO_APIC_REDTBL16 = 0x30"
definition IO_APIC_REDTBL17 :: u32 where [kconst]: "IO_APIC_REDTBL17 = 0x32"
definition IO_APIC_REDTBL18 :: u32 where [kconst]: "IO_APIC_REDTBL18 = 0x34"
definition IO_APIC_REDTBL19 :: u32 where [kconst]: "IO_APIC_REDTBL19 = 0x36"
definition IO_APIC_REDTBL20 :: u32 where [kconst]: "IO_APIC_REDTBL20 = 0x38"
definition IO_APIC_REDTBL21 :: u32 where [kconst]: "IO_APIC_REDTBL21 = 0x3A"
definition IO_APIC_REDTBL22 :: u32 where [kconst]: "IO_APIC_REDTBL22 = 0x3C"
definition IO_APIC_REDTBL23 :: u32 where [kconst]: "IO_APIC_REDTBL23 = 0x3E"
definition IO_APIC_IRR :: u64 where [kconst]: "IO_APIC_IRR = push_bit 14 1"
definition IO_APIC_DELIVS :: u64 where [kconst]: "IO_APIC_DELIVS = push_bit 12 1"
definition IO_APIC_DELMOD_LOW :: u64 where [kconst]: "IO_APIC_DELMOD_LOW = push_bit 8 1"
definition IO_APIC_DELMOD_SMI :: u64 where [kconst]: "IO_APIC_DELMOD_SMI = push_bit 8 2"
definition IO_APIC_DELMOD_NMI :: u64 where [kconst]: "IO_APIC_DELMOD_NMI = push_bit 8 4"
definition IO_APIC_DELMOD_INIT :: u64 where [kconst]: "IO_APIC_DELMOD_INIT = push_bit 8 5"
definition IO_APIC_DELMOD_ExtINT :: u64 where [kconst]: "IO_APIC_DELMOD_ExtINT = push_bit 8 7"

definition io_apic_entries :: "u32 list" where
  "io_apic_entries = [IO_APIC_REDTBL0, IO_APIC_REDTBL1, IO_APIC_REDTBL2, IO_APIC_REDTBL3, IO_APIC_REDTBL4, IO_APIC_REDTBL5, IO_APIC_REDTBL6, IO_APIC_REDTBL7, IO_APIC_REDTBL8, IO_APIC_REDTBL9, IO_APIC_REDTBL10, IO_APIC_REDTBL11, IO_APIC_REDTBL12, IO_APIC_REDTBL13, IO_APIC_REDTBL14, IO_APIC_REDTBL15, IO_APIC_REDTBL16, IO_APIC_REDTBL17, IO_APIC_REDTBL18, IO_APIC_REDTBL19, IO_APIC_REDTBL20, IO_APIC_REDTBL21, IO_APIC_REDTBL22, IO_APIC_REDTBL23]"

subsection \<open>Lemmas\<close>

fun apart :: "u64 list \<Rightarrow> bool" where
  "apart [] \<longleftrightarrow> True"
| "apart (m # ms) \<longleftrightarrow> m \<noteq> 0 \<and> list_all (\<lambda>x. m AND x = 0) ms \<and> apart ms"

lemma masks_apart: "apart eflags_masks" "apart cr0_masks" "apart cr4_masks"
  by (simp_all add: eflags_masks_def cr0_masks_def cr4_masks_def kconst)

lemma page_bits:
  "[PAGE_PRESENT, PAGE_RW, PAGE_USER, PAGE_PWT, PAGE_PCD, PAGE_ACCESSED, PAGE_DIRTY, PAGE_PSE, PAGE_GLOBAL] =
   map (\<lambda>n. push_bit n 1) [PAGE_BIT_PRESENT, PAGE_BIT_RW, PAGE_BIT_USER, PAGE_BIT_PWT, PAGE_BIT_PCD, PAGE_BIT_ACCESSED, PAGE_BIT_DIRTY, PAGE_BIT_PSE, PAGE_BIT_GLOBAL]"
  by (simp add: kconst)

lemma io_apic_entry_numbers: "io_apic_entries = map (\<lambda>i. IO_APIC_REDTBL_BASE + 2 * of_nat i) [0..<24]"
  by (simp add: io_apic_entries_def upt_rec kconst)

lemma address_part: "push_bit k (drop_bit k a AND mask n) OR (a AND mask k) = a AND mask (k + n)" for a :: u64
  by (rule bit_word_eqI) (auto simp: bit_simps)

lemma address_rest: "(a AND NOT (mask k)) OR (a AND mask k) = a" for a :: u64
  by (rule bit_word_eqI) (auto simp: bit_simps)

text \<open>
  Supplement (\<^verbatim>\<open>pgtable.h\<close>, parts of an address). The four indices and the offset in the page make up the 48
  bits of a linear address that the processor translates; clearing with the mask of a level keeps the
  start of the region that an entry of the level below covers.
\<close>

theorem linear_address_parts:
  "push_bit PGDIR_SHIFT (pgd_index a) OR push_bit PUD_SHIFT (pud_index a) OR push_bit PMD_SHIFT (pmd_index a) OR
     push_bit PTE_SHIFT (pte_index a) OR (a AND (PTE_SIZE - 1)) = a AND VIRTUAL_MASK"
  "(a AND PMD_MASK) OR push_bit PTE_SHIFT (pte_index a) OR (a AND (PTE_SIZE - 1)) = a"
  "(a AND PUD_MASK) OR push_bit PMD_SHIFT (pmd_index a) OR push_bit PTE_SHIFT (pte_index a) OR (a AND (PTE_SIZE - 1)) = a"
proof -
  have m: "PTRS_PER_TABLE - 1 = (mask 9 :: u64)" "PTE_SIZE - 1 = (mask 12 :: u64)" "VIRTUAL_MASK = (mask 48 :: u64)"
    "PMD_MASK = (NOT (mask 21) :: u64)" "PUD_MASK = (NOT (mask 30) :: u64)"
    by (simp_all add: mask_eq_exp_minus_1 kconst PTE_SIZE_def VIRTUAL_MASK_def PMD_MASK_def PMD_SIZE_def PUD_MASK_def PUD_SIZE_def
        push_bit_eq_mult)
  have s: "PGDIR_SHIFT = 39" "PUD_SHIFT = 30" "PMD_SHIFT = 21" "PTE_SHIFT = 12" "PAGE_SHIFT = 12" by (simp_all add: kconst)
  have n: "12 + 9 = (21 :: nat)" "21 + 9 = (30 :: nat)" "30 + 9 = (39 :: nat)" "39 + 9 = (48 :: nat)" by simp_all
  note p = address_part [of 12 a 9, unfolded n] address_part [of 21 a 9, unfolded n] address_part [of 30 a 9, unfolded n]
    address_part [of 39 a 9, unfolded n]
  note d = pgd_index_def pud_index_def pmd_index_def pte_index_def m s or.assoc
  show "push_bit PGDIR_SHIFT (pgd_index a) OR push_bit PUD_SHIFT (pud_index a) OR push_bit PMD_SHIFT (pmd_index a) OR
     push_bit PTE_SHIFT (pte_index a) OR (a AND (PTE_SIZE - 1)) = a AND VIRTUAL_MASK"
    by (simp only: d p)
  show "(a AND PMD_MASK) OR push_bit PTE_SHIFT (pte_index a) OR (a AND (PTE_SIZE - 1)) = a"
    by (simp only: d p address_rest)
  show "(a AND PUD_MASK) OR push_bit PMD_SHIFT (pmd_index a) OR push_bit PTE_SHIFT (pte_index a) OR (a AND (PTE_SIZE - 1)) = a"
    by (simp only: d p address_rest)
qed

end
