(* ===== verification/Bus_Types.thy ===== *)
theory Bus_Types
  imports Mp_Spec
begin

text \<open>
  The bus types of the MP specification as \<^verbatim>\<open>include/mp_spec.h\<close> names them, and how \<^verbatim>\<open>MP_bus_info\<close> files a bus of
  each type.
\<close>

definition BUSTYPE_EISA :: string where [kconst]: "BUSTYPE_EISA = ''EISA''"
definition BUSTYPE_ISA :: string where [kconst]: "BUSTYPE_ISA = ''ISA''"
definition BUSTYPE_INTERN :: string where [kconst]: "BUSTYPE_INTERN = ''INTERN''"
definition BUSTYPE_MCA :: string where [kconst]: "BUSTYPE_MCA = ''MCA''"
definition BUSTYPE_VL :: string where [kconst]: "BUSTYPE_VL = ''VL''"
definition BUSTYPE_PCI :: string where [kconst]: "BUSTYPE_PCI = ''PCI''"
definition BUSTYPE_PCMCIA :: string where [kconst]: "BUSTYPE_PCMCIA = ''PCMCIA''"
definition BUSTYPE_CBUS :: string where [kconst]: "BUSTYPE_CBUS = ''CBUS''"
definition BUSTYPE_CBUSII :: string where [kconst]: "BUSTYPE_CBUSII = ''CBUSII''"
definition BUSTYPE_FUTURE :: string where [kconst]: "BUSTYPE_FUTURE = ''FUTURE''"
definition BUSTYPE_MBI :: string where [kconst]: "BUSTYPE_MBI = ''MBI''"
definition BUSTYPE_MBII :: string where [kconst]: "BUSTYPE_MBII = ''MBII''"
definition BUSTYPE_MPI :: string where [kconst]: "BUSTYPE_MPI = ''MPI''"
definition BUSTYPE_MPSA :: string where [kconst]: "BUSTYPE_MPSA = ''MPSA''"
definition BUSTYPE_NUBUS :: string where [kconst]: "BUSTYPE_NUBUS = ''NUBUS''"
definition BUSTYPE_TC :: string where [kconst]: "BUSTYPE_TC = ''TC''"
definition BUSTYPE_VME :: string where [kconst]: "BUSTYPE_VME = ''VME''"
definition BUSTYPE_XPRESS :: string where [kconst]: "BUSTYPE_XPRESS = ''XPRESS''"

definition bus_types :: "string list" where
  "bus_types = [BUSTYPE_EISA, BUSTYPE_ISA, BUSTYPE_INTERN, BUSTYPE_MCA, BUSTYPE_VL, BUSTYPE_PCI,
     BUSTYPE_PCMCIA, BUSTYPE_CBUS, BUSTYPE_CBUSII, BUSTYPE_FUTURE, BUSTYPE_MBI, BUSTYPE_MBII,
     BUSTYPE_MPI, BUSTYPE_MPSA, BUSTYPE_NUBUS, BUSTYPE_TC, BUSTYPE_VME, BUSTYPE_XPRESS]"

definition MAX_APICS :: nat where [kconst]: "MAX_APICS = 2"

datatype mp_irq_source_types = mp_INT | mp_NMI | mp_SMI | mp_ExtINT

fun irq_source_code :: "mp_irq_source_types \<Rightarrow> u8" where
  "irq_source_code mp_INT = 0" | "irq_source_code mp_NMI = 1" | "irq_source_code mp_SMI = 2" | "irq_source_code mp_ExtINT = 3"

definition MP_IRQDIR_DEFAULT :: u16 where [kconst]: "MP_IRQDIR_DEFAULT = 0"
definition MP_IRQDIR_HIGH :: u16 where [kconst]: "MP_IRQDIR_HIGH = 1"
definition MP_IRQDIR_LOW :: u16 where [kconst]: "MP_IRQDIR_LOW = 3"

text \<open>An entry of the table: the name is filled with blanks to six characters.\<close>

definition bus_entry :: "u8 \<Rightarrow> string \<Rightarrow> mpc_config_bus" where
  "bus_entry nr name = \<lparr>bus_id = nr, bus_type = take 6 (bytes (name @ replicate 6 (CHR '' '')))\<rparr>"

text \<open>What \<^verbatim>\<open>str\<close> is behind \<^verbatim>\<open>str[3] = 0\<close>.\<close>

lemma bus_names:
  "list_all (\<lambda>name. c_string ((take 6 (bytes (name @ replicate 6 (CHR '' ''))))[3 := 0]) = bytes (take 3 (name @ '' ''))) bus_types"
  "list_all (\<lambda>name. strcmp_str (bytes (take 3 (name @ '' ''))) (bytes ''ISA'') = 0 \<longleftrightarrow> name = BUSTYPE_ISA) bus_types"
  "list_all (\<lambda>name. strcmp_str (bytes (take 3 (name @ '' ''))) (bytes ''PCI'') = 0 \<longleftrightarrow> name = BUSTYPE_PCI) bus_types"
  by code_simp+

lemma bytes_back: "map (\<lambda>c. char_of (unat c)) (bytes s) = s"
proof -
  have "unat (of_nat (of_char c) :: u8) = of_char c" for c :: char
    by (simp add: unat_of_nat take_bit_nat_eq_self)
  then show ?thesis by (simp add: bytes_def comp_def)
qed

text \<open>
  C37 (bus types). Of the eighteen types of the specification exactly ISA is recorded as not being a PCI bus, and
  exactly PCI is recorded as one with the next number. For the other sixteen nothing but a message is
  left, so that an EISA or a Micro Channel bus passes for a PCI bus later on; and the message
  has the first three characters of the type only.
\<close>

theorem bus_types_filed:
  assumes "mp_arrays s" "name \<in> set bus_types"
  shows "\<exists>s'. MP_bus_info (bus_entry nr name) s = Done s' \<and>
    (\<forall>n. bitmap_bit (mp_bus_not_pci s') n \<longleftrightarrow>
       (if n = unat nr \<and> name = BUSTYPE_ISA then True else if n = unat nr \<and> name = BUSTYPE_PCI then False
        else bitmap_bit (mp_bus_not_pci s) n)) \<and>
    mp_current_pci_id s' = mp_current_pci_id s + (if name = BUSTYPE_PCI then 1 else 0) \<and>
    (name = BUSTYPE_PCI \<longrightarrow> mp_bus_id_to_pci_bus s' ! unat nr = mp_current_pci_id s) \<and>
    (name \<noteq> BUSTYPE_ISA \<and> name \<noteq> BUSTYPE_PCI \<longrightarrow>
       s' = mp_say ''MPCTable: Unknown bustype detected: %s\<newline>'' [ArgStr (take 3 (name @ '' ''))] s)"
proof -
  let ?nr = "ucast nr :: u64"
  have nr: "unat ?nr = unat nr" "unat nr < 256"
    using unsigned_less [of nr, where ?'a = nat] by (simp_all add: unsigned_ucast_eq take_bit_nat_eq_self)
  have in_map: "unat ?nr < 64 * length (mp_bus_not_pci s)" "unat nr < length (mp_bus_id_to_pci_bus s)"
    using assms(1) nr by (simp_all add: mp_arrays_def kconst)
  obtain w1 where w1: "set_bit_m ?nr (mp_bus_not_pci s) = Done w1" using set_bit_m_in [OF in_map(1)] by blast
  obtain w0 where w0: "clear_bit ?nr (mp_bus_not_pci s) = Done w0"
    using in_map(1) by (simp add: clear_bit_def on_bit_def bit_word_in)
  have "BUSTYPE_ISA \<noteq> BUSTYPE_PCI" by (simp add: kconst)
  moreover have "c_string ((bus_type (bus_entry nr name))[3 := 0]) = bytes (take 3 (name @ '' ''))"
    "strcmp_str (bytes (take 3 (name @ '' ''))) (bytes ''ISA'') = 0 \<longleftrightarrow> name = BUSTYPE_ISA"
    "strcmp_str (bytes (take 3 (name @ '' ''))) (bytes ''PCI'') = 0 \<longleftrightarrow> name = BUSTYPE_PCI"
    using bus_names assms(2) by (auto simp: list_all_iff bus_entry_def)
  moreover have "bus_id (bus_entry nr name) = nr" by (simp add: bus_entry_def)
  ultimately show ?thesis
    using bitmap_bit_set [OF w1] bitmap_bit_clear [OF w0] w0 w1 nr in_map(2)
    by (auto simp: MP_bus_info_def Let_def aput_def mp_say_def bytes_back)
qed

theorem bus_types_filed_witness:
  "\<exists>s'. MP_bus_info (bus_entry 7 BUSTYPE_ISA) demo_mp = Done s' \<and> bitmap_bit (mp_bus_not_pci s') 7 \<and>
     \<not> bitmap_bit (mp_bus_not_pci s') 6"
proof -
  have "BUSTYPE_ISA \<in> set bus_types" by (simp add: bus_types_def)
  moreover have "\<not> bitmap_bit (mp_bus_not_pci demo_mp) 6" by (simp add: bitmap_bit_def demo_mp_def)
  ultimately show ?thesis using bus_types_filed [OF demo_mp_arrays, of BUSTYPE_ISA 7] by auto
qed

end
