(* ===== verification/Scan_Codes.thy ===== *)
theory Scan_Codes
  imports Keyboard
begin

text \<open>
  The remaining scan codes of \<^verbatim>\<open>include/keyboard.h\<close>, and what the translation tables make of these keys.
\<close>

definition SCAN_TAB :: u8 where [kconst]: "SCAN_TAB = 0x0f"
definition SCAN_KOR :: u8 where [kconst]: "SCAN_KOR = 0x72"
definition SCAN_ESC :: u8 where [kconst]: "SCAN_ESC = 0x1"
definition SCAN_F1 :: u8 where [kconst]: "SCAN_F1 = 0x3b"
definition SCAN_F2 :: u8 where [kconst]: "SCAN_F2 = 0x3c"
definition SCAN_F3 :: u8 where [kconst]: "SCAN_F3 = 0x3d"
definition SCAN_F4 :: u8 where [kconst]: "SCAN_F4 = 0x3e"
definition SCAN_F5 :: u8 where [kconst]: "SCAN_F5 = 0x3f"
definition SCAN_F6 :: u8 where [kconst]: "SCAN_F6 = 0x40"
definition SCAN_F7 :: u8 where [kconst]: "SCAN_F7 = 0x41"
definition SCAN_F8 :: u8 where [kconst]: "SCAN_F8 = 0x42"
definition SCAN_F9 :: u8 where [kconst]: "SCAN_F9 = 0x43"
definition SCAN_F10 :: u8 where [kconst]: "SCAN_F10 = 0x44"
definition SCAN_F11 :: u8 where [kconst]: "SCAN_F11 = 0x57"
definition SCAN_F12 :: u8 where [kconst]: "SCAN_F12 = 0x58"
definition SCAN_INSERT :: u8 where [kconst]: "SCAN_INSERT = 0x52"
definition SCAN_HOME :: u8 where [kconst]: "SCAN_HOME = 0x47"
definition SCAN_PAGEUP :: u8 where [kconst]: "SCAN_PAGEUP = 0x49"
definition SCAN_DELETE :: u8 where [kconst]: "SCAN_DELETE = 0x53"
definition SCAN_END :: u8 where [kconst]: "SCAN_END = 0x4f"
definition SCAN_PAGEDOWN :: u8 where [kconst]: "SCAN_PAGEDOWN = 0x51"
definition SCAN_UP :: u8 where [kconst]: "SCAN_UP = 0x48"
definition SCAN_DOWN :: u8 where [kconst]: "SCAN_DOWN = 0x50"
definition SCAN_LEFT :: u8 where [kconst]: "SCAN_LEFT = 0x4b"
definition SCAN_RIGHT :: u8 where [kconst]: "SCAN_RIGHT = 0x4d"
definition SCAN_DIVIDE :: u8 where [kconst]: "SCAN_DIVIDE = 0x35"
definition SCAN_MULTIPLY :: u8 where [kconst]: "SCAN_MULTIPLY = 0x37"
definition SCAN_SUBTRACT :: u8 where [kconst]: "SCAN_SUBTRACT = 0x4a"
definition SCAN_ADD :: u8 where [kconst]: "SCAN_ADD = 0x4e"
definition SCAN_SMALLENTER :: u8 where [kconst]: "SCAN_SMALLENTER = 0x1c"
definition SCAN_POINT :: u8 where [kconst]: "SCAN_POINT = 0x53"
definition SCAN_PAD_0 :: u8 where [kconst]: "SCAN_PAD_0 = 0x52"
definition SCAN_PAD_1 :: u8 where [kconst]: "SCAN_PAD_1 = 0x4f"
definition SCAN_PAD_2 :: u8 where [kconst]: "SCAN_PAD_2 = 0x50"
definition SCAN_PAD_3 :: u8 where [kconst]: "SCAN_PAD_3 = 0x51"
definition SCAN_PAD_4 :: u8 where [kconst]: "SCAN_PAD_4 = 0x4b"
definition SCAN_PAD_5 :: u8 where [kconst]: "SCAN_PAD_5 = 0x4c"
definition SCAN_PAD_6 :: u8 where [kconst]: "SCAN_PAD_6 = 0x4d"
definition SCAN_PAD_7 :: u8 where [kconst]: "SCAN_PAD_7 = 0x47"
definition SCAN_PAD_8 :: u8 where [kconst]: "SCAN_PAD_8 = 0x48"
definition SCAN_PAD_9 :: u8 where [kconst]: "SCAN_PAD_9 = 0xc9"

definition function_keys :: "u8 list" where
  "function_keys = [SCAN_F1, SCAN_F2, SCAN_F3, SCAN_F4, SCAN_F5, SCAN_F6, SCAN_F7, SCAN_F8, SCAN_F9, SCAN_F10, SCAN_F11, SCAN_F12]"

definition pad_digits :: "u8 list" where
  "pad_digits = [SCAN_PAD_0, SCAN_PAD_1, SCAN_PAD_2, SCAN_PAD_3, SCAN_PAD_4, SCAN_PAD_5, SCAN_PAD_6, SCAN_PAD_7, SCAN_PAD_8]"

lemma pad_rows: "list_all (\<lambda>row. list_all (\<lambda>scan. row ! unat scan \<in> set [0, 1, 2]) pad_digits) scan_to_ascii"
  unfolding pad_digits_def kconst scan_to_ascii_def by code_simp

lemma translate_cases:
  assumes "translate st scan = Done c"
  shows "c = 0xff \<or> (\<exists>row \<in> set scan_to_ascii. unat scan < length row \<and> c = row ! unat scan)"
  using assms by (auto simp: translate_def table_code_def aget_def split: if_splits intro: nth_mem)

text \<open>
  Supplement (the number pad). Under no state of the modifier keys does a digit of the number pad type a
  digit. The code that the header gives for the ninth is that of a release, which the handler ignores.
\<close>

theorem pad_types_no_digit:
  assumes "scan \<in> set pad_digits" "translate st scan = Done c"
  shows "c \<in> {0, 1, 2, 0xff}"
  using translate_cases [OF assms(2)] pad_rows assms(1) by (auto simp: list_all_iff)

lemma pad_9_release: "SCAN_PAD_9 AND 0x80 \<noteq> 0"
  by (simp add: kconst)

text \<open>
  Supplement (the function keys). Without modifier keys every function key gives the code 3, but F5, which
  gives a backspace and so deletes the last character.
\<close>

theorem function_keys_translate:
  "map (translate 0) function_keys = map (\<lambda>k. Done (if k = SCAN_F5 then 0x08 else 0x03)) function_keys"
  unfolding function_keys_def kconst by code_simp

text \<open>Supplement (the other named keys), without modifier keys.\<close>

theorem named_keys_translate:
  "map (translate 0) [SCAN_ESC, SCAN_TAB, SCAN_DIVIDE, SCAN_MULTIPLY, SCAN_SUBTRACT, SCAN_ADD, SCAN_SMALLENTER, SCAN_DELETE] =
     map Done [0x1b, 0x09, 0x2f, 0x2a, 0x2d, 0x2b, 0x0d, 0x7f]"
  unfolding kconst by code_simp

end
