(* ===== verification/User_Api.thy ===== *)
theory User_Api
  imports Descriptors Kernel_Types
begin

text \<open>
  What the headers declare for parts of the kernel that are still to come: task states and process flags
  (\<^verbatim>\<open>sched.h\<close>, \<^verbatim>\<open>process.h\<close>), devices (\<^verbatim>\<open>char_device.h\<close>) and the wrappers of the system calls (\<^verbatim>\<open>syscall.h\<close>,
  \<^verbatim>\<open>user_syscall.h\<close>), and what a system call does under the descriptor table that the kernel sets up now.
\<close>

subsection \<open>Tasks\<close>

definition TASK_RUNNING :: u64 where [kconst]: "TASK_RUNNING = 0"
definition TASK_INTERRUPTIBLE :: u64 where [kconst]: "TASK_INTERRUPTIBLE = 1"
definition TASK_UNINTERRUPTIBLE :: u64 where [kconst]: "TASK_UNINTERRUPTIBLE = 2"
definition TASK_STOPPED :: u64 where [kconst]: "TASK_STOPPED = 4"
definition TASK_TRACED :: u64 where [kconst]: "TASK_TRACED = 8"
definition EXIT_ZOMBIE :: u64 where [kconst]: "EXIT_ZOMBIE = 16"
definition EXIT_DEAD :: u64 where [kconst]: "EXIT_DEAD = 32"
definition TASK_NONINTERACTIVE :: u64 where [kconst]: "TASK_NONINTERACTIVE = 64"

definition PF_ALIGNWARN :: u64 where [kconst]: "PF_ALIGNWARN = 0x00000001"
definition PF_STARTING :: u64 where [kconst]: "PF_STARTING = 0x00000002"
definition PF_EXITING :: u64 where [kconst]: "PF_EXITING = 0x00000004"
definition PF_DEAD :: u64 where [kconst]: "PF_DEAD = 0x00000008"
definition PF_FORKNOEXEC :: u64 where [kconst]: "PF_FORKNOEXEC = 0x00000040"
definition PF_SUPERPRIV :: u64 where [kconst]: "PF_SUPERPRIV = 0x00000100"
definition PF_DUMPCORE :: u64 where [kconst]: "PF_DUMPCORE = 0x00000200"
definition PF_SIGNALED :: u64 where [kconst]: "PF_SIGNALED = 0x00000400"
definition PF_MEMALLOC :: u64 where [kconst]: "PF_MEMALLOC = 0x00000800"
definition PF_FLUSHER :: u64 where [kconst]: "PF_FLUSHER = 0x00001000"
definition PF_USED_MATH :: u64 where [kconst]: "PF_USED_MATH = 0x00002000"
definition PF_FREEZE :: u64 where [kconst]: "PF_FREEZE = 0x00004000"
definition PF_NOFREEZE :: u64 where [kconst]: "PF_NOFREEZE = 0x00008000"
definition PF_FROZEN :: u64 where [kconst]: "PF_FROZEN = 0x00010000"
definition PF_FSTRANS :: u64 where [kconst]: "PF_FSTRANS = 0x00020000"
definition PF_KSWAPD :: u64 where [kconst]: "PF_KSWAPD = 0x00040000"
definition PF_SWAPOFF :: u64 where [kconst]: "PF_SWAPOFF = 0x00080000"
definition PF_LESS_THROTTLE :: u64 where [kconst]: "PF_LESS_THROTTLE = 0x00100000"
definition PF_SYNCWRITE :: u64 where [kconst]: "PF_SYNCWRITE = 0x00200000"
definition PF_BORROWED_MM :: u64 where [kconst]: "PF_BORROWED_MM = 0x00400000"
definition PF_RANDOMIZE :: u64 where [kconst]: "PF_RANDOMIZE = 0x00800000"

definition PROCESS_RUNNING :: u64 where [kconst]: "PROCESS_RUNNING = 1"
definition PROCESS_INTERRUPTIBLE :: u64 where [kconst]: "PROCESS_INTERRUPTIBLE = 2"
definition PROCESS_UNINTERRUPTIBLE :: u64 where [kconst]: "PROCESS_UNINTERRUPTIBLE = 3"
definition PROCESS_STOPPED :: u64 where [kconst]: "PROCESS_STOPPED = 4"

definition task_states :: "u64 list" where
  "task_states = [TASK_INTERRUPTIBLE, TASK_UNINTERRUPTIBLE, TASK_STOPPED, TASK_TRACED, EXIT_ZOMBIE, EXIT_DEAD, TASK_NONINTERACTIVE]"

definition process_flags :: "u64 list" where
  "process_flags = [PF_ALIGNWARN, PF_STARTING, PF_EXITING, PF_DEAD, PF_FORKNOEXEC, PF_SUPERPRIV, PF_DUMPCORE,
     PF_SIGNALED, PF_MEMALLOC, PF_FLUSHER, PF_USED_MATH, PF_FREEZE, PF_NOFREEZE, PF_FROZEN,
     PF_FSTRANS, PF_KSWAPD, PF_SWAPOFF, PF_LESS_THROTTLE, PF_SYNCWRITE, PF_BORROWED_MM, PF_RANDOMIZE]"

definition struct_task_struct :: cty where [struct_decls]:
  "struct_task_struct = Struct False [(''status'', U64), (''pid'', U64), (''name'', Array 16 U8), (''cr3'', U64)]"

definition struct_mm_struct :: cty where [struct_decls]:
  "struct_mm_struct = Struct False
     [(''start_code'', U64), (''end_code'', U64), (''start_data'', U64), (''end_data'', U64), (''start_bss'', U64), (''end_bss'', U64),
      (''start_brk'', U64), (''brk'', U64), (''start_stack'', U64), (''start_heap'', U64), (''end_heap'', U64),
      (''start_percpu'', U64), (''end_percpu'', U64), (''start_reserved'', U64), (''end_reserved'', U64)]"

subsection \<open>Character devices\<close>

definition struct_char_device :: cty where [struct_decls]:
  "struct_char_device = Struct False [(''major'', U32), (''name'', Pointer), (''fops'', Pointer)]"

definition struct_file_operations :: cty where [struct_decls]:
  "struct_file_operations = Struct False
     [(''read'', Pointer), (''write'', Pointer), (''open'', Pointer), (''close'', Pointer), (''ioctl'', Pointer)]"

subsection \<open>System calls\<close>

definition SYSCALL_VECTOR :: nat where [kconst]: "SYSCALL_VECTOR = 0x80"

definition NR_sys_syscall_test :: u32 where [kconst]: "NR_sys_syscall_test = 0"
definition NR_sys_cputstr :: u32 where [kconst]: "NR_sys_cputstr = 1"
definition NR_sys_cgetstr :: u32 where [kconst]: "NR_sys_cgetstr = 2"
definition NR_sys_cprintf :: u32 where [kconst]: "NR_sys_cprintf = 3"
definition NR_sys_system_info :: u32 where [kconst]: "NR_sys_system_info = 4"
definition NR_sys_turnoff :: u32 where [kconst]: "NR_sys_turnoff = 5"
definition NR_sys_open :: u32 where [kconst]: "NR_sys_open = 6"
definition NR_sys_close :: u32 where [kconst]: "NR_sys_close = 7"
definition NR_sys_read :: u32 where [kconst]: "NR_sys_read = 8"
definition NR_sys_write :: u32 where [kconst]: "NR_sys_write = 9"

record user_regs =
  rax :: u64
  rbx :: u64
  rcx :: u64
  rdx :: u64

text \<open>
  \<^verbatim>\<open>int n\<close> at a privilege level: the processor refuses a gate with a lower level, which is no result
  here. Otherwise the entry point of the gate runs; what it does to the registers is a parameter, as
  the entry points are assembly.
\<close>

definition gate_dpl :: "idt_desc \<Rightarrow> nat" where
  "gate_dpl d = unat (drop_bit 13 (gate_type d) AND 3)"

definition software_interrupt ::
    "(u64 \<Rightarrow> user_regs \<Rightarrow> user_regs) \<Rightarrow> idt_desc list \<Rightarrow> nat \<Rightarrow> nat \<Rightarrow> user_regs \<Rightarrow> user_regs option" where
  "software_interrupt run idt cpl n r =
     (if n < length idt \<and> cpl \<le> gate_dpl (idt ! n) then Some (run (gate_handler (idt ! n)) r) else None)"

text \<open>The wrappers, with the result truncated to its declared type. The number is an \<^verbatim>\<open>int\<close> in \<^verbatim>\<open>eax\<close>.\<close>

definition syscall_result :: "user_regs option \<Rightarrow> 'r::len word option" where
  "syscall_result r = map_option (\<lambda>r. ucast (rax r)) r"

definition syscall0 :: "(user_regs \<Rightarrow> user_regs option) \<Rightarrow> u32 \<Rightarrow> user_regs \<Rightarrow> 'r::len word option" where
  "syscall0 int_0x80 nr r = syscall_result (int_0x80 (r\<lparr>rax := ucast nr\<rparr>))"

definition syscall1 :: "(user_regs \<Rightarrow> user_regs option) \<Rightarrow> u32 \<Rightarrow> u64 \<Rightarrow> user_regs \<Rightarrow> 'r::len word option" where
  "syscall1 int_0x80 nr arg1 r = syscall_result (int_0x80 (r\<lparr>rax := ucast nr, rbx := arg1\<rparr>))"

definition syscall2 :: "(user_regs \<Rightarrow> user_regs option) \<Rightarrow> u32 \<Rightarrow> u64 \<Rightarrow> u64 \<Rightarrow> user_regs \<Rightarrow> 'r::len word option" where
  "syscall2 int_0x80 nr arg1 arg2 r = syscall_result (int_0x80 (r\<lparr>rax := ucast nr, rbx := arg1, rcx := arg2\<rparr>))"

definition syscall3 :: "(user_regs \<Rightarrow> user_regs option) \<Rightarrow> u32 \<Rightarrow> u64 \<Rightarrow> u64 \<Rightarrow> u64 \<Rightarrow> user_regs \<Rightarrow> 'r::len word option" where
  "syscall3 int_0x80 nr arg1 arg2 arg3 r =
     syscall_result (int_0x80 (r\<lparr>rax := ucast nr, rbx := arg1, rcx := arg2, rdx := arg3\<rparr>))"

subsection \<open>Lemmas\<close>

text \<open>The states of tasks and the flags of processes can be combined: no two share a bit.\<close>

lemma task_bits_apart:
  "sorted_wrt (\<lambda>a b. a AND b = 0) task_states" "sorted_wrt (\<lambda>a b. a AND b = 0) process_flags"
  by (simp_all add: task_states_def process_flags_def kconst)

lemma declared_sizes: "sizeof struct_task_struct = 40" "sizeof struct_mm_struct = 120" "sizeof struct_char_device = 24"
  "sizeof struct_file_operations = 40"
  by (simp_all add: layout_simps struct_decls)

lemma syscall_gate:
  assumes "idt_init isr s = Done s'"
  defines "idt \<equiv> declare_irqs isr (idt_table s')"
  shows "length idt = IDT_SIZE" "gate_handler (idt ! SYSCALL_VECTOR) = isr Ignore_isr" "gate_dpl (idt ! SYSCALL_VECTOR) = 0"
proof -
  have "vector_entry SYSCALL_VECTOR = (Ignore_isr, DESTYPE_TRAP)"
    by (simp add: vector_entry_def exception_vectors_def VECTOR_BASE_def SYSCALL_VECTOR_def)
  then show "length idt = IDT_SIZE" "gate_handler (idt ! SYSCALL_VECTOR) = isr Ignore_isr" "gate_dpl (idt ! SYSCALL_VECTOR) = 0"
    using initial_vectors [of SYSCALL_VECTOR isr] idt_init_table [OF assms(1)]
    by (simp_all add: idt_def gate_dpl_def kconst)
qed

text \<open>
  Supplement (system calls). With the descriptor table of this kernel no system call reaches an operation: vector 0x80
  still has the ignoring entry point, behind a gate for the kernel only. From user code the instruction is refused;
  from kernel code the call comes back with its own number, as that entry point restores the registers.
\<close>

theorem syscalls_ignored:
  assumes "idt_init isr s = Done s'" and restores: "\<And>r. run (isr Ignore_isr) r = r" and "LENGTH('r) \<le> 64"
  defines "int_0x80 \<equiv> \<lambda>cpl. software_interrupt run (declare_irqs isr (idt_table s')) cpl SYSCALL_VECTOR"
  shows "0 < cpl \<Longrightarrow> syscall0 (int_0x80 cpl) nr r = (None :: 'r::len word option)"
    and "0 < cpl \<Longrightarrow> syscall3 (int_0x80 cpl) nr a b c r = (None :: 'r word option)"
    and "syscall0 (int_0x80 0) nr r = (Some (ucast nr) :: 'r word option)"
    and "syscall1 (int_0x80 0) nr a r = (Some (ucast nr) :: 'r word option)"
    and "syscall2 (int_0x80 0) nr a b r = (Some (ucast nr) :: 'r word option)"
    and "syscall3 (int_0x80 0) nr a b c r = (Some (ucast nr) :: 'r word option)"
proof -
  have "ucast (ucast nr :: u64) = (ucast nr :: 'r word)" by (rule bit_word_eqI) (use assms(3) in \<open>auto simp: bit_simps dest: bit_imp_le_length\<close>)
  then show "0 < cpl \<Longrightarrow> syscall0 (int_0x80 cpl) nr r = (None :: 'r::len word option)"
    "0 < cpl \<Longrightarrow> syscall3 (int_0x80 cpl) nr a b c r = (None :: 'r word option)"
    "syscall0 (int_0x80 0) nr r = (Some (ucast nr) :: 'r word option)"
    "syscall1 (int_0x80 0) nr a r = (Some (ucast nr) :: 'r word option)"
    "syscall2 (int_0x80 0) nr a b r = (Some (ucast nr) :: 'r word option)"
    "syscall3 (int_0x80 0) nr a b c r = (Some (ucast nr) :: 'r word option)"
    using syscall_gate [OF assms(1)]
    by (simp_all add: syscall0_def syscall1_def syscall2_def syscall3_def syscall_result_def int_0x80_def
        software_interrupt_def restores IDT_SIZE_def SYSCALL_VECTOR_def)
qed

end
