(* ===== verification/Lock_Test.thy ===== *)
theory Lock_Test
  imports Bitops
begin

text \<open>
  The test program of the spin lock (\<^verbatim>\<open>docs/spinlock_test/lock.c\<close>): three threads that take and give the
  lock for ever and check inside the critical section that it looks taken, and a monitor that
  reports the preemption counter. The program has its own copies of the lock operations, for words
  of 32 bits; other than in the kernel, its \<^verbatim>\<open>set_bit\<close> is not a locked instruction, so that the release
  of the lock is a load and a store. A step is one access to shared memory or one output; the
  program has a memory fence behind each change of the counter, and memory is taken as
  sequentially consistent.
\<close>

named_theorems macros \<open>the macros of the program\<close>

subsection \<open>The operations on the lock\<close>

definition SPIN_LOCK_UNLOCKED_test :: u32 where [kconst]: "SPIN_LOCK_UNLOCKED_test = 1"
definition SPIN_LOCK_LOCKED_test :: u32 where [kconst]: "SPIN_LOCK_LOCKED_test = 0"

definition spin_lock_init_test :: "u32 \<Rightarrow> u32" where
  "spin_lock_init_test w = SPIN_LOCK_UNLOCKED_test"

text \<open>\<^verbatim>\<open>test_bit(0, addr)\<close>: \<^verbatim>\<open>btl; sbbl %0,%0\<close>.\<close>

definition test_bit_test :: "u32 \<Rightarrow> u32" where
  "test_bit_test w = (if bit w 0 then - 1 else 0)"

text \<open>What \<^verbatim>\<open>set_bit(0, addr)\<close> stores when it has loaded a value.\<close>

definition set_bit_test :: "u32 \<Rightarrow> u32" where
  "set_bit_test w = Bit_Operations.set_bit 0 w"

text \<open>What the macros store when they have loaded the counter, and the two unused counter operations.\<close>

definition preempt_disable_test :: "u32 \<Rightarrow> u32" where [macros]: "preempt_disable_test v = v + 1"
definition preempt_enable_test :: "u32 \<Rightarrow> u32" where [macros]: "preempt_enable_test v = v - 1"
definition atomic_inc_test :: "u32 \<Rightarrow> u32" where [macros]: "atomic_inc_test v = v + 1"
definition atomic_dec_test :: "u32 \<Rightarrow> u32" where [macros]: "atomic_dec_test v = v - 1"
definition spin_is_locked_test :: "u32 \<Rightarrow> u32" where [macros]: "spin_is_locked_test w = test_bit_test w"

text \<open>
  Result and new lock word. Only the low byte of \<^verbatim>\<open>tmp\<close> is written; the rest is what the register
  held before, as the operand is an output only.
\<close>

definition raw_spin_trylock_test :: "u32 \<Rightarrow> u32 \<Rightarrow> u32 \<times> u32" where
  "raw_spin_trylock_test eax w = ((eax AND NOT 0xFF) OR (w AND 0xFF), w AND NOT 0xFF)"

subsection \<open>Threads\<close>

text \<open>
  The points of \<^verbatim>\<open>thread_func\<close>: the normal section; inside \<^verbatim>\<open>spin_lock\<close> the increment of the counter, the attempt,
  the decrement and the relaxed waiting; the critical section with its first output, the check, and
  its two other outputs; inside \<^verbatim>\<open>spin_unlock\<close> the setting of the bit and the decrement; and
  behind the early return.
\<close>

datatype place = Normal | Disable | Disable_store u32 | Attempt | Backoff | Backoff_store u32 | Relaxing
  | Announce | Check | Report | Farewell | Unlocking | Unlock_store u32 | Leave | Leave_store u32 | Returned

datatype printed = Lock_by nat | Error | Preempt u32 | Unlock_by nat | Relax | Monitor u32

datatype watch = Compare | Print | Remember

record test_state =
  word :: u32
  count :: u32
  place_of :: "nat \<Rightarrow> place"
  watching :: watch
  old :: u32
  outputs :: "printed list"

definition go :: "nat \<Rightarrow> place \<Rightarrow> test_state \<Rightarrow> test_state" where
  "go i p s = s\<lparr>place_of := (place_of s)(i := p)\<rparr>"

definition put :: "printed \<Rightarrow> test_state \<Rightarrow> test_state" where
  "put x s = s\<lparr>outputs := outputs s @ [x]\<rparr>"

text \<open>The next step of thread \<open>i\<close> when the register holds \<open>eax\<close>; none behind the return.\<close>

definition spin_lock_test :: "u32 \<Rightarrow> nat \<Rightarrow> test_state \<Rightarrow> test_state option" where
  "spin_lock_test eax i s =
     (case place_of s i of
        Disable \<Rightarrow> Some (go i (Disable_store (count s)) s)
      | Disable_store v \<Rightarrow> Some (go i Attempt (s\<lparr>count := preempt_disable_test v\<rparr>))
      | Attempt \<Rightarrow>
          (case raw_spin_trylock_test eax (word s) of (t, w) \<Rightarrow>
             Some (go i (if t \<noteq> 0 then Announce else Backoff) (s\<lparr>word := w\<rparr>)))
      | Backoff \<Rightarrow> Some (go i (Backoff_store (count s)) s)
      | Backoff_store v \<Rightarrow> Some (go i Relaxing (s\<lparr>count := preempt_enable_test v\<rparr>))
      | Relaxing \<Rightarrow> Some (if spin_is_locked_test (word s) \<noteq> 0 then put Relax s else go i Disable s)
      | _ \<Rightarrow> None)"

definition spin_unlock_test :: "nat \<Rightarrow> test_state \<Rightarrow> test_state option" where
  "spin_unlock_test i s =
     (case place_of s i of
        Unlocking \<Rightarrow> Some (go i (Unlock_store (set_bit_test (word s))) s)
      | Unlock_store w \<Rightarrow> Some (go i Leave (s\<lparr>word := w\<rparr>))
      | Leave \<Rightarrow> Some (go i (Leave_store (count s)) s)
      | Leave_store v \<Rightarrow> Some (go i Normal (s\<lparr>count := preempt_enable_test v\<rparr>))
      | _ \<Rightarrow> None)"

definition thread_func :: "u32 \<Rightarrow> nat \<Rightarrow> test_state \<Rightarrow> test_state option" where
  "thread_func eax i s =
     (case place_of s i of
        Normal \<Rightarrow> Some (go i Disable s)
      | Announce \<Rightarrow> Some (go i Check (put (Lock_by i) s))
      | Check \<Rightarrow> Some (if test_bit_test (word s) \<noteq> 0 then go i Returned (put Error s) else go i Report s)
      | Report \<Rightarrow> Some (go i Farewell (put (Preempt (count s)) s))
      | Farewell \<Rightarrow> Some (go i Unlocking (put (Unlock_by i) s))
      | Returned \<Rightarrow> None
      | _ \<Rightarrow> (case spin_lock_test eax i s of Some s' \<Rightarrow> Some s' | None \<Rightarrow> spin_unlock_test i s))"

text \<open>The monitor reads the counter anew for the comparison, for the output and for its memory.\<close>

definition preempt_monitor :: "test_state \<Rightarrow> test_state" where
  "preempt_monitor s =
     (case watching s of
        Compare \<Rightarrow> if count s \<noteq> old s then s\<lparr>watching := Print\<rparr> else s
      | Print \<Rightarrow> (put (Monitor (count s)) s)\<lparr>watching := Remember\<rparr>
      | Remember \<Rightarrow> s\<lparr>old := count s, watching := Compare\<rparr>)"

text \<open>
  \<^verbatim>\<open>main\<close>: the three threads and the monitor run, in any order. \<open>G\<close> says which contents the
  register can have at an attempt.
\<close>

definition test_start :: test_state where
  "test_start = \<lparr>word = SPIN_LOCK_UNLOCKED_test, count = 0, place_of = (\<lambda>_. Normal), watching = Compare, old = 0, outputs = []\<rparr>"

inductive test_step :: "(u32 \<Rightarrow> bool) \<Rightarrow> test_state \<Rightarrow> test_state \<Rightarrow> bool" for G :: "u32 \<Rightarrow> bool" where
  thread: "i < 3 \<Longrightarrow> G eax \<Longrightarrow> thread_func eax i s = Some s' \<Longrightarrow> test_step G s s'"
| monitor: "test_step G s (preempt_monitor s)"

inductive test_reach :: "(u32 \<Rightarrow> bool) \<Rightarrow> test_state \<Rightarrow> bool" for G :: "u32 \<Rightarrow> bool" where
  start: "test_reach G test_start"
| step: "test_reach G s \<Longrightarrow> test_step G s s' \<Longrightarrow> test_reach G s'"

subsection \<open>Schedules\<close>

text \<open>A run of the threads in a given order, each with the contents of the register.\<close>

fun schedule :: "(nat \<times> u32) list \<Rightarrow> test_state \<Rightarrow> test_state option" where
  "schedule [] s = Some s"
| "schedule ((i, eax) # xs) s = Option.bind (thread_func eax i s) (schedule xs)"

lemma schedule_steps:
  "schedule xs s = Some s' \<Longrightarrow> list_all (\<lambda>(i, eax). i < 3 \<and> G eax) xs \<Longrightarrow> (test_step G)\<^sup>*\<^sup>* s s'"
proof (induction xs arbitrary: s)
  case (Cons x xs)
  obtain i eax where x: "x = (i, eax)" by force
  obtain s1 where s1: "thread_func eax i s = Some s1" "schedule xs s1 = Some s'"
    using Cons.prems(1) x by (auto simp: bind_eq_Some_conv)
  have "test_step G s s1" using Cons.prems(2) x s1(1) by (auto intro: thread)
  then show ?case using Cons.IH [OF s1(2)] Cons.prems(2) by (auto intro: converse_rtranclp_into_rtranclp)
qed simp

lemma steps_reach: "(test_step G)\<^sup>*\<^sup>* s s' \<Longrightarrow> test_reach G s \<Longrightarrow> test_reach G s'"
  by (induction rule: rtranclp_induct) (auto intro: test_reach.step)

lemma schedule_reach:
  "schedule xs test_start = Some s \<Longrightarrow> list_all (\<lambda>(i, eax). i < 3 \<and> G eax) xs \<Longrightarrow> test_reach G s"
  using schedule_steps steps_reach test_reach.start by blast

subsection \<open>The invariant\<close>

definition inside :: "place \<Rightarrow> bool" where
  "inside p \<longleftrightarrow> (case p of Announce \<Rightarrow> True | Check \<Rightarrow> True | Report \<Rightarrow> True | Farewell \<Rightarrow> True | Unlocking \<Rightarrow> True
     | Unlock_store w \<Rightarrow> True | Returned \<Rightarrow> True | _ \<Rightarrow> False)"

definition owns :: "test_state \<Rightarrow> nat \<Rightarrow> bool" where
  "owns s i \<longleftrightarrow> inside (place_of s i)"

text \<open>Threads that have found the lock taken and have not begun a new attempt.\<close>

definition discouraged :: "place \<Rightarrow> bool" where
  "discouraged p \<longleftrightarrow> (case p of Backoff \<Rightarrow> True | Backoff_store v \<Rightarrow> True | Relaxing \<Rightarrow> True | _ \<Rightarrow> False)"

definition test_inv :: "test_state \<Rightarrow> bool" where
  "test_inv s \<longleftrightarrow>
     (word s = 1 \<and> (\<forall>i. \<not> owns s i) \<and> (\<exists>i<3. \<not> discouraged (place_of s i)) \<or>
      word s = 0 \<and> (\<exists>i<3. \<forall>j. owns s j \<longleftrightarrow> j = i)) \<and>
     (\<forall>i w. place_of s i = Unlock_store w \<longrightarrow> w = 1) \<and> (\<forall>i. place_of s i \<noteq> Returned) \<and> Error \<notin> set (outputs s)"

lemmas test_defs = go_def put_def owns_def inside_def discouraged_def test_bit_test_def set_bit_test_def

lemma go_simps [simp]:
  "place_of (go i p s) = (place_of s)(i := p)" "word (go i p s) = word s" "outputs (go i p s) = outputs s" "count (go i p s) = count s"
  "place_of (put x s) = place_of s" "word (put x s) = word s" "outputs (put x s) = outputs s @ [x]" "count (put x s) = count s"
  by (simp_all add: go_def put_def)

lemma inside_simps [simp]:
  "inside Announce" "inside Check" "inside Report" "inside Farewell" "inside Unlocking" "inside (Unlock_store w)" "inside Returned"
  "\<not> inside Normal" "\<not> inside Disable" "\<not> inside (Disable_store v)" "\<not> inside Attempt" "\<not> inside Backoff"
  "\<not> inside (Backoff_store v)" "\<not> inside Relaxing" "\<not> inside Leave" "\<not> inside (Leave_store v)"
  by (simp_all add: inside_def)

lemma discouraged_simps [simp]:
  "discouraged Backoff" "discouraged (Backoff_store v)" "discouraged Relaxing" "\<not> discouraged Normal" "\<not> discouraged Disable"
  "\<not> discouraged (Disable_store v)" "\<not> discouraged Attempt" "\<not> discouraged Leave" "\<not> discouraged (Leave_store v)"
  "\<not> discouraged Announce" "\<not> discouraged Check" "\<not> discouraged Report" "\<not> discouraged Farewell"
  "\<not> discouraged Unlocking" "\<not> discouraged (Unlock_store w)"
  by (simp_all add: discouraged_def)

text \<open>A step that neither takes nor gives the lock and does not discourage the thread.\<close>

lemma inv_go:
  assumes "test_inv s" "inside p = inside (place_of s i)" "\<not> discouraged p \<or> discouraged (place_of s i) \<or> word s = 0"
    and "p \<noteq> Returned" "\<And>w. p = Unlock_store w \<Longrightarrow> w = 1"
    and s': "word s' = word s" "place_of s' = (place_of s)(i := p)" "Error \<notin> set (outputs s')"
  shows "test_inv s'"
proof -
  have "owns s' j = owns s j" for j using assms(2) s'(2) by (simp add: owns_def)
  moreover have "\<exists>i<3. \<not> discouraged (place_of s' i)" if "word s = 1" "\<exists>i<3. \<not> discouraged (place_of s i)"
    using that assms(3) s'(2) by auto
  moreover have "\<forall>j w. place_of s' j = Unlock_store w \<longrightarrow> w = 1" "\<forall>j. place_of s' j \<noteq> Returned"
    using assms(1,4,5) s'(2) by (auto simp: test_inv_def)
  ultimately show ?thesis using assms(1) s'(1,3) by (auto simp: test_inv_def)
qed

lemma lock_values: "(1 :: u32) AND 0xFF = 1" "(1 :: u32) AND NOT 0xFF = 0"
  by simp_all

lemma inv_thread:
  assumes "test_inv s" "i < 3" "eax AND NOT 0xFF = 0" "thread_func eax i s = Some s'"
  shows "test_inv s'"
proof -
  have quiet: "Error \<notin> set (outputs s)" using assms(1) by (simp add: test_inv_def)
  show ?thesis
  proof (cases "place_of s i")
  case Attempt
  have not_own: "\<not> owns s i" by (simp add: owns_def Attempt)
  show ?thesis
  proof (cases "word s = 1")
    case True
    then have "s' = go i Announce (s\<lparr>word := 0\<rparr>)"
      using assms(3,4) Attempt by (simp add: thread_func_def spin_lock_test_def raw_spin_trylock_test_def lock_values)
    then show ?thesis using assms(1,2) True by (auto simp: test_inv_def owns_def)
  next
    case False
    then have w: "word s = 0" using assms(1) by (auto simp: test_inv_def)
    then have same: "s\<lparr>word := 0\<rparr> = s" by simp
    have "s' = go i Backoff (s\<lparr>word := 0\<rparr>)"
      using assms(3,4) Attempt w by (simp add: thread_func_def spin_lock_test_def raw_spin_trylock_test_def)
    then have "s' = go i Backoff s" unfolding same .
    then show ?thesis using Attempt w quiet by (intro inv_go [OF assms(1), of Backoff i]) simp_all
  qed
next
  case (Unlock_store w)
  then have "owns s i" by (simp add: owns_def)
  then have own: "owns s i" "w = 1" "word s = 0" using assms(1) Unlock_store by (auto simp: test_inv_def)
  then have only: "owns s j \<longleftrightarrow> j = i" for j using assms(1) by (auto simp: test_inv_def)
  have "s' = go i Leave (s\<lparr>word := 1\<rparr>)"
    using assms(4) Unlock_store own(2) by (simp add: thread_func_def spin_lock_test_def spin_unlock_test_def)
  then show ?thesis using assms(1,2) only own by (auto simp: test_inv_def owns_def)
next
  case Check
  then have "owns s i" by (simp add: owns_def)
  then have "word s = 0" using assms(1) by (auto simp: test_inv_def)
  then have "s' = go i Report s" using assms(4) Check by (simp add: thread_func_def test_bit_test_def)
  then show ?thesis using Check quiet by (intro inv_go [OF assms(1), of Report i]) simp_all
next
  case Unlocking
  then have "owns s i" by (simp add: owns_def)
  then have "word s = 0" using assms(1) by (auto simp: test_inv_def)
  then have "s' = go i (Unlock_store 1) s"
    using assms(4) Unlocking by (simp add: thread_func_def spin_lock_test_def spin_unlock_test_def set_bit_test_def)
  then show ?thesis using Unlocking quiet by (intro inv_go [OF assms(1), of "Unlock_store 1" i]) simp_all
next
  case Relaxing
  show ?thesis
  proof (cases "spin_is_locked_test (word s) \<noteq> 0")
    case True
    then have "s' = put Relax s" using assms(4) Relaxing by (simp add: thread_func_def spin_lock_test_def)
    then show ?thesis using Relaxing quiet by (intro inv_go [OF assms(1), of Relaxing i]) (simp_all add: fun_eq_iff)
  next
    case False
    then have "s' = go i Disable s" using assms(4) Relaxing by (simp add: thread_func_def spin_lock_test_def)
    then show ?thesis using Relaxing quiet by (intro inv_go [OF assms(1), of Disable i]) simp_all
  qed
qed (use assms(4) quiet in \<open>auto simp: thread_func_def spin_lock_test_def spin_unlock_test_def
      intro!: inv_go [OF assms(1), of "place_of s' i" i]\<close>)
qed

lemma inv_monitor: "test_inv s \<Longrightarrow> test_inv (preempt_monitor s)"
  by (cases "watching s") (auto simp: preempt_monitor_def test_inv_def owns_def)

lemma inv_step: "test_step G s s' \<Longrightarrow> test_inv s \<Longrightarrow> (\<And>eax. G eax \<Longrightarrow> eax AND NOT 0xFF = 0) \<Longrightarrow> test_inv s'"
  by (induction rule: test_step.induct) (blast intro: inv_thread inv_monitor)+

lemma inv_reach:
  assumes "test_reach G s" "\<And>eax. G eax \<Longrightarrow> eax AND NOT 0xFF = 0"
  shows "test_inv s"
  using assms(1)
proof (induction rule: test_reach.induct)
  case start
  show ?case by (simp add: test_inv_def test_start_def owns_def kconst exI [of _ 0])
qed (use inv_step assms(2) in blast)

text \<open>
  C35 (the test never fails). If the register is clear above its low byte, then in every interleaving of the
  three threads and the monitor no thread reports an error or returns, at most one thread is between
  taking and giving the lock, and the lock is marked free exactly while nobody is there, although the
  release is not atomic.
\<close>

theorem lock_test_silent:
  assumes "test_reach G s" "\<And>eax. G eax \<Longrightarrow> eax AND NOT 0xFF = 0"
  shows "Error \<notin> set (outputs s) \<and> place_of s k \<noteq> Returned \<and> (owns s i \<and> owns s j \<longrightarrow> i = j) \<and>
    (word s = SPIN_LOCK_UNLOCKED_test \<longleftrightarrow> (\<forall>i. \<not> owns s i))"
  using inv_reach [OF assms] by (auto simp: test_inv_def kconst)

subsection \<open>Progress\<close>

text \<open>The way of a thread that is alone from each place outside of the waiting to the critical section.\<close>

fun way :: "place \<Rightarrow> nat" where
  "way Leave = 5" | "way (Leave_store v) = 4"
| "way Normal = 3" | "way Disable = 2" | "way (Disable_store v) = 1" | "way p = 0"

lemma reach_section:
  assumes "word s = 1" "\<not> owns s i" "\<not> discouraged (place_of s i)"
  shows "\<exists>s'. schedule (replicate (way (place_of s i) + 1) (i, eax)) s = Some s' \<and> place_of s' i = Announce"
  using assms
  by (cases "place_of s i") (simp_all add: owns_def numeral_eq_Suc thread_func_def spin_lock_test_def
      spin_unlock_test_def raw_spin_trylock_test_def lock_values or_eq_0_iff)

text \<open>
  C36 (the test does not get stuck). If the register is clear above its low byte, then whatever the threads have
  done, some thread owns the lock or can get into the critical section: when the lock is free, not all three threads are in the waiting loop, which
  goes on as long as the lock is free.
\<close>

theorem lock_test_progress:
  assumes "test_reach G s" "\<And>eax. G eax \<Longrightarrow> eax AND NOT 0xFF = 0" "G eax"
  shows "\<exists>s' i. (test_step G)\<^sup>*\<^sup>* s s' \<and> i < 3 \<and> owns s' i"
proof (cases "word s = 1")
  case True
  then obtain i where i: "i < 3" "\<not> discouraged (place_of s i)" "\<not> owns s i"
    using inv_reach [OF assms(1,2)] by (auto simp: test_inv_def)
  obtain s' where "schedule (replicate (way (place_of s i) + 1) (i, eax)) s = Some s'" "place_of s' i = Announce"
    using reach_section [OF True i(3,2)] by blast
  moreover from this(1) have "(test_step G)\<^sup>*\<^sup>* s s'"
    by (rule schedule_steps) (simp add: list_all_iff i(1) assms(3))
  ultimately show ?thesis using i(1) by (intro exI [of _ s'] exI [of _ i]) (simp add: owns_def)
next
  case False
  then show ?thesis using inv_reach [OF assms(1,2)] by (auto simp: test_inv_def)
qed

subsection \<open>Particular runs\<close>

lemmas run_simps = thread_func_def spin_lock_test_def spin_unlock_test_def raw_spin_trylock_test_def test_bit_test_def set_bit_test_def
  test_start_def kconst macros

text \<open>
  Supplement (the test finds the uninitialised register). If the register can hold other bits, the program can print its
  error: the second thread gets in with the wrong result, leaves, and the first finds the lock free.
\<close>

theorem lock_test_finds_dirty_register:
  "\<exists>s. test_reach (\<lambda>_. True) s \<and> Error \<in> set (outputs s)"
proof -
  let ?xs = "[(0, 0), (0, 0), (0, 0), (0, 0), (1, 0), (1, 0), (1, 0), (1, 0x100), (1, 0), (1, 0), (1, 0), (1, 0), (1, 0), (1, 0), (0, 0), (0, 0)]"
  have "\<exists>s. schedule ?xs test_start = Some s \<and> Error \<in> set (outputs s)"
    by (simp add: run_simps)
  then show ?thesis using schedule_reach [of ?xs _ "\<lambda>_. True"] by (auto simp: list_all_iff)
qed

text \<open>
  Supplement (the preemption counter). The counter is shared by the threads and changed by a load and a store: with a
  clear register all threads can be back in the normal section while the counter is not zero, because
  an increment by one thread has overwritten the decrement by another.
\<close>

theorem lock_test_counter_lost:
  "\<exists>s. test_reach (\<lambda>eax. eax = 0) s \<and> place_of s = (\<lambda>_. Normal) \<and> count s = 1"
proof -
  let ?xs = "[(0, 0), (0, 0), (0, 0), (0, 0), (0, 0), (0, 0), (0, 0), (0, 0), (0, 0), (0, 0), (0, 0), (1, 0), (1, 0), (0, 0),
    (1, 0), (1, 0), (1, 0), (1, 0), (1, 0), (1, 0), (1, 0), (1, 0), (1, 0), (1, 0)]"
  have "\<exists>s. schedule ?xs test_start = Some s \<and> place_of s = (\<lambda>_. Normal) \<and> count s = 1"
    by (simp add: run_simps fun_eq_iff)
  then show ?thesis using schedule_reach [of ?xs _ "\<lambda>eax. eax = 0"] by (auto simp: list_all_iff)
qed

subsection \<open>Witnesses\<close>

theorem lock_test_silent_witness:
  "\<exists>s. schedule [(0, 0), (0, 0), (0, 0), (0, 0)] test_start = Some s \<and> owns s 0 \<and> \<not> owns s 1 \<and> Error \<notin> set (outputs s)"
proof -
  have "\<exists>s. schedule [(0, 0), (0, 0), (0, 0), (0, 0)] test_start = Some s \<and> owns s 0"
    by (simp add: run_simps owns_def)
  then obtain s where s: "schedule [(0, 0), (0, 0), (0, 0), (0, 0)] test_start = Some s" "owns s 0" by blast
  have "test_reach (\<lambda>eax. eax = 0) s" by (rule schedule_reach [OF s(1)]) simp
  from lock_test_silent [OF this, of _ 0 1] s show ?thesis by auto
qed

theorem lock_test_progress_witness:
  "\<exists>s'. (test_step (\<lambda>eax. eax = 0))\<^sup>*\<^sup>* test_start s' \<and> (\<exists>i<3. owns s' i)"
  using lock_test_progress [OF test_reach.start, of "\<lambda>eax. eax = 0" 0] by auto

end
