(* ===== verification/Host_Tools.thy ===== *)
theory Host_Tools
  imports Bitops
begin

text \<open>
  The programs of the build and of the tests that run on the development machine:
  \<^verbatim>\<open>utils/gen_section.c\<close>, which turns the symbol table of the kernel into definitions for the assembler, and
  \<^verbatim>\<open>unittest/test_atomic.c\<close>. Files and the standard output are strings; a write behind an array
  is a fault.
\<close>

subsection \<open>Reading\<close>

definition newline :: char where "newline = CHR 0x0A"

definition isspace :: "char \<Rightarrow> bool" where
  "isspace c \<longleftrightarrow> c = CHR '' '' \<or> c \<in> set [CHR 0x09, CHR 0x0A, CHR 0x0B, CHR 0x0C, CHR 0x0D]"

text \<open>\<^verbatim>\<open>fgets\<close>: at most one character less than the size, up to the end of the line.\<close>

fun get_chars :: "nat \<Rightarrow> string \<Rightarrow> string \<times> string" where
  "get_chars 0 cs = ([], cs)"
| "get_chars (Suc k) [] = ([], [])"
| "get_chars (Suc k) (c # cs) =
     (if c = newline then ([c], cs) else case get_chars k cs of (l, r) \<Rightarrow> (c # l, r))"

definition fgets :: "nat \<Rightarrow> string \<Rightarrow> (string \<times> string) option" where
  "fgets n cs = (if cs = [] then None else Some (get_chars (n - 1) cs))"

text \<open>The conversions \<^verbatim>\<open>%s\<close> and \<^verbatim>\<open> %c\<close> of \<^verbatim>\<open>sscanf\<close>.\<close>

definition scan_word :: "string \<Rightarrow> (string \<times> string) option" where
  "scan_word cs =
     (let r = dropWhile isspace cs; w = takeWhile (\<lambda>c. \<not> isspace c) r
      in if w = [] then None else Some (w, drop (length w) r))"

definition scan_char :: "string \<Rightarrow> (char \<times> string) option" where
  "scan_char cs = (case dropWhile isspace cs of [] \<Rightarrow> None | c # r \<Rightarrow> Some (c, r))"

subsection \<open>\<^verbatim>\<open>gen_section\<close>\<close>

text \<open>The three variables that a line is scanned into keep their values where the line ends early.\<close>

record scanned =
  address :: string
  flag :: char
  symbol :: string

text \<open>The text of a C string in an array of so many characters.\<close>

definition store_string :: "nat \<Rightarrow> string \<Rightarrow> string outcome" where
  "store_string n w = (if length w < n then Done w else Fault)"

definition scan_line :: "string \<Rightarrow> scanned \<Rightarrow> scanned outcome" where
  "scan_line line v =
     (case scan_word (takeWhile (\<lambda>c. c \<noteq> CHR 0x00) line) of
        None \<Rightarrow> Done v
      | Some (w, r) \<Rightarrow>
          obind (store_string 20 w) (\<lambda>a.
          let v1 = v\<lparr>address := a\<rparr>
          in case scan_char r of
               None \<Rightarrow> Done v1
             | Some (c, r1) \<Rightarrow>
                 let v2 = v1\<lparr>flag := c\<rparr>
                 in case scan_word r1 of
                      None \<Rightarrow> Done v2
                    | Some (w2, _) \<Rightarrow> obind (store_string 64 w2) (\<lambda>sy. Done (v2\<lparr>symbol := sy\<rparr>))))"

definition equ_line :: "scanned \<Rightarrow> string" where
  "equ_line v =
     symbol v @ replicate (20 - length (symbol v)) (CHR '' '') @ '' equ 0x'' @ address v @ [newline]"

lemma get_chars_shorter: "0 < k \<Longrightarrow> cs \<noteq> [] \<Longrightarrow> length (snd (get_chars k cs)) < length cs"
proof -
  have le: "length (snd (get_chars k cs)) \<le> length cs" for k cs
    by (induction k cs rule: get_chars.induct) (auto split: prod.splits)
  show "0 < k \<Longrightarrow> cs \<noteq> [] \<Longrightarrow> length (snd (get_chars k cs)) < length cs"
    using le [of "k - 1" "tl cs"] by (cases k; cases cs) (auto split: prod.splits simp: less_Suc_eq_le)
qed

function equ_lines :: "scanned \<Rightarrow> string \<Rightarrow> string outcome" where
  "equ_lines v cs =
     (case fgets 127 cs of
        None \<Rightarrow> Done []
      | Some (line, r) \<Rightarrow>
          obind (scan_line line v) (\<lambda>v1. obind (equ_lines v1 r) (\<lambda>out. Done (equ_line v1 @ out))))"
  by pat_completeness auto
termination
proof (relation "measure (\<lambda>(v, cs). length cs)")
  show "wf (measure (\<lambda>(v :: scanned, cs :: string). length cs))" by simp
next
  fix v :: scanned and cs :: string and x y line r v1
  assume "fgets 127 cs = Some x" "(line, r) = x"
  then show "((v1, r), v, cs) \<in> measure (\<lambda>(v, cs). length cs)"
    using get_chars_shorter [of 126 cs] by (auto simp: fgets_def split: if_splits)
qed

declare equ_lines.simps [simp del]

definition rule_line :: string where
  "rule_line = '';*******************************************************************'' @ [newline]"

definition heading :: string where
  "heading = rule_line @ ''; This file is generated automatically by utils/gen_section program'' @ [newline] @ rule_line"

text \<open>
  \<^verbatim>\<open>main\<close>: its result, the standard output, the diagnostic and the contents of the header file, if it is opened. The
  arguments are the symbol table, if it can be opened, and whether the header file can be written;
  opening it empties it, also when the symbol table is missing.
\<close>

record tool_run =
  exit_code :: int
  printed_text :: string
  diagnostic :: "string option"
  header_file :: "string option"

definition gen_section_main :: "nat \<Rightarrow> string option \<Rightarrow> bool \<Rightarrow> tool_run outcome" where
  "gen_section_main argc symfile headfile_open =
     (if argc \<noteq> 3
      then Done \<lparr>exit_code = 1, printed_text = ''USAGE: sym_gen system.map header.h'' @ [newline], diagnostic = None, header_file = None\<rparr>
      else let headfile = (if headfile_open then Some [] else None)
           in if headfile = None \<or> symfile = None
              then Done \<lparr>exit_code = 1, printed_text = [], diagnostic = Some ''file error?'', header_file = headfile\<rparr>
              else obind (equ_lines \<lparr>address = [], flag = CHR 0x00, symbol = []\<rparr> (the symfile))
                     (\<lambda>out. Done \<lparr>exit_code = 0, printed_text = [], diagnostic = None, header_file = Some (heading @ out)\<rparr>))"

subsection \<open>\<^verbatim>\<open>test_atomic\<close>\<close>

text \<open>The value behind the loop and the messages.\<close>

fun cmpxchg_loop :: "nat list \<Rightarrow> u64 \<Rightarrow> string list \<Rightarrow> u64 \<times> string list" where
  "cmpxchg_loop [] val out = (val, out)"
| "cmpxchg_loop (i # is) val out =
     (case atomic_cmpxchg val val (val + of_nat i) of (old_val, val1) \<Rightarrow>
        cmpxchg_loop is val1 (if val1 \<noteq> old_val + of_nat i then out @ [''atomic_cmpxchg fails\<newline>''] else out))"

definition test_atomic_main :: "u64 \<times> string list" where
  "test_atomic_main = cmpxchg_loop [0..<0x1ff] 0x12345678ABCDEF00 []"

definition test_utils_main :: string where
  "test_utils_main = ''\<newline>Start Build Utility Programs in utils directory\<newline>\<newline>/* *** */ \<newline>''"

subsection \<open>Lemmas\<close>

text \<open>A line of the symbol table as \<^verbatim>\<open>nm\<close> writes it, and what makes it fit.\<close>

type_synonym entry = "string \<times> char \<times> string"

definition entry_line :: "entry \<Rightarrow> string" where
  "entry_line e = (case e of (a, c, sy) \<Rightarrow> a @ '' '' @ [c] @ '' '' @ sy @ [newline])"

definition visible :: "char \<Rightarrow> bool" where
  "visible c \<longleftrightarrow> \<not> isspace c \<and> c \<noteq> CHR 0x00"

definition entry_ok :: "entry \<Rightarrow> bool" where
  "entry_ok e \<longleftrightarrow> (case e of (a, c, sy) \<Rightarrow> a \<noteq> [] \<and> sy \<noteq> [] \<and> list_all visible a \<and> visible c \<and> list_all visible sy \<and>
     length a < 20 \<and> length sy < 64)"

definition entry_equ :: "entry \<Rightarrow> string" where
  "entry_equ e = (case e of (a, c, sy) \<Rightarrow> equ_line \<lparr>address = a, flag = c, symbol = sy\<rparr>)"

lemma visible_newline: "visible c \<Longrightarrow> c \<noteq> newline \<and> \<not> isspace c \<and> c \<noteq> CHR 0x00"
  by (auto simp: visible_def isspace_def newline_def)

lemma isspace_simps [simp]: "isspace (CHR '' '')" "isspace newline"
  by (simp_all add: isspace_def newline_def)

lemma get_chars_line: "newline \<notin> set l \<Longrightarrow> length l < k \<Longrightarrow> get_chars k (l @ newline # r) = (l @ [newline], r)"
proof (induction l arbitrary: k)
  case Nil
  then show ?case by (cases k) simp_all
next
  case (Cons c l)
  then show ?case by (cases k) auto
qed

lemma scan_word_visible:
  assumes "list_all visible w" "w \<noteq> []" "isspace c"
  shows "scan_word (w @ c # r) = Some (w, c # r)"
proof -
  have v: "\<forall>x \<in> set w. \<not> isspace x" using assms(1) visible_newline by (auto simp: list_all_iff)
  then have "dropWhile isspace (w @ c # r) = w @ c # r" using assms(2) by (cases w) auto
  moreover have "takeWhile (\<lambda>x. \<not> isspace x) (w @ c # r) = w" using v assms(3) by simp
  ultimately show ?thesis using assms(2) by (simp add: scan_word_def)
qed

lemma scan_word_space: "scan_word (CHR '' '' # r) = scan_word r"
  by (simp add: scan_word_def)

lemma scan_entry:
  assumes "a \<noteq> []" "list_all visible a" "visible c" "sy \<noteq> []" "list_all visible sy"
  shows "scan_line (entry_line (a, c, sy)) v =
    obind (store_string 20 a) (\<lambda>a. obind (store_string 64 sy) (\<lambda>sy. Done \<lparr>address = a, flag = c, symbol = sy\<rparr>))"
proof -
  have "\<forall>x \<in> set (entry_line (a, c, sy)). x \<noteq> CHR 0x00"
    using assms visible_newline by (auto simp: entry_line_def list_all_iff newline_def)
  then have "takeWhile (\<lambda>c. c \<noteq> CHR 0x00) (entry_line (a, c, sy)) = a @ CHR '' '' # c # CHR '' '' # sy @ [newline]"
    by (subst takeWhile_eq_all_conv [THEN iffD2]) (auto simp: entry_line_def)
  moreover have "scan_char (CHR '' '' # c # CHR '' '' # sy @ [newline]) = Some (c, CHR '' '' # sy @ [newline])"
    using visible_newline [OF assms(3)] by (simp add: scan_char_def)
  ultimately show ?thesis
    using scan_word_visible [OF assms(2,1)] scan_word_visible [OF assms(5,4), of newline "[]"]
    by (simp add: scan_line_def scan_word_space store_string_def)
qed

lemma fgets_entry:
  assumes "list_all visible a" "visible c" "list_all visible sy" "length a + length sy < 123"
  shows "fgets 127 (entry_line (a, c, sy) @ r) = Some (entry_line (a, c, sy), r)"
proof -
  have "newline \<notin> set (a @ '' '' @ [c] @ '' '' @ sy)" using assms visible_newline
    by (auto simp: list_all_iff) (simp_all add: newline_def)
  from get_chars_line [OF this, of 126 r] assms(4) show ?thesis by (simp add: fgets_def entry_line_def)
qed

lemma equ_lines_entries: "list_all entry_ok es \<Longrightarrow> equ_lines v (concat (map entry_line es)) = Done (concat (map entry_equ es))"
proof (induction es arbitrary: v)
  case Nil
  then show ?case by (simp add: equ_lines.simps fgets_def)
next
  case (Cons e es)
  obtain a c sy where e: "e = (a, c, sy)" by (cases e) auto
  have "entry_equ e = equ_line \<lparr>address = a, flag = c, symbol = sy\<rparr>" by (simp add: entry_equ_def e)
  moreover have "a \<noteq> [] \<and> sy \<noteq> [] \<and> list_all visible a \<and> visible c \<and> list_all visible sy \<and> length a < 20 \<and> length sy < 64"
    using Cons.prems by (simp add: entry_ok_def e)
  ultimately show ?case using Cons
    by (subst equ_lines.simps) (simp add: fgets_entry scan_entry store_string_def e)
qed

text \<open>
  C38 (\<^verbatim>\<open>gen_section\<close>). From a symbol table whose addresses have at most 19 and whose symbols at most
  63 characters the program writes the heading and, in the order of the table, one line for each symbol with the
  symbol padded to 20 columns and its address. With the wrong number of arguments or without the
  symbol table it returns 1; in the second case an existing header file has been emptied.
\<close>

theorem gen_section_translates:
  assumes "list_all entry_ok es"
  shows "gen_section_main 3 (Some (concat (map entry_line es))) True =
      Done \<lparr>exit_code = 0, printed_text = [], diagnostic = None,
        header_file = Some (heading @ concat (map (\<lambda>(a, c, sy).
          sy @ replicate (20 - length sy) (CHR '' '') @ '' equ 0x'' @ a @ [newline]) es))\<rparr> \<and>
    (argc \<noteq> 3 \<longrightarrow> (\<exists>run. gen_section_main argc f ok = Done run \<and> exit_code run = 1 \<and> header_file run = None)) \<and>
    (\<exists>run. gen_section_main 3 None True = Done run \<and> exit_code run = 1 \<and> header_file run = Some [])"
proof -
  have "entry_equ = (\<lambda>(a, c, sy). sy @ replicate (20 - length sy) (CHR '' '') @ '' equ 0x'' @ a @ [newline])"
    by (simp add: fun_eq_iff entry_equ_def equ_line_def)
  then show ?thesis using equ_lines_entries [OF assms] by (simp add: gen_section_main_def)
qed

theorem gen_section_translates_witness:
  "gen_section_main 3 (Some (''ffff800000100000 T start_kernel'' @ [newline])) True =
     Done \<lparr>exit_code = 0, printed_text = [], diagnostic = None,
       header_file = Some (heading @ ''start_kernel         equ 0xffff800000100000'' @ [newline])\<rparr>"
proof -
  have "list_all entry_ok [(''ffff800000100000'', CHR ''T'', ''start_kernel'')]"
    by (simp add: entry_ok_def visible_def isspace_def)
  from gen_section_translates [OF this] show ?thesis by (simp add: entry_line_def numeral_eq_Suc)
qed

text \<open>
  Supplement (\<^verbatim>\<open>gen_section\<close>, long symbols). A symbol of 64 or more characters in a line that \<^verbatim>\<open>fgets\<close> takes as a
  whole is written behind its array.
\<close>

theorem gen_section_long_symbol:
  assumes "a \<noteq> []" "list_all visible a" "length a < 20" "visible c" "list_all visible sy" "64 \<le> length sy"
    and "length a + length sy < 123"
  shows "gen_section_main 3 (Some (entry_line (a, c, sy) @ r)) True = Fault"
proof -
  have "sy \<noteq> []" using assms(6) by auto
  from scan_entry [OF assms(1,2,4) this assms(5)] assms(3,6)
  have "scan_line (entry_line (a, c, sy)) v = Fault" for v by (simp add: store_string_def)
  then show ?thesis using fgets_entry [OF assms(2,4,5,7)] by (simp add: gen_section_main_def equ_lines.simps)
qed

lemma cmpxchg_same: "atomic_cmpxchg v v w = (v, w)"
  by (simp add: atomic_cmpxchg_def)

lemma cmpxchg_loop_silent: "cmpxchg_loop is val out = (val + of_nat (sum_list is), out)"
  by (induction "is" arbitrary: val) (simp_all add: cmpxchg_same add.assoc)

text \<open>
  Supplement (\<^verbatim>\<open>test_atomic\<close>). The test of \<^verbatim>\<open>atomic_cmpxchg\<close> prints nothing, and ends with the sum of all increments.
\<close>

theorem test_atomic_passes: "test_atomic_main = (0x12345678ABCDEF00 + 130305, [])"
proof -
  have "{0..<511} = {0..510 :: nat}" by auto
  then have "sum_list [0..<0x1ff] = (130305 :: nat)"
    using gauss_sum_nat [of 510] by (simp add: sum_list_distinct_conv_sum_set)
  then show ?thesis by (simp add: test_atomic_main_def cmpxchg_loop_silent)
qed

end
